(* ===== verification/Prelude.thy ===== *)
theory Prelude
  imports Main "HOL-Library.Word" "HOL-Library.AList" "HOL-Library.Monad_Syntax"
begin

text \<open>
  Shared vocabulary of the development: the machine integers of the Rust sources, the parts of
  \<^verbatim>\<open>core::str\<close> and \<^verbatim>\<open>core::num\<close> the client uses (splitting, lines, prefixes, decimal
  printing and parsing), association lists for \<^verbatim>\<open>HashMap\<close>, and the generic notion of a
  reachable state with the interface of an inductive invariant.

  A Rust \<^verbatim>\<open>String\<close> is a list of bytes, so a \<^typ>\<open>string\<close> (a list of 8-bit
  characters) is used for it; \<^verbatim>\<open>len()\<close> is \<^const>\<open>length\<close>.  Integer arithmetic follows
  the release profile of \<^verbatim>\<open>Cargo.toml\<close>, which does not enable overflow checks: unsigned
  values are words, signed 64-bit values are integers with the wrap-around written out.
\<close>

type_synonym u8 = "8 word"
type_synonym u16 = "16 word"
type_synonym u32 = "32 word"
type_synonym u64 = "64 word"
type_synonym bytes = "8 word list"
type_synonym path = string
type_synonym ('k, 'v) hashmap = "('k \<times> 'v) list"

named_theorems str_simps "rewrite rules for the string operations"
named_theorems dec_simps "decimal and hexadecimal codecs"
named_theorems acct_simps "cache accounting"

section \<open>Integers\<close>

text \<open>\<^verbatim>\<open>uN::saturating_sub\<close>.\<close>

definition saturating_sub :: "'a::len word \<Rightarrow> 'a word \<Rightarrow> 'a word" where
  "saturating_sub a b = (if b \<le> a then a - b else 0)"

lemma unat_saturating_sub [simp]: "unat (saturating_sub a b) = unat a - unat b"
  by (simp add: saturating_sub_def unat_sub word_le_nat_alt)

lemma saturating_sub_le: "saturating_sub a b \<le> a"
  by (simp add: word_le_nat_alt)

text \<open>Wrapping subtraction and addition of two \<^verbatim>\<open>i64\<close> values.\<close>

definition i64_sub :: "int \<Rightarrow> int \<Rightarrow> int" where
  "i64_sub a b = signed_take_bit 63 (a - b)"

definition i64_add :: "int \<Rightarrow> int \<Rightarrow> int" where
  "i64_add a b = signed_take_bit 63 (a + b)"

definition is_i64 :: "int \<Rightarrow> bool" where
  "is_i64 x \<longleftrightarrow> - (2 ^ 63) \<le> x \<and> x < 2 ^ 63"

lemma i64_sub_exact: "is_i64 (a - b) \<Longrightarrow> i64_sub a b = a - b"
  by (simp add: i64_sub_def is_i64_def signed_take_bit_int_eq_self)

lemma i64_add_exact: "is_i64 (a + b) \<Longrightarrow> i64_add a b = a + b"
  by (simp add: i64_add_def is_i64_def signed_take_bit_int_eq_self)

lemma i64_sub_congruent: "(i64_sub a b - (a - b)) mod 2 ^ 64 = 0"
proof -
  have "take_bit 64 (signed_take_bit 63 (a - b)) = take_bit 64 (a - b)"
    by (simp add: take_bit_signed_take_bit)
  then have "signed_take_bit 63 (a - b) mod 2 ^ 64 = (a - b) mod 2 ^ 64"
    by (simp only: take_bit_eq_mod)
  then show ?thesis
    unfolding i64_sub_def by (metis mod_diff_cong cancel_comm_monoid_add_class.diff_cancel mod_0)
qed

section \<open>Strings\<close>

text \<open>\<^verbatim>\<open>str::split(char)\<close>: always at least one piece.\<close>

fun split_on :: "char \<Rightarrow> string \<Rightarrow> string list" where
  "split_on c [] = [[]]"
| "split_on c (x # xs) =
     (if x = c then [] # split_on c xs
      else (case split_on c xs of [] \<Rightarrow> [[x]] | y # ys \<Rightarrow> (x # y) # ys))"

lemma split_on_neq_Nil [simp]: "split_on c s \<noteq> []"
  by (induction s) (auto split: list.splits)

lemma split_on_no_sep [str_simps]: "c \<notin> set s \<Longrightarrow> split_on c s = [s]"
  by (induction s) auto

lemma split_on_append_sep [str_simps]: "c \<notin> set s \<Longrightarrow> split_on c (s @ c # t) = s # split_on c t"
  by (induction s) auto

lemma split_on_parts_subset: "p \<in> set (split_on c s) \<Longrightarrow> set p \<subseteq> set s"
  by (induction c s arbitrary: p rule: split_on.induct) (fastforce split: if_splits list.splits)+

lemma split_on_parts_no_sep: "p \<in> set (split_on c s) \<Longrightarrow> c \<notin> set p"
  by (induction s arbitrary: p) (auto split: if_splits list.splits)

text \<open>\<^verbatim>\<open>[T]::join\<close> with a separator string.\<close>

fun join_with :: "string \<Rightarrow> string list \<Rightarrow> string" where
  "join_with sep [] = []"
| "join_with sep [x] = x"
| "join_with sep (x # y # ys) = x @ sep @ join_with sep (y # ys)"

lemma join_with_Cons: "ys \<noteq> [] \<Longrightarrow> join_with sep (x # ys) = x @ sep @ join_with sep ys"
  by (cases ys) auto

lemma join_split [simp]: "join_with [c] (split_on c s) = s"
proof (induction s)
  case (Cons x s)
  show ?case
  proof (cases "split_on c s")
    case (Cons y ys)
    with Cons.IH show ?thesis by (cases ys) auto
  qed simp
qed simp

lemma split_join:
  "xs \<noteq> [] \<Longrightarrow> (\<And>x. x \<in> set xs \<Longrightarrow> c \<notin> set x) \<Longrightarrow> split_on c (join_with [c] xs) = xs"
proof (induction xs rule: list_nonempty_induct)
  case (cons x xs)
  then show ?case by (simp add: join_with_Cons str_simps)
qed (simp add: str_simps)

text \<open>\<^verbatim>\<open>str::splitn(n, char)\<close>: at most \<open>n\<close> pieces, the last one unsplit.\<close>

fun splitn :: "nat \<Rightarrow> char \<Rightarrow> string \<Rightarrow> string list" where
  "splitn 0 c s = []"
| "splitn (Suc 0) c s = [s]"
| "splitn (Suc (Suc n)) c s =
     (if c \<in> set s
      then takeWhile (\<lambda>x. x \<noteq> c) s # splitn (Suc n) c (tl (dropWhile (\<lambda>x. x \<noteq> c) s))
      else [s])"

text \<open>\<^verbatim>\<open>str::starts_with\<close>.\<close>

fun starts_with :: "string \<Rightarrow> string \<Rightarrow> bool" where
  "starts_with s [] = True"
| "starts_with [] (p # ps) = False"
| "starts_with (x # xs) (p # ps) = (x = p \<and> starts_with xs ps)"

lemma starts_with_iff: "starts_with s p \<longleftrightarrow> (\<exists>t. s = p @ t)"
  by (induction s p rule: starts_with.induct) auto

lemma starts_with_append [simp]: "starts_with (p @ t) p"
  by (simp add: starts_with_iff)

lemma starts_with_refl [simp]: "starts_with s s"
  using starts_with_append [of s "[]"] by simp

lemma starts_with_length: "starts_with s p \<Longrightarrow> length p \<le> length s"
  by (auto simp: starts_with_iff)

lemma starts_with_take: "starts_with s p \<Longrightarrow> take (length p) s = p"
  by (auto simp: starts_with_iff)

text \<open>
  \<^verbatim>\<open>str::lines\<close>: the pieces of \<^verbatim>\<open>split_inclusive('\\n')\<close>, each without its final line feed and
  without the carriage return before it.
\<close>

abbreviation LF :: char where "LF \<equiv> CHR 0x0A"
abbreviation CR :: char where "CR \<equiv> CHR 0x0D"

definition strip_cr :: "string \<Rightarrow> string" where
  "strip_cr l = (if l \<noteq> [] \<and> last l = CR then butlast l else l)"

fun lines_from :: "string \<Rightarrow> string \<Rightarrow> string list" where
  "lines_from acc [] = (if acc = [] then [] else [rev acc])"
| "lines_from acc (x # xs) =
     (if x = LF then strip_cr (rev acc) # lines_from [] xs else lines_from (x # acc) xs)"

definition lines :: "string \<Rightarrow> string list" where
  "lines s = lines_from [] s"

definition is_line :: "string \<Rightarrow> bool" where
  "is_line l \<longleftrightarrow> LF \<notin> set l \<and> CR \<notin> set l"

lemma strip_cr_is_line [simp]: "CR \<notin> set l \<Longrightarrow> strip_cr l = l"
  unfolding strip_cr_def by (metis last_in_set)

lemma lines_from_no_lf: "LF \<notin> set l \<Longrightarrow> lines_from acc (l @ LF # t) = strip_cr (rev acc @ l) # lines_from [] t"
  by (induction l arbitrary: acc) auto

lemma lines_from_last: "LF \<notin> set l \<Longrightarrow> lines_from acc l = (if acc = [] \<and> l = [] then [] else [rev acc @ l])"
  by (induction l arbitrary: acc) auto

lemma lines_Cons [str_simps]: "is_line l \<Longrightarrow> lines (l @ LF # t) = l # lines t"
  by (simp add: lines_def is_line_def lines_from_no_lf)

lemma lines_single [str_simps]: "is_line l \<Longrightarrow> lines l = (if l = [] then [] else [l])"
  by (simp add: lines_def is_line_def lines_from_last)

lemma lines_join:
  "(\<And>l. l \<in> set ls \<Longrightarrow> is_line l) \<Longrightarrow> ls \<noteq> [] \<Longrightarrow> last ls \<noteq> [] \<Longrightarrow> lines (join_with [LF] ls) = ls"
proof (induction ls rule: induct_list012)
  case (3 x y zs)
  then show ?case by (simp add: str_simps)
qed (auto simp: str_simps)

text \<open>ASCII \<^verbatim>\<open>to_lowercase\<close> and \<^verbatim>\<open>eq_ignore_ascii_case\<close>.\<close>

definition ascii_lower :: "char \<Rightarrow> char" where
  "ascii_lower c = (let n = (of_char c :: nat) in if 65 \<le> n \<and> n \<le> 90 then char_of (n + 32) else c)"

definition to_lowercase :: "string \<Rightarrow> string" where
  "to_lowercase s = map ascii_lower s"

definition eq_ignore_ascii_case :: "string \<Rightarrow> string \<Rightarrow> bool" where
  "eq_ignore_ascii_case a b \<longleftrightarrow> to_lowercase a = to_lowercase b"

section \<open>Numbers as text\<close>

definition digit_char :: "nat \<Rightarrow> char" where
  "digit_char d = char_of (48 + d)"

definition digit_val :: "char \<Rightarrow> nat option" where
  "digit_val c = (let n = of_char c in if 48 \<le> n \<and> n \<le> 57 then Some (n - 48) else None)"

lemma digit_val_char [dec_simps]: "d < 10 \<Longrightarrow> digit_val (digit_char d) = Some d"
  by (simp add: digit_val_def digit_char_def)

definition is_digit :: "char \<Rightarrow> bool" where
  "is_digit c \<longleftrightarrow> digit_val c \<noteq> None"

lemma is_digit_digit_char [dec_simps]: "d < 10 \<Longrightarrow> is_digit (digit_char d)"
  by (simp add: is_digit_def dec_simps)

text \<open>\<^verbatim>\<open>Display\<close> of an unsigned and of a signed integer.\<close>

fun show_nat :: "nat \<Rightarrow> string" where
  "show_nat n = (if n < 10 then [digit_char n] else show_nat (n div 10) @ [digit_char (n mod 10)])"

declare show_nat.simps [simp del]

definition show_int :: "int \<Rightarrow> string" where
  "show_int i = (if i < 0 then CHR ''-'' # show_nat (nat (- i)) else show_nat (nat i))"

text \<open>\<^verbatim>\<open>str::parse\<close> into an integer of \<open>b\<close> bits: an optional sign (minus for signed types
  only), then digits only, at least one, and the value in range.\<close>

fun parse_digits_from :: "nat \<Rightarrow> string \<Rightarrow> nat option" where
  "parse_digits_from n [] = Some n"
| "parse_digits_from n (c # cs) =
     (case digit_val c of None \<Rightarrow> None | Some d \<Rightarrow> parse_digits_from (10 * n + d) cs)"

definition parse_digits :: "string \<Rightarrow> nat option" where
  "parse_digits s = (if s = [] then None else parse_digits_from 0 s)"

definition parse_uint :: "nat \<Rightarrow> string \<Rightarrow> nat option" where
  "parse_uint b s =
     (case parse_digits (case s of c # cs \<Rightarrow> if c = CHR ''+'' then cs else s | [] \<Rightarrow> []) of
        None \<Rightarrow> None
      | Some n \<Rightarrow> if n < 2 ^ b then Some n else None)"

definition parse_sint :: "nat \<Rightarrow> string \<Rightarrow> int option" where
  "parse_sint b s =
     (case s of
        c # cs \<Rightarrow>
          if c = CHR ''-'' then
            (case parse_digits cs of None \<Rightarrow> None
             | Some n \<Rightarrow> if n \<le> 2 ^ (b - 1) then Some (- int n) else None)
          else
            (case parse_digits (if c = CHR ''+'' then cs else s) of None \<Rightarrow> None
             | Some n \<Rightarrow> if n < 2 ^ (b - 1) then Some (int n) else None)
      | [] \<Rightarrow> None)"

definition parse_u64 :: "string \<Rightarrow> u64 option" where
  "parse_u64 s = map_option of_nat (parse_uint 64 s)"

definition parse_u32 :: "string \<Rightarrow> u32 option" where
  "parse_u32 s = map_option of_nat (parse_uint 32 s)"

definition parse_bool :: "string \<Rightarrow> bool option" where
  "parse_bool s = (if s = ''true'' then Some True else if s = ''false'' then Some False else None)"

lemmas parse_eval = parse_u32_def parse_u64_def parse_uint_def parse_sint_def parse_digits_def
  digit_val_def parse_bool_def

lemma show_nat_digits: "c \<in> set (show_nat n) \<Longrightarrow> is_digit c"
proof (induction n rule: show_nat.induct)
  case (1 n)
  then show ?case by (subst (asm) (2) show_nat.simps) (auto simp: dec_simps split: if_splits)
qed

lemma show_nat_neq_Nil [simp]: "show_nat n \<noteq> []"
  by (subst show_nat.simps) simp

lemma digits_no_sep:
  "\<not> is_digit c \<Longrightarrow> c \<notin> set (show_nat n)"
  using show_nat_digits by blast

lemma parse_digits_from_append:
  "parse_digits_from n (s @ [c]) =
     (case parse_digits_from n s of None \<Rightarrow> None
      | Some m \<Rightarrow> map_option (\<lambda>d. 10 * m + d) (digit_val c))"
  by (induction n s rule: parse_digits_from.induct) (auto split: option.splits)

lemma parse_digits_from_show: "parse_digits_from 0 (show_nat n) = Some n"
proof (induction n rule: show_nat.induct)
  case (1 n)
  show ?case
  proof (cases "n < 10")
    case True
    then show ?thesis by (subst show_nat.simps) (simp add: dec_simps)
  next
    case False
    with "1.IH" have IH: "parse_digits_from 0 (show_nat (n div 10)) = Some (n div 10)" by simp
    from False show ?thesis
      by (subst show_nat.simps) (simp add: parse_digits_from_append IH dec_simps)
  qed
qed

lemma parse_digits_show [simp]: "parse_digits (show_nat n) = Some n"
  by (simp add: parse_digits_def parse_digits_from_show)

lemma hd_show_nat_digit: "show_nat n = c # cs \<Longrightarrow> is_digit c"
  using show_nat_digits [of c n] by simp

lemma parse_uint_show [dec_simps]: "n < 2 ^ b \<Longrightarrow> parse_uint b (show_nat n) = Some n"
proof -
  assume n: "n < 2 ^ b"
  obtain c cs where s: "show_nat n = c # cs" by (cases "show_nat n") auto
  then have "c \<noteq> CHR ''+''" using hd_show_nat_digit [OF s] by (auto simp: is_digit_def digit_val_def)
  with n s show ?thesis using parse_digits_show [of n] by (simp add: parse_uint_def)
qed

lemma parse_sint_show [dec_simps]:
  "- (2 ^ (b - 1)) \<le> i \<Longrightarrow> i < 2 ^ (b - 1) \<Longrightarrow> parse_sint b (show_int i) = Some i"
proof (cases "i < 0")
  case True
  moreover assume "- (2 ^ (b - 1)) \<le> i"
  ultimately have "nat (- i) \<le> 2 ^ (b - 1)" by (simp add: nat_le_iff)
  with True show ?thesis by (simp add: show_int_def parse_sint_def)
next
  case False
  assume "i < 2 ^ (b - 1)"
  with False have n: "nat i < 2 ^ (b - 1)" by (simp add: nat_less_iff)
  obtain c cs where s: "show_nat (nat i) = c # cs" by (cases "show_nat (nat i)") auto
  then have "c \<noteq> CHR ''+''" "c \<noteq> CHR ''-''"
    using hd_show_nat_digit [OF s] by (auto simp: is_digit_def digit_val_def)
  with False n s show ?thesis
    using parse_digits_show [of "nat i"] by (simp add: parse_sint_def show_int_def)
qed

lemma parse_u32_show [dec_simps]: "parse_u32 (show_nat (unat (n :: u32))) = Some n"
  by (simp add: parse_u32_def parse_uint_show unsigned_less [where 'b = 32, simplified])

lemma parse_u64_show [dec_simps]: "parse_u64 (show_nat (unat (n :: u64))) = Some n"
  by (simp add: parse_u64_def parse_uint_show unsigned_less [where 'b = 64, simplified])

lemma parse_sint_range:
  assumes "parse_sint b s = Some i"
  shows "- (2 ^ (b - 1)) \<le> i" and "i < 2 ^ (b - 1)"
proof -
  have pos: "0 < int (2 ^ (b - 1))" by simp
  from assms obtain n :: nat where
    "(n \<le> 2 ^ (b - 1) \<and> i = - int n) \<or> (n < 2 ^ (b - 1) \<and> i = int n)"
    by (auto simp: parse_sint_def split: list.splits if_splits option.splits)
  then have "(int n \<le> int (2 ^ (b - 1)) \<and> i = - int n) \<or> (int n < int (2 ^ (b - 1)) \<and> i = int n)"
    by (simp only: of_nat_le_iff of_nat_less_iff)
  with pos have "- int (2 ^ (b - 1)) \<le> i \<and> i < int (2 ^ (b - 1))" by linarith
  then show "- (2 ^ (b - 1)) \<le> i" and "i < 2 ^ (b - 1)" by simp_all
qed

section \<open>Hash maps as association lists\<close>

text \<open>
  A \<^verbatim>\<open>HashMap\<close> is an association list with distinct keys; the order of the list stands for
  the unspecified iteration order, and theorems hold for every order.
\<close>

abbreviation lookup :: "('k, 'v) hashmap \<Rightarrow> 'k \<Rightarrow> 'v option" where
  "lookup m k \<equiv> map_of m k"

abbreviation insert_map :: "'k \<Rightarrow> 'v \<Rightarrow> ('k, 'v) hashmap \<Rightarrow> ('k, 'v) hashmap" where
  "insert_map k v m \<equiv> AList.update k v m"

abbreviation remove_map :: "'k \<Rightarrow> ('k, 'v) hashmap \<Rightarrow> ('k, 'v) hashmap" where
  "remove_map k m \<equiv> AList.delete k m"

text \<open>\<^verbatim>\<open>HashMap::retain\<close>.\<close>

definition retain :: "('k \<Rightarrow> 'v \<Rightarrow> bool) \<Rightarrow> ('k, 'v) hashmap \<Rightarrow> ('k, 'v) hashmap" where
  "retain p m = filter (\<lambda>(k, v). p k v) m"

definition wf_map :: "('k, 'v) hashmap \<Rightarrow> bool" where
  "wf_map m \<longleftrightarrow> distinct (map fst m)"

lemma wf_map_Nil [simp]: "wf_map []"
  by (simp add: wf_map_def)

lemma wf_map_insert [simp]: "wf_map m \<Longrightarrow> wf_map (insert_map k v m)"
  by (simp add: wf_map_def distinct_update)

lemma wf_map_remove [simp]: "wf_map m \<Longrightarrow> wf_map (remove_map k m)"
  by (simp add: wf_map_def distinct_delete)

lemma wf_map_retain [simp]: "wf_map m \<Longrightarrow> wf_map (retain p m)"
  by (auto simp: wf_map_def retain_def distinct_map_filter distinct_map intro: inj_on_subset)

lemma lookup_insert [simp]: "lookup (insert_map k v m) k' = (if k' = k then Some v else lookup m k')"
  by (simp add: update_conv')

lemma lookup_remove [simp]: "lookup (remove_map k m) k' = (if k' = k then None else lookup m k')"
  by (simp add: delete_conv')

lemma lookup_retain:
  "wf_map m \<Longrightarrow> lookup (retain p m) k = (case lookup m k of None \<Rightarrow> None | Some v \<Rightarrow> if p k v then Some v else None)"
proof (induction m)
  case (Cons x m)
  have "k \<notin> fst ` set m \<Longrightarrow> lookup (filter (\<lambda>(k, v). p k v) m) k = None"
    by (auto simp: map_of_eq_None_iff)
  with Cons show ?case
    by (cases x) (auto simp: wf_map_def retain_def map_of_eq_None_iff split: option.splits)
qed (simp add: retain_def)

text \<open>Sums over the entries of a map, such as the counters kept beside it.\<close>

lemma sum_list_remove:
  fixes g :: "'k \<times> 'v \<Rightarrow> 'a::comm_monoid_add"
  assumes "wf_map m" "lookup m k = Some v"
  shows "sum_list (map g m) = g (k, v) + sum_list (map g (remove_map k m))"
  using assms
proof (induction m)
  case (Cons x m)
  obtain k' v' where x: "x = (k', v')" by (metis surj_pair)
  show ?case
  proof (cases "k' = k")
    case True
    with Cons.prems(1) x have "k \<notin> fst ` set m" by (simp add: wf_map_def)
    then have "remove_map k m = m" by (simp add: delete_id)
    with True x Cons.prems show ?thesis by simp
  next
    case False
    with Cons x show ?thesis by (simp add: wf_map_def add.left_commute)
  qed
qed simp

lemma sum_list_insert_new:
  fixes g :: "'k \<times> 'v \<Rightarrow> 'a::comm_monoid_add"
  shows "lookup m k = None \<Longrightarrow> sum_list (map g (insert_map k v m)) = g (k, v) + sum_list (map g m)"
  by (induction m) (auto simp: add.left_commute split: if_splits)

lemma of_nat_length_filter:
  "of_nat (length (filter P xs)) = sum_list (map (\<lambda>x. if P x then 1 else (0::'a::semiring_1)) xs)"
  by (induction xs) auto

lemma sum_list_filter_if:
  "sum_list (map f (filter P xs)) = sum_list (map (\<lambda>x. if P x then f x else (0::'a::comm_monoid_add)) xs)"
  by (induction xs) auto

lemma lookup_set: "lookup m k = Some v \<Longrightarrow> (k, v) \<in> set m"
  by (rule map_of_SomeD)

lemma set_insert_map: "(k', v') \<in> set (insert_map k v m) \<Longrightarrow> (k' = k \<and> v' = v) \<or> (k', v') \<in> set m"
  by (induction m) (auto split: if_splits)

lemma set_remove_map: "wf_map m \<Longrightarrow> (k', v') \<in> set (remove_map k m) \<longleftrightarrow> k' \<noteq> k \<and> (k', v') \<in> set m"
  by (auto simp: AList.delete_eq)

section \<open>Reachable states and inductive invariants\<close>

inductive reach :: "('s \<Rightarrow> bool) \<Rightarrow> ('s \<Rightarrow> 's \<Rightarrow> bool) \<Rightarrow> 's \<Rightarrow> bool"
  for init :: "'s \<Rightarrow> bool" and step :: "'s \<Rightarrow> 's \<Rightarrow> bool" where
  reach_init: "init s \<Longrightarrow> reach init step s"
| reach_step: "reach init step s \<Longrightarrow> step s t \<Longrightarrow> reach init step t"

text \<open>
  The contract between a component that keeps a state and the clients that only see it between
  operations: the invariant holds initially and every operation keeps it.
\<close>

locale stateful =
  fixes init :: "'s \<Rightarrow> bool"
    and step :: "'s \<Rightarrow> 's \<Rightarrow> bool"
    and inv :: "'s \<Rightarrow> bool"
  assumes init_inv: "init s \<Longrightarrow> inv s"
    and step_inv: "inv s \<Longrightarrow> step s t \<Longrightarrow> inv t"
begin

lemma reach_inv: "reach init step s \<Longrightarrow> inv s"
  by (induction rule: reach.induct) (auto intro: init_inv step_inv)

lemma rtranclp_inv: "step\<^sup>*\<^sup>* s t \<Longrightarrow> inv s \<Longrightarrow> inv t"
  by (induction rule: rtranclp_induct) (auto intro: step_inv)

end

end
