(* ===== verification/FloodControl.thy ===== *)
theory FloodControl
  imports Prelude
begin

text \<open>
  \<^verbatim>\<open>src/server/util.rs\<close>, \<^verbatim>\<open>FloodControl\<close>: the per-address limiter that the accept loops consult
  for every TCP connection and every HTTP/3 request.  An \<^verbatim>\<open>Instant\<close> is a number of nanoseconds;
  \<^verbatim>\<open>Instant - Instant\<close> and \<^verbatim>\<open>elapsed\<close> saturate at zero as subtraction on \<^typ>\<open>nat\<close> does.
  \<^verbatim>\<open>hit\<close> reads the clock once for \<open>now\<close> and again in the \<^verbatim>\<open>elapsed\<close> calls of the cleaning
  branch; the second reading is the parameter \<open>later\<close>.

  The abstract specification is one leaky bucket per address, with no garbage collection and no
  influence between addresses; \<open>hit\<close> is shown to refine it.
\<close>

datatype ip_addr = V4 "32 word" | V6 "128 word"

text \<open>\<^verbatim>\<open>IpAddr::to_canonical\<close>, which \<^verbatim>\<open>accept\<close> applies: an IPv4-mapped IPv6 address becomes IPv4.\<close>

definition to_canonical :: "ip_addr \<Rightarrow> ip_addr" where
  "to_canonical ip =
     (case ip of V4 a \<Rightarrow> V4 a
      | V6 a \<Rightarrow> if drop_bit 32 a = 0xFFFF then V4 (ucast a) else V6 a)"

definition secs :: "nat \<Rightarrow> nat" where
  "secs n = n * 1000000000"

definition as_secs :: "nat \<Rightarrow> nat" where
  "as_secs d = d div 1000000000"

record flood_control =
  last_clean :: nat
  hit_map :: "(ip_addr, u8 \<times> nat) hashmap"
  block_list :: "(ip_addr, nat) hashmap"

definition flood_new :: "nat \<Rightarrow> flood_control" where
  "flood_new now = \<lparr>last_clean = now, hit_map = [], block_list = []\<rparr>"

definition flood_clean :: "nat \<Rightarrow> nat \<Rightarrow> flood_control \<Rightarrow> flood_control" where
  "flood_clean now later fc =
     (if later - last_clean fc > secs 10
      then fc\<lparr>block_list := retain (\<lambda>_ t. t > now) (block_list fc),
              hit_map := retain (\<lambda>_ (_, t). later - t < secs 10) (hit_map fc),
              last_clean := now\<rparr>
      else fc)"

definition flood_blocked :: "nat \<Rightarrow> ip_addr \<Rightarrow> flood_control \<Rightarrow> bool" where
  "flood_blocked now ip fc = (case lookup (block_list fc) ip of None \<Rightarrow> False | Some t \<Rightarrow> t > now)"

definition flood_count :: "nat \<Rightarrow> u8 \<times> nat \<Rightarrow> u8" where
  "flood_count now e =
     (case e of (h, t) \<Rightarrow> saturating_sub h (word_of_nat (min 10 (as_secs (now - t)))) + 1)"

definition flood_hit :: "nat \<Rightarrow> nat \<Rightarrow> ip_addr \<Rightarrow> flood_control \<Rightarrow> bool \<times> flood_control" where
  "flood_hit now later ip fc =
     (let fc = flood_clean now later fc in
      if flood_blocked now ip fc then (True, fc)
      else
        let e = (case lookup (hit_map fc) ip of Some e \<Rightarrow> e | None \<Rightarrow> (0, now));
            h = flood_count now e;
            fc = fc\<lparr>hit_map := insert_map ip (h, now) (hit_map fc)\<rparr>
        in if h \<ge> 10
           then (True, fc\<lparr>block_list := insert_map ip (now + secs 60) (block_list fc)\<rparr>)
           else (False, fc))"

text \<open>A sequence of hits: address, clock reading and second clock reading of each.\<close>

fun flood_run :: "(ip_addr \<times> nat \<times> nat) list \<Rightarrow> flood_control \<Rightarrow> bool list \<times> flood_control" where
  "flood_run [] fc = ([], fc)"
| "flood_run ((ip, now, later) # es) fc =
     (let (r, fc) = flood_hit now later ip fc; (rs, fc) = flood_run es fc in (r # rs, fc))"

section \<open>The counter never overflows\<close>

definition flood_ok :: "flood_control \<Rightarrow> bool" where
  "flood_ok fc \<longleftrightarrow> wf_map (hit_map fc) \<and> wf_map (block_list fc) \<and>
     (\<forall>ip h t. lookup (hit_map fc) ip = Some (h, t) \<longrightarrow>
        unat h \<le> 10 \<and> (unat h = 10 \<longrightarrow> lookup (block_list fc) ip = Some (t + secs 60)))"

lemma flood_okD:
  "flood_ok fc \<Longrightarrow> lookup (hit_map fc) ip = Some (h, t) \<Longrightarrow>
     unat h \<le> 10 \<and> (unat h = 10 \<longrightarrow> lookup (block_list fc) ip = Some (t + secs 60))"
  by (simp add: flood_ok_def)

lemma unat_flood_count:
  assumes "unat h \<le> 10"
  shows "unat (flood_count now (h, t)) = unat h - min 10 (as_secs (now - t)) + 1"
proof -
  have w: "unat (word_of_nat (min 10 (as_secs (now - t))) :: u8) = min 10 (as_secs (now - t))"
    by (simp add: unat_of_nat)
  then have u: "unat (saturating_sub h (word_of_nat (min 10 (as_secs (now - t))))) =
      unat h - min 10 (as_secs (now - t))" by simp
  have "unat (saturating_sub h (word_of_nat (min 10 (as_secs (now - t)))) + (1 :: u8)) =
      unat (saturating_sub h (word_of_nat (min 10 (as_secs (now - t))))) + unat (1 :: u8)"
    by (rule unat_add_lem [THEN iffD1]) (use u assms in simp)
  then show ?thesis by (simp add: flood_count_def w)
qed

lemma lookup_clean_hit:
  assumes "flood_ok fc"
  shows "lookup (hit_map (flood_clean now later fc)) ip =
    (case lookup (hit_map fc) ip of None \<Rightarrow> None
     | Some (h, t) \<Rightarrow> if later - last_clean fc > secs 10 \<and> later - t \<ge> secs 10 then None else Some (h, t))"
  using assms by (auto simp: flood_clean_def flood_ok_def lookup_retain split: option.splits)

lemma lookup_clean_block:
  assumes "flood_ok fc"
  shows "lookup (block_list (flood_clean now later fc)) ip =
    (case lookup (block_list fc) ip of None \<Rightarrow> None
     | Some b \<Rightarrow> if later - last_clean fc > secs 10 \<and> b \<le> now then None else Some b)"
  using assms by (auto simp: flood_clean_def flood_ok_def lookup_retain split: option.splits)

lemma flood_clean_ok:
  assumes ok: "flood_ok fc" and le: "now \<le> later"
  shows "flood_ok (flood_clean now later fc)"
proof -
  have "unat h \<le> 10 \<and> (unat h = 10 \<longrightarrow> lookup (block_list (flood_clean now later fc)) ip = Some (t + secs 60))"
    if e: "lookup (hit_map (flood_clean now later fc)) ip = Some (h, t)" for ip h t
  proof -
    from e have o: "lookup (hit_map fc) ip = Some (h, t)"
      and keep: "later - last_clean fc > secs 10 \<Longrightarrow> later - t < secs 10"
      by (auto simp: lookup_clean_hit [OF ok] split: option.splits if_splits)
    from keep le have "later - last_clean fc > secs 10 \<Longrightarrow> \<not> t + secs 60 \<le> now"
      by (auto simp: secs_def)
    with flood_okD [OF ok o] show ?thesis
      by (auto simp: lookup_clean_block [OF ok] split: if_splits)
  qed
  moreover have "wf_map (hit_map (flood_clean now later fc))" "wf_map (block_list (flood_clean now later fc))"
    using ok by (auto simp: flood_ok_def flood_clean_def)
  ultimately show ?thesis by (auto simp: flood_ok_def)
qed

lemma flood_hit_ok:
  assumes ok: "flood_ok fc" and le: "now \<le> later"
  shows "flood_ok (snd (flood_hit now later ip fc))"
proof -
  let ?c = "flood_clean now later fc"
  have c: "flood_ok ?c" by (rule flood_clean_ok [OF ok le])
  show ?thesis
  proof (cases "flood_blocked now ip ?c")
    case True
    with c show ?thesis by (simp add: flood_hit_def)
  next
    case False
    obtain h t where e: "(case lookup (hit_map ?c) ip of Some e \<Rightarrow> e | None \<Rightarrow> (0, now)) = (h, t)"
      by (metis surj_pair)
    have h: "unat h \<le> 10"
      using e flood_okD [OF c] by (auto split: option.splits)
    have "unat h - min 10 (as_secs (now - t)) \<le> 9"
    proof (cases "unat h = 10")
      case True
      then have "lookup (hit_map ?c) ip = Some (h, t)" using e by (auto split: option.splits)
      with True flood_okD [OF c] have "lookup (block_list ?c) ip = Some (t + secs 60)" by blast
      with False have "t + secs 60 \<le> now" by (simp add: flood_blocked_def)
      then have "10 \<le> as_secs (now - t)" by (simp add: secs_def as_secs_def)
      with True show ?thesis by simp
    qed (use h in simp)
    then have n: "unat (flood_count now (h, t)) \<le> 10" by (simp add: unat_flood_count [OF h])
    with c False e show ?thesis
      by (auto simp: flood_hit_def Let_def flood_ok_def word_le_nat_alt)
  qed
qed

text \<open>The limiter as a state machine: the state is the limiter and the last clock reading.\<close>

inductive flood_step :: "flood_control \<times> nat \<Rightarrow> flood_control \<times> nat \<Rightarrow> bool" where
  hit: "clk \<le> now \<Longrightarrow> now \<le> later \<Longrightarrow>
    flood_step (fc, clk) (snd (flood_hit now later ip fc), later)"

definition flood_init :: "flood_control \<times> nat \<Rightarrow> bool" where
  "flood_init s \<longleftrightarrow> fst s = flood_new (snd s)"

inductive_cases flood_stepE: "flood_step s t"

interpretation flood: stateful flood_init flood_step "\<lambda>s. flood_ok (fst s)"
proof unfold_locales
  show "flood_init s \<Longrightarrow> flood_ok (fst s)" for s
    by (simp add: flood_init_def flood_new_def flood_ok_def)
  show "flood_ok (fst s) \<Longrightarrow> flood_step s t \<Longrightarrow> flood_ok (fst t)" for s t
    by (auto elim!: flood_stepE intro: flood_hit_ok)
qed

section \<open>The specification: one bucket per address\<close>

text \<open>
  A bucket is the number of recent hits, the time of the last hit and the end of the current block.
  It leaks one hit per second, fills by one per hit, and blocks for a minute at ten.
\<close>

type_synonym bucket = "nat \<times> nat \<times> nat"

fun bucket_hit :: "nat \<Rightarrow> bucket \<Rightarrow> bool \<times> bucket" where
  "bucket_hit now (h, t, u) =
     (if now < u then (True, (h, t, u))
      else let h' = h - min 10 (as_secs (now - t)) + 1
           in if 10 \<le> h' then (True, (h', now, now + secs 60)) else (False, (h', now, u)))"

definition empty_bucket :: bucket where
  "empty_bucket = (0, 0, 0)"

fun bucket_run :: "(ip_addr \<times> nat \<times> nat) list \<Rightarrow> (ip_addr \<Rightarrow> bucket) \<Rightarrow> bool list \<times> (ip_addr \<Rightarrow> bucket)" where
  "bucket_run [] B = ([], B)"
| "bucket_run ((ip, now, later) # es) B =
     (let (r, b) = bucket_hit now (B ip); (rs, B) = bucket_run es (B(ip := b)) in (r # rs, B))"

text \<open>
  The clock readings of a sequence of hits: they never go back, and the two readings of one call
  are less than a second apart.
\<close>

fun ticks :: "nat \<Rightarrow> (ip_addr \<times> nat \<times> nat) list \<Rightarrow> bool" where
  "ticks clk [] = True"
| "ticks clk ((ip, now, later) # es) = (clk \<le> now \<and> now \<le> later \<and> later < now + secs 1 \<and> ticks now es)"

section \<open>Refinement\<close>

fun bucket_sim :: "nat \<Rightarrow> flood_control \<Rightarrow> ip_addr \<Rightarrow> bucket \<Rightarrow> bool" where
  "bucket_sim clk fc ip (h, t, u) \<longleftrightarrow>
     h \<le> 10 \<and> (h = 10 \<longrightarrow> u = t + secs 60) \<and>
     (case lookup (block_list fc) ip of None \<Rightarrow> u \<le> clk | Some b \<Rightarrow> b = u) \<and>
     (case lookup (hit_map fc) ip of
        None \<Rightarrow> (\<forall>now \<ge> clk. u \<le> now \<longrightarrow> h \<le> min 10 (as_secs (now - t)))
      | Some (h', t') \<Rightarrow> unat h' = h \<and> t' = t)"

lemma bucket_sim_clean:
  assumes ok: "flood_ok fc" and sim: "bucket_sim clk fc ip (h, t, u)"
    and clk: "clk \<le> now" "now \<le> later" "later < now + secs 1"
  shows "bucket_sim now (flood_clean now later fc) ip (h, t, u)"
proof -
  have faded: "h \<le> min 10 (as_secs (now' - t))"
    if "later - t \<ge> secs 10" "now \<le> now'" "u \<le> now'" for now'
  proof (cases "h = 10")
    case True
    with sim have "u = t + secs 60" by simp
    with that True show ?thesis by (simp add: secs_def as_secs_def)
  next
    case False
    with sim have "h \<le> 9" by simp
    moreover have "9 \<le> as_secs (now' - t)" using that clk by (simp add: secs_def as_secs_def)
    ultimately show ?thesis by simp
  qed
  have block: "case lookup (block_list (flood_clean now later fc)) ip of None \<Rightarrow> u \<le> now | Some b \<Rightarrow> b = u"
    using sim clk by (auto simp: lookup_clean_block [OF ok] split: option.splits)
  have "case lookup (hit_map (flood_clean now later fc)) ip of
      None \<Rightarrow> (\<forall>now' \<ge> now. u \<le> now' \<longrightarrow> h \<le> min 10 (as_secs (now' - t)))
    | Some (h', t') \<Rightarrow> unat h' = h \<and> t' = t"
    using sim clk faded by (auto simp: lookup_clean_hit [OF ok] split: option.splits if_splits)
  with block sim show ?thesis by simp
qed

lemma flood_hit_refines:
  assumes ok: "flood_ok fc" and sim: "\<And>i. bucket_sim clk fc i (B i)"
    and clk: "clk \<le> now" "now \<le> later" "later < now + secs 1"
  shows "fst (flood_hit now later ip fc) = fst (bucket_hit now (B ip))"
    and "bucket_sim now (snd (flood_hit now later ip fc)) i ((B(ip := snd (bucket_hit now (B ip)))) i)"
proof -
  let ?c = "flood_clean now later fc"
  have c: "flood_ok ?c" by (rule flood_clean_ok [OF ok clk(2)])
  have simc: "bucket_sim now ?c j (B j)" for j
    using bucket_sim_clean [OF ok _ clk] sim by (metis surj_pair)
  obtain h t u where B: "B ip = (h, t, u)" by (metis surj_pair)
  have blocked: "flood_blocked now ip ?c = (now < u)"
    using simc [of ip] B by (auto simp: flood_blocked_def split: option.splits)
  obtain h' t' where e: "(case lookup (hit_map ?c) ip of Some e \<Rightarrow> e | None \<Rightarrow> (0, now)) = (h', t')"
    by (metis surj_pair)
  have le: "unat h' \<le> 10" using e flood_okD [OF c] by (auto split: option.splits)
  have cnt: "unat (flood_count now (h', t')) = h - min 10 (as_secs (now - t)) + 1" if "u \<le> now"
    using that e simc [of ip] B
    by (auto simp: unat_flood_count [OF le] as_secs_def split: option.splits)
  have nb: "flood_count now (h', t') \<ge> 10 \<longleftrightarrow> 10 \<le> h - min 10 (as_secs (now - t)) + 1" if "u \<le> now"
    by (simp add: word_le_nat_alt cnt [OF that])
  have bound: "unat (flood_count now (h', t')) \<le> 10" if "\<not> now < u"
  proof -
    have "flood_ok (snd (flood_hit now later ip fc))" by (rule flood_hit_ok [OF ok clk(2)])
    moreover have "lookup (hit_map (snd (flood_hit now later ip fc))) ip = Some (flood_count now (h', t'), now)"
      using that e by (simp add: flood_hit_def Let_def blocked)
    ultimately show ?thesis using flood_okD by blast
  qed
  show "fst (flood_hit now later ip fc) = fst (bucket_hit now (B ip))"
    using e nb by (simp add: flood_hit_def Let_def blocked B)
  show "bucket_sim now (snd (flood_hit now later ip fc)) i ((B(ip := snd (bucket_hit now (B ip)))) i)"
  proof (cases "now < u \<or> i \<noteq> ip")
    case True
    then show ?thesis
      using simc [of i] e B
      by (cases "B i") (auto simp: flood_hit_def Let_def blocked)
  next
    case False
    then show ?thesis
      using e cnt nb bound simc [of ip] B
      by (auto simp: flood_hit_def Let_def blocked split: option.splits)
  qed
qed

lemma flood_run_refines:
  assumes "flood_ok fc" "\<And>i. bucket_sim clk fc i (B i)" "ticks clk es"
  shows "fst (flood_run es fc) = fst (bucket_run es B)"
  using assms
proof (induction es arbitrary: fc clk B)
  case (Cons e es)
  obtain ip now later where e: "e = (ip, now, later)" by (metis surj_pair)
  from Cons.prems(3) e have clk: "clk \<le> now" "now \<le> later" "later < now + secs 1" and rest: "ticks now es"
    by auto
  let ?fc = "snd (flood_hit now later ip fc)" and ?B = "B(ip := snd (bucket_hit now (B ip)))"
  have "fst (flood_run es ?fc) = fst (bucket_run es ?B)"
    by (rule Cons.IH [OF flood_hit_ok [OF Cons.prems(1) clk(2)]
          flood_hit_refines(2) [OF Cons.prems(1,2) clk] rest])
  then show ?case
    using flood_hit_refines(1) [OF Cons.prems(1,2) clk]
    by (simp add: e split_beta Let_def)
qed simp

lemma bucket_sim_new: "bucket_sim now (flood_new now) ip empty_bucket"
  by (simp add: flood_new_def empty_bucket_def)

section \<open>What one address observes\<close>

definition times_of :: "ip_addr \<Rightarrow> (ip_addr \<times> nat \<times> nat) list \<Rightarrow> nat list" where
  "times_of ip es = map (\<lambda>e. fst (snd e)) (filter (\<lambda>e. fst e = ip) es)"

definition results_of :: "ip_addr \<Rightarrow> (ip_addr \<times> nat \<times> nat) list \<Rightarrow> bool list \<Rightarrow> bool list" where
  "results_of ip es rs = map snd (filter (\<lambda>p. fst (fst p) = ip) (zip es rs))"

fun bucket_seq :: "nat list \<Rightarrow> bucket \<Rightarrow> bool list" where
  "bucket_seq [] b = []"
| "bucket_seq (now # ts) b = (let (r, b) = bucket_hit now b in r # bucket_seq ts b)"

lemma bucket_run_independent: "results_of ip es (fst (bucket_run es B)) = bucket_seq (times_of ip es) (B ip)"
proof (induction es arbitrary: B)
  case (Cons e es)
  obtain i now later where e: "e = (i, now, later)" by (metis surj_pair)
  show ?case
    using Cons.IH [of "B(i := snd (bucket_hit now (B i)))"]
    by (cases "i = ip")
      (simp_all add: e results_of_def times_of_def split_beta Let_def fun_upd_same
        fun_upd_other del: fun_upd_apply)
qed (simp add: results_of_def times_of_def)

lemma flood_observed:
  "ticks t0 es \<Longrightarrow> results_of ip es (fst (flood_run es (flood_new t0))) = bucket_seq (times_of ip es) empty_bucket"
  using flood_run_refines [of "flood_new t0" t0 "\<lambda>_. empty_bucket" es] bucket_sim_new [of t0]
  by (simp add: bucket_run_independent flood.init_inv [of "(flood_new t0, t0)", simplified flood_init_def, simplified])

text \<open>Clients that keep a second between hits, and bursts within a second.\<close>

fun paced :: "nat \<Rightarrow> nat list \<Rightarrow> bool" where
  "paced t [] = True"
| "paced t (now # ts) = (t \<le> now \<and> paced (now + secs 1) ts)"

lemma bucket_seq_paced:
  "h \<le> 1 \<Longrightarrow> u \<le> t \<Longrightarrow> (h = 1 \<Longrightarrow> l + secs 1 \<le> t) \<Longrightarrow> paced t ts \<Longrightarrow> set (bucket_seq ts (h, l, u)) \<subseteq> {False}"
proof (induction ts arbitrary: h l u t)
  case (Cons now ts)
  from Cons.prems have "h - min 10 (as_secs (now - l)) = 0"
    by (cases "h = 1") (auto simp: secs_def as_secs_def)
  then have "bucket_hit now (h, l, u) = (False, (1, now, u))" using Cons.prems by simp
  moreover have "set (bucket_seq ts (1, now, u)) \<subseteq> {False}"
    using Cons.prems by (intro Cons.IH [of 1 u "now + secs 1"]) auto
  ultimately show ?case by simp
qed simp

lemma bucket_seq_blocked: "(\<And>now. now \<in> set ts \<Longrightarrow> now < u) \<Longrightarrow> bucket_seq ts (h, l, u) = replicate (length ts) True"
  by (induction ts) auto

lemma bucket_seq_burst:
  assumes "h < 10" "\<And>now. now \<in> set ts \<Longrightarrow> now < t0 + secs 1 \<and> u \<le> now" "h = 0 \<or> t0 \<le> l"
    "sorted (l # ts)" "\<And>now. now \<in> set ts \<Longrightarrow> t0 \<le> now"
  shows "bucket_seq ts (h, l, u) = map (\<lambda>k. 9 \<le> k) [h..<h + length ts]"
  using assms
proof (induction ts arbitrary: h l)
  case (Cons now ts)
  from Cons.prems(2) [of now] Cons.prems(3) have "h = 0 \<or> as_secs (now - l) = 0"
    by (auto simp: secs_def as_secs_def)
  then have h: "h - min 10 (as_secs (now - l)) + 1 = Suc h" by auto
  from Cons.prems(2) [of now] have u: "\<not> now < u" by simp
  have range: "[h..<h + length (now # ts)] = h # [Suc h..<Suc h + length ts]"
    by (simp add: upt_conv_Cons del: upt_Suc)
  show ?case
  proof (cases "h = 9")
    case True
    have "bucket_seq ts (10, now, now + secs 60) = replicate (length ts) True"
      using Cons.prems by (intro bucket_seq_blocked) (force simp: secs_def)
    moreover have "bucket_hit now (h, l, u) = (True, (10, now, now + secs 60))"
      using True h u by (simp only: bucket_hit.simps Let_def if_False) simp
    ultimately have "bucket_seq (now # ts) (h, l, u) = True # replicate (length ts) True"
      by (simp only: bucket_seq.simps Let_def prod.case)
    moreover have "map (\<lambda>k. 9 \<le> k) [Suc h..<Suc h + length ts] = replicate (length ts) True"
      using True by (intro replicate_eqI) auto
    then have "map (\<lambda>k. 9 \<le> k) [h..<h + length (now # ts)] = True # replicate (length ts) True"
      unfolding range list.map using True by simp
    ultimately show ?thesis by simp
  next
    case False
    with Cons.prems(1) have "Suc h < 10" by simp
    then have "bucket_seq ts (Suc h, now, u) = map (\<lambda>k. 9 \<le> k) [Suc h..<Suc h + length ts]"
      using Cons.prems by (intro Cons.IH) auto
    then show ?thesis using \<open>Suc h < 10\<close> h u range by simp
  qed
qed simp

text \<open>A block holds whatever other addresses do.\<close>

lemma flood_hit_keeps_block:
  assumes "flood_ok fc" "lookup (block_list fc) ip = Some b" "n < b"
  shows "lookup (block_list (snd (flood_hit n l i fc))) ip = Some b"
    and "i = ip \<Longrightarrow> fst (flood_hit n l i fc)"
proof -
  have c: "lookup (block_list (flood_clean n l fc)) ip = Some b"
    using assms by (simp add: lookup_clean_block)
  with assms(3) have "i = ip \<Longrightarrow> flood_blocked n i (flood_clean n l fc)"
    by (simp add: flood_blocked_def)
  with c show "lookup (block_list (snd (flood_hit n l i fc))) ip = Some b"
    and "i = ip \<Longrightarrow> fst (flood_hit n l i fc)"
    by (auto simp: flood_hit_def Let_def)
qed

lemma flood_run_blocked:
  assumes "flood_ok fc" "lookup (block_list fc) ip = Some b"
    "\<And>i n l. (i, n, l) \<in> set es \<Longrightarrow> n \<le> l \<and> n < b"
  shows "set (results_of ip es (fst (flood_run es fc))) \<subseteq> {True}"
  using assms
proof (induction es arbitrary: fc)
  case (Cons e es)
  obtain i n l where e: "e = (i, n, l)" by (metis surj_pair)
  with Cons.prems(3) have nl: "n \<le> l" "n < b" by auto
  let ?fc = "snd (flood_hit n l i fc)"
  have "set (results_of ip es (fst (flood_run es ?fc))) \<subseteq> {True}"
    using Cons.prems nl by (intro Cons.IH flood_hit_ok flood_hit_keeps_block) auto
  moreover have "i = ip \<Longrightarrow> fst (flood_hit n l i fc)"
    using Cons.prems nl by (intro flood_hit_keeps_block) auto
  ultimately show ?case by (auto simp: e results_of_def split_beta Let_def)
qed (simp add: results_of_def)

section \<open>Properties\<close>

text \<open>
  C4.  Refinement: whatever hits arrive from whatever addresses, the answers given to one address
  are exactly those of its own leaky bucket.  Neither the traffic of other addresses nor the
  periodic cleaning of the two maps can be observed.
\<close>

theorem flood_control_refines_bucket:
  assumes "ticks t0 es"
  shows "results_of ip es (fst (flood_run es (flood_new t0))) = bucket_seq (times_of ip es) empty_bucket"
  using assms by (rule flood_observed)

definition sample_hits :: "(ip_addr \<times> nat \<times> nat) list" where
  "sample_hits = [(V4 1, 5, 6), (V4 2, 7, 8), (V4 1, secs 20, secs 20 + 3), (V6 9, secs 20 + 4, secs 20 + 4)]"

theorem flood_control_refines_bucket_witness:
  "ticks 0 sample_hits \<and>
   results_of (V4 1) sample_hits (fst (flood_run sample_hits (flood_new 0))) = [False, False]"
proof -
  have t: "ticks 0 sample_hits" by (simp add: sample_hits_def secs_def)
  have "bucket_seq (times_of (V4 1) sample_hits) empty_bucket = [False, False]"
    by (simp add: sample_hits_def times_of_def empty_bucket_def as_secs_def secs_def)
  with flood_control_refines_bucket [OF t, of "V4 1"] t show ?thesis by simp
qed

text \<open>
  Once an address that was not blocked gets refused, every hit of that address in the next 60
  seconds is refused, whatever else happens to the limiter.
\<close>

theorem flood_block_lasts:
  assumes "flood_ok fc" and "now \<le> later"
    and "\<not> flood_blocked now ip fc" and "fst (flood_hit now later ip fc)"
    and "\<And>i n l. (i, n, l) \<in> set es \<Longrightarrow> n \<le> l \<and> n < now + secs 60"
  shows "set (results_of ip es (fst (flood_run es (snd (flood_hit now later ip fc))))) \<subseteq> {True}"
proof -
  have "\<not> flood_blocked now ip (flood_clean now later fc)"
    using assms(3) by (auto simp: flood_blocked_def lookup_clean_block [OF assms(1)] split: option.splits)
  with assms(4) have "lookup (block_list (snd (flood_hit now later ip fc))) ip = Some (now + secs 60)"
    by (auto simp: flood_hit_def Let_def split: if_splits)
  then show ?thesis
    using assms(5) by (intro flood_run_blocked [OF flood_hit_ok [OF assms(1,2)]])
qed

definition near_limit :: flood_control where
  "near_limit = \<lparr>last_clean = 0, hit_map = [(V4 7, 9, 100)], block_list = []\<rparr>"

theorem flood_block_lasts_witness:
  "fst (flood_hit 200 200 (V4 7) near_limit) \<and>
   set (results_of (V4 7) [(V4 8, 300, 300), (V4 7, secs 59, secs 59)]
     (fst (flood_run [(V4 8, 300, 300), (V4 7, secs 59, secs 59)] (snd (flood_hit 200 200 (V4 7) near_limit))))) \<subseteq> {True}"
proof -
  have ok: "flood_ok near_limit" by (auto simp: near_limit_def flood_ok_def wf_map_def split: if_splits)
  have nb: "\<not> flood_blocked 200 (V4 7) near_limit" by (simp add: near_limit_def flood_blocked_def)
  have r: "fst (flood_hit 200 200 (V4 7) near_limit)"
    by (simp add: near_limit_def flood_hit_def flood_clean_def flood_blocked_def flood_count_def
        saturating_sub_def as_secs_def secs_def)
  have es: "n \<le> l \<and> n < 200 + secs 60" if "(i, n, l) \<in> set [(V4 8, 300, 300), (V4 7, secs 59, secs 59)]" for i n l
    using that by (auto simp: secs_def)
  have "set (results_of (V4 7) [(V4 8, 300, 300), (V4 7, secs 59, secs 59)]
      (fst (flood_run [(V4 8, 300, 300), (V4 7, secs 59, secs 59)] (snd (flood_hit 200 200 (V4 7) near_limit))))) \<subseteq> {True}"
    by (rule flood_block_lasts [OF ok order.refl nb r es])
  with r show ?thesis by blast
qed

text \<open>
  A burst from a new address: of the hits that fall within one second exactly the first nine
  are let through, and the tenth and all later ones are refused, interleaved with any other traffic.
\<close>

theorem flood_burst_refused:
  assumes "ticks t0 es" and "sorted (times_of ip es)"
    and "\<And>t. t \<in> set (times_of ip es) \<Longrightarrow> t1 \<le> t \<and> t < t1 + secs 1"
  shows "results_of ip es (fst (flood_run es (flood_new t0))) =
    map (\<lambda>k. 9 \<le> k) [0..<length (times_of ip es)]"
  using bucket_seq_burst [of 0 "times_of ip es" t1 0 0] assms
  by (simp add: flood_observed empty_bucket_def)

lemma ticks_replicate:
  "c \<le> now \<Longrightarrow> now \<le> later \<Longrightarrow> later < now + secs 1 \<Longrightarrow> ticks c (replicate n (ip, now, later))"
  by (induction n arbitrary: c) auto

theorem flood_burst_refused_witness:
  "results_of (V4 1) (replicate 11 (V4 1, 50, 60)) (fst (flood_run (replicate 11 (V4 1, 50, 60)) (flood_new 0))) =
     replicate 9 False @ [True, True]"
proof -
  have t: "ticks 0 (replicate 11 (V4 1, 50, 60))" by (rule ticks_replicate) (simp_all add: secs_def)
  have times: "times_of (V4 1) (replicate 11 (V4 1, 50, 60)) = replicate 11 50"
    by (simp add: times_of_def)
  have "map (\<lambda>k. 9 \<le> k) [0..<11 :: nat] = replicate 9 False @ [True, True]" by code_simp
  with flood_burst_refused [OF t, of "V4 1" 50] times show ?thesis
    by (simp add: secs_def sorted_replicate)
qed

text \<open>
  A client that waits at least a second between its own hits is never refused, however many
  other clients there are.
\<close>

theorem flood_paced_client_served:
  assumes "ticks t0 es" and "paced 0 (times_of ip es)"
  shows "set (results_of ip es (fst (flood_run es (flood_new t0)))) \<subseteq> {False}"
  using bucket_seq_paced [of 0 0 0 0 "times_of ip es"] assms
  by (simp add: flood_observed empty_bucket_def)

theorem flood_paced_client_served_witness:
  "paced 0 (times_of (V4 1) sample_hits) \<and>
   set (results_of (V4 1) sample_hits (fst (flood_run sample_hits (flood_new 0)))) \<subseteq> {False}"
proof -
  have t: "ticks 0 sample_hits" and p: "paced 0 (times_of (V4 1) sample_hits)"
    by (simp_all add: sample_hits_def times_of_def secs_def)
  show ?thesis using p flood_paced_client_served [OF t p] by blast
qed

text \<open>
  In every reachable state of the limiter every hit counter is at most ten, so the 8-bit
  addition in \<^verbatim>\<open>hit\<close> never overflows.
\<close>

theorem flood_counter_bounded:
  assumes "reach flood_init flood_step s" and "lookup (hit_map (fst s)) ip = Some (h, t)"
  shows "unat h \<le> 10 \<and> unat (h + 1) = unat h + 1"
proof -
  from flood.reach_inv [OF assms(1)] assms(2) have "unat h \<le> 10" by (auto dest: flood_okD)
  then show ?thesis by (simp add: unat_word_ariths)
qed

theorem flood_counter_bounded_witness:
  "\<exists>s. reach flood_init flood_step s \<and> lookup (hit_map (fst s)) (V4 3) = Some (1, 40) \<and>
     unat (1 :: u8) \<le> 10 \<and> unat ((1 :: u8) + 1) = unat (1 :: u8) + 1"
proof -
  let ?s = "(snd (flood_hit 40 41 (V4 3) (flood_new 0)), 41)"
  have r: "reach flood_init flood_step ?s"
  proof (rule reach_step)
    show "reach flood_init flood_step (flood_new 0, 0)"
      by (rule reach_init) (simp add: flood_init_def)
    show "flood_step (flood_new 0, 0) ?s" by (rule flood_step.hit) simp_all
  qed
  have l: "lookup (hit_map (fst ?s)) (V4 3) = Some (1, 40)"
    by (simp add: flood_hit_def flood_clean_def flood_new_def flood_blocked_def flood_count_def
        saturating_sub_def as_secs_def secs_def Let_def)
  show ?thesis using r l flood_counter_bounded [OF r l] by blast
qed

end
