(* ===== verification/Hex.thy ===== *)
theory Hex
  imports Prelude
begin

text \<open>
  The interface of the crate \<^verbatim>\<open>const_hex\<close> and of the SHA-1 digest of \<^verbatim>\<open>aws_lc_rs\<close>, which
  are not part of the repository.  The model takes them as parameters: \<open>enc\<close> for
  \<^verbatim>\<open>const_hex::encode\<close>, \<open>dec\<close> for \<^verbatim>\<open>const_hex::decode_to_array\<close> at 20 bytes and \<open>sha1\<close>
  for \<^verbatim>\<open>digest::digest(&SHA1_FOR_LEGACY_USE_ONLY, _)\<close>.  The locale \<open>hex_codec\<close> states what
  the client relies on; the definitions at the end are a complete hexadecimal codec that
  satisfies it, which the witnesses use.
\<close>

definition hex_chars :: string where
  "hex_chars = ''0123456789abcdef''"

locale hex_codec =
  fixes enc :: "bytes \<Rightarrow> string"
    and dec :: "string \<Rightarrow> bytes option"
  assumes dec_enc: "length h = 20 \<Longrightarrow> dec (enc h) = Some h"
    and dec_length: "dec s = Some h \<Longrightarrow> length h = 20"
    and enc_append: "enc (as @ bs) = enc as @ enc bs"
    and enc_byte_length: "length (enc [b]) = 2"
    and enc_byte_chars: "set (enc [b]) \<subseteq> set hex_chars"
begin

lemma enc_Nil: "enc [] = []"
  using enc_append [of "[]" "[]"] by simp

lemma enc_length: "length (enc h) = 2 * length h"
proof (induction h)
  case (Cons b h)
  then show ?case using enc_append [of "[b]" h] enc_byte_length [of b] by simp
qed (simp add: enc_Nil)

lemma enc_chars: "set (enc h) \<subseteq> set hex_chars"
proof (induction h)
  case (Cons b h)
  then show ?case using enc_append [of "[b]" h] enc_byte_chars [of b] by auto
qed (simp add: enc_Nil)

lemma enc_no_sep: "c \<notin> set hex_chars \<Longrightarrow> c \<notin> set (enc h)"
  using enc_chars by blast

lemma enc_take: "take (2 * n) (enc h) = enc (take n h)"
proof (cases "n \<le> length h")
  case True
  have "enc h = enc (take n h) @ enc (drop n h)"
    by (metis append_take_drop_id enc_append)
  with True show ?thesis by (simp add: enc_length)
next
  case False
  then show ?thesis by (simp add: enc_length)
qed

lemma enc_drop: "drop (2 * n) (enc h) = enc (drop n h)"
proof (cases "n \<le> length h")
  case True
  have "enc h = enc (take n h) @ enc (drop n h)"
    by (metis append_take_drop_id enc_append)
  with True show ?thesis by (simp add: enc_length)
next
  case False
  then show ?thesis by (simp add: enc_length enc_Nil)
qed

lemma enc_inj: "length h = 20 \<Longrightarrow> length h' = 20 \<Longrightarrow> enc h = enc h' \<longleftrightarrow> h = h'"
  by (metis dec_enc option.inject)

end

section \<open>util.rs: string_to_hash\<close>

definition as_bytes :: "string \<Rightarrow> bytes" where
  "as_bytes s = map (\<lambda>c. word_of_nat (of_char c)) s"

definition string_to_hash :: "(bytes \<Rightarrow> bytes) \<Rightarrow> (bytes \<Rightarrow> string) \<Rightarrow> string \<Rightarrow> string" where
  "string_to_hash sha1 enc str = enc (sha1 (as_bytes str))"

section \<open>A hexadecimal codec\<close>

definition hex_digit :: "nat \<Rightarrow> char" where
  "hex_digit d = (if d < 10 then char_of (48 + d) else char_of (87 + d))"

lemma hex_digit_01: "hex_digit 0 = CHR ''0''" "hex_digit 1 = CHR ''1''"
  by code_simp+

definition hex_val :: "char \<Rightarrow> nat option" where
  "hex_val c = (let n = of_char c in
     if 48 \<le> n \<and> n \<le> 57 then Some (n - 48)
     else if 97 \<le> n \<and> n \<le> 102 then Some (n - 87)
     else if 65 \<le> n \<and> n \<le> 70 then Some (n - 55) else None)"

fun hex_encode :: "bytes \<Rightarrow> string" where
  "hex_encode [] = []"
| "hex_encode (b # bs) = hex_digit (unat b div 16) # hex_digit (unat b mod 16) # hex_encode bs"

fun hex_decode :: "string \<Rightarrow> bytes option" where
  "hex_decode [] = Some []"
| "hex_decode [c] = None"
| "hex_decode (c # d # cs) =
     (case (hex_val c, hex_val d, hex_decode cs) of
        (Some a, Some b, Some bs) \<Rightarrow> Some (word_of_nat (16 * a + b) # bs)
      | _ \<Rightarrow> None)"

definition hex_decode_to_array :: "string \<Rightarrow> bytes option" where
  "hex_decode_to_array s =
     (let t = (if starts_with s ''0x'' then drop 2 s else s)
      in if length t = 40 then hex_decode t else None)"

lemma hex_val_digit: "d < 16 \<Longrightarrow> hex_val (hex_digit d) = Some d"
  by (auto simp: hex_val_def hex_digit_def)

lemma hex_digit_chars: "d < 16 \<Longrightarrow> hex_digit d \<in> set hex_chars"
proof -
  have "list_all (\<lambda>d. hex_digit d \<in> set hex_chars) [0..<16]" by code_simp
  moreover assume "d < 16"
  ultimately show ?thesis by (simp add: list_all_iff)
qed

lemma unat_u8_less: "unat (b :: u8) < 256"
  using unsigned_less [of b] by simp

lemma hex_decode_encode: "hex_decode (hex_encode bs) = Some bs"
proof (induction bs)
  case (Cons b bs)
  have "unat b div 16 < 16" "unat b mod 16 < 16" using unat_u8_less [of b] by auto
  with Cons show ?case by (simp add: hex_val_digit)
qed simp

lemma hex_decode_length: "hex_decode s = Some bs \<Longrightarrow> length s = 2 * length bs"
  by (induction s arbitrary: bs rule: hex_decode.induct) (auto split: option.splits)

lemma hex_encode_length: "length (hex_encode bs) = 2 * length bs"
  by (induction bs) auto

lemma hex_encode_append: "hex_encode (a @ b) = hex_encode a @ hex_encode b"
  by (induction a) auto

lemma hex_encode_no_0x: "\<not> starts_with (hex_encode bs) ''0x''"
proof (cases bs)
  case (Cons b cs)
  have "unat b mod 16 < 16" by simp
  then have "hex_digit (unat b mod 16) \<noteq> CHR ''x''"
    using hex_val_digit [of "unat b mod 16"] by (auto simp: hex_val_def)
  with Cons show ?thesis by simp
qed simp

interpretation hx: hex_codec hex_encode hex_decode_to_array
proof unfold_locales
  fix h :: bytes
  assume "length h = 20"
  then show "hex_decode_to_array (hex_encode h) = Some h"
    by (simp add: hex_decode_to_array_def hex_encode_no_0x hex_encode_length hex_decode_encode)
next
  fix s h
  assume "hex_decode_to_array s = Some h"
  then show "length h = 20"
    by (auto simp: hex_decode_to_array_def Let_def split: if_splits dest!: hex_decode_length)
next
  fix b :: u8
  show "set (hex_encode [b]) \<subseteq> set hex_chars"
    using unat_u8_less [of b] by (simp add: hex_digit_chars)
qed (simp_all add: hex_encode_append)

section \<open>The external functions as one parameter\<close>

record extern =
  x_enc :: "bytes \<Rightarrow> string"
  x_dec :: "string \<Rightarrow> bytes option"
  x_sha1 :: "bytes \<Rightarrow> bytes"

text \<open>What the client relies on: the codec laws, and that a SHA-1 digest has 20 bytes.\<close>

locale external =
  hex_codec "x_enc X" "x_dec X"
  for X :: extern +
  assumes sha1_length: "length (x_sha1 X b) = 20"

definition str_hash :: "extern \<Rightarrow> string \<Rightarrow> string" where
  "str_hash X s = string_to_hash (x_sha1 X) (x_enc X) s"

context external
begin

lemma str_hash_length: "length (str_hash X s) = 40"
  by (simp add: str_hash_def string_to_hash_def enc_length sha1_length)

end

text \<open>An instance for concrete evaluations: the codec above and, in place of SHA-1, the 20-byte
  big-endian value of a polynomial checksum.\<close>

definition checksum :: "bytes \<Rightarrow> bytes" where
  "checksum bs = replicate 16 0 @
     (let n = fold (\<lambda>b n. (n * 257 + unat b + 1) mod 4294967291) bs 0
      in map word_of_nat [n div 16777216 mod 256, n div 65536 mod 256, n div 256 mod 256, n mod 256])"

definition sample_ext :: extern where
  "sample_ext = \<lparr>x_enc = hex_encode, x_dec = hex_decode_to_array, x_sha1 = checksum\<rparr>"

lemma sample_ext_simps [simp]:
  "x_enc sample_ext = hex_encode" "x_dec sample_ext = hex_decode_to_array" "x_sha1 sample_ext = checksum"
  by (simp_all add: sample_ext_def)

interpretation sx: external sample_ext
proof unfold_locales
  show "set (x_enc sample_ext [b]) \<subseteq> set hex_chars" for b
    using hx.enc_byte_chars by (simp del: hex_encode.simps)
qed (auto simp: hx.dec_enc hx.dec_length hx.enc_append hx.enc_byte_length checksum_def Let_def
    simp del: hex_encode.simps)

end
