(* ===== verification/CacheFile.thy ===== *)
theory CacheFile
  imports Hex
begin

text \<open>
  \<^verbatim>\<open>src/cache_manager.rs\<close>, the file identities: \<^verbatim>\<open>FileType\<close> and \<^verbatim>\<open>CacheFileInfo\<close> with
  \<^verbatim>\<open>from_file_id\<close>, \<^verbatim>\<open>to_path\<close> and \<^verbatim>\<open>static_range\<close>.  Shown here: the name a file is stored
  under parses back to the same identity, identities are stored under different paths, and the
  directory of a file is the directory of its static range.
\<close>

section \<open>FileType\<close>

datatype file_type = Jpeg | Png | Gif | Mp4 | Webm | Webp | Avif | Jpegxl | Other string

text \<open>A \<^verbatim>\<open>Mime\<close> is represented by its text.\<close>

fun to_mime :: "file_type \<Rightarrow> string" where
  "to_mime Jpeg = ''image/jpeg''"
| "to_mime Png = ''image/png''"
| "to_mime Gif = ''image/gif''"
| "to_mime Mp4 = ''video/mp4''"
| "to_mime Webm = ''video/webm''"
| "to_mime Webp = ''image/webp''"
| "to_mime Avif = ''image/avif''"
| "to_mime Jpegxl = ''image/jxl''"
| "to_mime (Other s) = ''application/octet-stream''"

fun file_type_as_str :: "file_type \<Rightarrow> string" where
  "file_type_as_str Jpeg = ''jpg''"
| "file_type_as_str Png = ''png''"
| "file_type_as_str Gif = ''gif''"
| "file_type_as_str Mp4 = ''mp4''"
| "file_type_as_str Webm = ''wbm''"
| "file_type_as_str Webp = ''wbp''"
| "file_type_as_str Avif = ''avf''"
| "file_type_as_str Jpegxl = ''jxl''"
| "file_type_as_str (Other s) = s"

definition file_type_from :: "string \<Rightarrow> file_type" where
  "file_type_from s =
     (if s = ''jpg'' then Jpeg
      else if s = ''png'' then Png
      else if s = ''gif'' then Gif
      else if s = ''mp4'' then Mp4
      else if s = ''wbm'' then Webm
      else if s = ''wbp'' then Webp
      else if s = ''avf'' then Avif
      else if s = ''jxl'' then Jpegxl
      else Other s)"

lemma file_type_as_str_from [simp]: "file_type_as_str (file_type_from s) = s"
  by (simp add: file_type_from_def)

text \<open>The values \<^verbatim>\<open>From<&str>\<close> produces: \<^const>\<open>Other\<close> never hides a known extension.\<close>

definition proper_type :: "file_type \<Rightarrow> bool" where
  "proper_type t \<longleftrightarrow> file_type_from (file_type_as_str t) = t"

lemma proper_type_from [simp]: "proper_type (file_type_from s)"
  by (simp add: proper_type_def)

section \<open>CacheFileInfo\<close>

record cache_file_info =
  fi_hash :: bytes
  fi_size :: u32
  fi_xres :: u32
  fi_yres :: u32
  fi_mime_type :: file_type

text \<open>\<^verbatim>\<open>Iterator::next\<close> on the pieces of a split.\<close>

fun next_part :: "string list \<Rightarrow> (string \<times> string list) option" where
  "next_part [] = None"
| "next_part (p # ps) = Some (p, ps)"

definition next_u32 :: "string list \<Rightarrow> (u32 \<times> string list) option" where
  "next_u32 ps = do { (p, ps') \<leftarrow> next_part ps; n \<leftarrow> parse_u32 p; Some (n, ps') }"

definition from_file_id :: "(string \<Rightarrow> bytes option) \<Rightarrow> string \<Rightarrow> cache_file_info option" where
  "from_file_id dec file_id = do {
     let part = split_on (CHR ''-'') file_id;
     let none_res = (length part = 3);
     (p, part) \<leftarrow> next_part part;
     h \<leftarrow> dec p;
     (s, part) \<leftarrow> next_u32 part;
     (x, part) \<leftarrow> (if none_res then Some (0, part) else next_u32 part);
     (y, part) \<leftarrow> (if none_res then Some (0, part) else next_u32 part);
     (m, part) \<leftarrow> next_part part;
     Some \<lparr>fi_hash = h, fi_size = s, fi_xres = x, fi_yres = y, fi_mime_type = file_type_from m\<rparr>
   }"

text \<open>The file name of \<^verbatim>\<open>to_path\<close>.\<close>

definition file_name :: "(bytes \<Rightarrow> string) \<Rightarrow> cache_file_info \<Rightarrow> string" where
  "file_name enc info =
     (if fi_xres info > 0
      then enc (fi_hash info) @ ''-'' @ show_nat (unat (fi_size info)) @ ''-'' @
           show_nat (unat (fi_xres info)) @ ''-'' @ show_nat (unat (fi_yres info)) @ ''-'' @
           file_type_as_str (fi_mime_type info)
      else enc (fi_hash info) @ ''-'' @ show_nat (unat (fi_size info)) @ ''-'' @
           file_type_as_str (fi_mime_type info))"

text \<open>\<^verbatim>\<open>PathBuf::push\<close> on Unix: an absolute path replaces, otherwise a separator is added when
  needed.\<close>

definition push_path :: "path \<Rightarrow> string \<Rightarrow> path" where
  "push_path base p =
     (if starts_with p ''/'' then p
      else if base = [] \<or> last base = CHR ''/'' then base @ p
      else base @ ''/'' @ p)"

definition to_path :: "(bytes \<Rightarrow> string) \<Rightarrow> cache_file_info \<Rightarrow> path \<Rightarrow> path" where
  "to_path enc info cache_dir =
     (let h = enc (fi_hash info)
      in push_path (push_path (push_path (push_path [] cache_dir) (take 2 h)) (take 2 (drop 2 h)))
           (file_name enc info))"

definition static_range :: "(bytes \<Rightarrow> string) \<Rightarrow> cache_file_info \<Rightarrow> string" where
  "static_range enc info = enc (take 2 (fi_hash info))"

text \<open>The directory \<^verbatim>\<open>check_cache_usage\<close> visits for a static range.\<close>

definition range_dir :: "path \<Rightarrow> string \<Rightarrow> path" where
  "range_dir cache_dir sr = push_path (push_path cache_dir (take 2 sr)) (take 2 (drop 2 sr))"

section \<open>Well-formed identities\<close>

definition wf_info :: "cache_file_info \<Rightarrow> bool" where
  "wf_info info \<longleftrightarrow>
     length (fi_hash info) = 20 \<and> proper_type (fi_mime_type info) \<and>
     CHR ''-'' \<notin> set (file_type_as_str (fi_mime_type info))"

text \<open>\<^verbatim>\<open>to_path\<close> drops a height without a width, so the identity stored on disk has none.\<close>

definition stored_info :: "cache_file_info \<Rightarrow> cache_file_info" where
  "stored_info info = (if fi_xres info = 0 then info\<lparr>fi_yres := 0\<rparr> else info)"

lemma next_u32_Some_iff:
  "next_u32 ps = Some (n, qs) \<longleftrightarrow> (\<exists>p. ps = p # qs \<and> parse_u32 p = Some n)"
  by (cases ps) (auto simp: next_u32_def split: Option.bind_splits)

lemma next_u32_show [simp]: "next_u32 (show_nat (unat n) # ps) = Some (n, ps)"
  by (simp add: next_u32_Some_iff dec_simps)

lemma next_part_Some_iff: "next_part ps = Some (p, qs) \<longleftrightarrow> ps = p # qs"
  by (cases ps) auto

lemma dash_not_hex: "CHR ''-'' \<notin> set hex_chars"
  by (simp add: hex_chars_def)

lemma dash_not_digit [simp]: "CHR ''-'' \<notin> set (show_nat n)"
  by (rule digits_no_sep) (simp add: is_digit_def digit_val_def)

lemma slash_not_digit [simp]: "CHR ''/'' \<notin> set (show_nat n)"
  by (rule digits_no_sep) (simp add: is_digit_def digit_val_def)

lemma from_file_id_Nil [simp]: "from_file_id dec [] = None"
  by (auto simp: from_file_id_def next_u32_def bind_eq_None_conv)

text \<open>A parsed identity: where its hash and its type come from.\<close>

lemma from_file_id_parts:
  assumes "from_file_id dec file_id = Some info"
  shows "\<exists>p m. m \<in> set (split_on (CHR ''-'') file_id) \<and> dec p = Some (fi_hash info) \<and>
    fi_mime_type info = file_type_from m"
proof -
  from assms obtain p m ps x y s where
    "m \<in> set (split_on (CHR ''-'') file_id)" "dec p = Some (fi_hash info)"
    and "info = \<lparr>fi_hash = fi_hash info, fi_size = s, fi_xres = x, fi_yres = y, fi_mime_type = file_type_from m\<rparr>"
    unfolding from_file_id_def Let_def
    by (force simp: next_part_Some_iff next_u32_Some_iff bind_eq_Some_conv split: if_splits)
  then show ?thesis by (metis cache_file_info.select_convs(5))
qed

context hex_codec
begin

lemma split_file_name:
  assumes "wf_info info"
  shows "split_on (CHR ''-'') (file_name enc info) =
    (if fi_xres info > 0
     then [enc (fi_hash info), show_nat (unat (fi_size info)), show_nat (unat (fi_xres info)),
           show_nat (unat (fi_yres info)), file_type_as_str (fi_mime_type info)]
     else [enc (fi_hash info), show_nat (unat (fi_size info)),
           file_type_as_str (fi_mime_type info)])"
  using assms enc_no_sep [OF dash_not_hex]
  by (simp add: file_name_def wf_info_def str_simps)

lemma file_name_roundtrip:
  assumes "wf_info info"
  shows "from_file_id dec (file_name enc info) = Some (stored_info info)"
  using assms dec_enc [of "fi_hash info"]
  by (simp add: from_file_id_def split_file_name stored_info_def wf_info_def proper_type_def
      word_neq_0_conv [symmetric])

lemma from_file_id_wf:
  assumes "from_file_id dec file_id = Some info"
  shows "wf_info info"
proof -
  from from_file_id_parts [OF assms] obtain p m
    where m: "m \<in> set (split_on (CHR ''-'') file_id)" "fi_mime_type info = file_type_from m"
      and p: "dec p = Some (fi_hash info)" by blast
  with dec_length [OF p] split_on_parts_no_sep [OF m(1)] show ?thesis
    by (simp add: wf_info_def)
qed

lemma file_name_inj:
  assumes "wf_info a" "wf_info b" "file_name enc a = file_name enc b"
  shows "stored_info a = stored_info b"
  using assms file_name_roundtrip by (metis option.inject)

lemma hd_enc_not_slash:
  assumes "h \<noteq> []"
  shows "\<not> starts_with (enc h @ t) ''/''"
proof -
  from assms have "enc h \<noteq> []" using enc_length [of h] by auto
  then obtain c cs where c: "enc h = c # cs" by (cases "enc h") auto
  then have "c \<in> set hex_chars" using enc_chars [of h] by auto
  then have "c \<noteq> CHR ''/''" by (auto simp: hex_chars_def)
  with c show ?thesis by simp
qed

lemma file_name_not_absolute: "wf_info info \<Longrightarrow> \<not> starts_with (file_name enc info) ''/''"
proof -
  assume "wf_info info"
  then have "fi_hash info \<noteq> []" by (auto simp: wf_info_def)
  from hd_enc_not_slash [OF this] show ?thesis by (simp add: file_name_def)
qed

lemma push_hex:
  assumes "h \<noteq> []"
  shows "push_path base (enc h) =
    (if base = [] \<or> last base = CHR ''/'' then base @ enc h else base @ ''/'' @ enc h)"
  using hd_enc_not_slash [OF assms, of "[]"] by (simp add: push_path_def)

lemma last_push_hex:
  assumes "h \<noteq> []"
  shows "push_path base (enc h) \<noteq> [] \<and> last (push_path base (enc h)) \<noteq> CHR ''/''"
proof -
  from assms have "enc h \<noteq> []" using enc_length [of h] by auto
  then have "last (enc h) \<in> set hex_chars" using enc_chars [of h] by auto
  then have "last (enc h) \<noteq> CHR ''/''" by (auto simp: hex_chars_def)
  with \<open>enc h \<noteq> []\<close> show ?thesis by (simp add: push_hex [OF assms])
qed

lemma range_dir_static_range:
  assumes "length (fi_hash info) = 20"
  shows "range_dir cache_dir (static_range enc info) =
    push_path (push_path cache_dir (enc (take 1 (fi_hash info)))) (enc (take 1 (drop 1 (fi_hash info))))"
proof -
  let ?h = "fi_hash info"
  have "take 2 (enc (take 2 ?h)) = enc (take 1 ?h)"
    using enc_take [of 1 "take 2 ?h"] by simp
  moreover have "take 2 (drop 2 (enc (take 2 ?h))) = enc (take 1 (drop 1 ?h))"
    using enc_drop [of 1 "take 2 ?h"] enc_take [of 1 "drop 1 (take 2 ?h)"] by (simp add: drop_take)
  ultimately show ?thesis by (simp add: range_dir_def static_range_def)
qed

lemma to_path_dir:
  assumes "wf_info info"
  shows "to_path enc info cache_dir =
    range_dir cache_dir (static_range enc info) @ ''/'' @ file_name enc info"
proof -
  let ?h = "fi_hash info"
  from assms have len: "length ?h = 20" by (simp add: wf_info_def)
  have "take 2 (enc ?h) = enc (take 1 ?h)" using enc_take [of 1 ?h] by simp
  moreover have "take 2 (drop 2 (enc ?h)) = enc (take 1 (drop 1 ?h))"
    using enc_drop [of 1 ?h] enc_take [of 1 "drop 1 ?h"] by simp
  moreover have "push_path [] cache_dir = cache_dir" by (simp add: push_path_def)
  ultimately have p: "to_path enc info cache_dir =
      push_path (range_dir cache_dir (static_range enc info)) (file_name enc info)"
    by (simp add: to_path_def range_dir_static_range [OF len])
  have "take 1 (drop 1 ?h) \<noteq> []" using len by simp
  from last_push_hex [OF this] show ?thesis
    using file_name_not_absolute [OF assms]
    by (simp add: p push_path_def [of _ "file_name enc info"] range_dir_static_range [OF len])
qed

lemma range_dir_length:
  assumes "length (fi_hash a) = 20" "length (fi_hash b) = 20"
  shows "length (range_dir cache_dir (static_range enc a)) =
    length (range_dir cache_dir (static_range enc b))"
proof -
  have ne: "take 1 (fi_hash a) \<noteq> []" "take 1 (fi_hash b) \<noteq> []"
    "take 1 (drop 1 (fi_hash a)) \<noteq> []" "take 1 (drop 1 (fi_hash b)) \<noteq> []"
    using assms by auto
  have "length (push_path base (enc x)) = length (push_path base' (enc y))"
    if "x \<noteq> []" "y \<noteq> []" "length x = length y" "length base = length base'"
      "(base = [] \<or> last base = CHR ''/'') = (base' = [] \<or> last base' = CHR ''/'')"
    for base base' x y
    using that by (simp add: push_hex enc_length)
  with ne last_push_hex show ?thesis
    by (simp add: range_dir_static_range assms del: One_nat_def)
qed

lemma to_path_inj:
  assumes "wf_info a" "wf_info b" "to_path enc a cache_dir = to_path enc b cache_dir"
  shows "stored_info a = stored_info b"
proof -
  from assms(1,2) have "length (fi_hash a) = 20" "length (fi_hash b) = 20"
    by (simp_all add: wf_info_def)
  from assms(3) range_dir_length [OF this] have "file_name enc a = file_name enc b"
    by (simp add: to_path_dir assms(1,2))
  with assms(1,2) show ?thesis by (rule file_name_inj)
qed

end

section \<open>Properties\<close>


definition sample_info :: cache_file_info where
  "sample_info = \<lparr>fi_hash = map word_of_nat [0..<20], fi_size = 70000, fi_xres = 1280,
     fi_yres = 1810, fi_mime_type = Webp\<rparr>"

lemma wf_sample_info [simp]: "wf_info sample_info"
  by (simp add: sample_info_def wf_info_def proper_type_def file_type_from_def)


text \<open>
  Two identities parsed from file ids are stored under the same path only if they are the same
  stored identity: no two different cache files ever overwrite each other.
\<close>

theorem parsed_paths_distinct:
  assumes "hex_codec enc dec"
    and "from_file_id dec id1 = Some a" and "from_file_id dec id2 = Some b"
    and "to_path enc a cache_dir = to_path enc b cache_dir"
  shows "stored_info a = stored_info b"
  using assms hex_codec.to_path_inj hex_codec.from_file_id_wf by blast

lemma dash_not_in_hex_encode: "CHR ''-'' \<notin> set (hex_encode h)"
  by (rule hx.enc_no_sep [OF dash_not_hex])

theorem parsed_paths_distinct_witness:
  "\<exists>a b. from_file_id hex_decode_to_array (hex_encode (replicate 20 170) @ ''-7-0-9-jpg'') = Some a \<and>
     from_file_id hex_decode_to_array (hex_encode (replicate 20 170) @ ''-007-jpg'') = Some b \<and>
     to_path hex_encode a ''cache'' = to_path hex_encode b ''cache'' \<and> a \<noteq> b \<and>
     stored_info a = stored_info b"
proof -
  let ?h = "replicate 20 (170 :: u8)"
  define a where "a = \<lparr>fi_hash = ?h, fi_size = 7, fi_xres = 0, fi_yres = 9, fi_mime_type = Jpeg\<rparr>"
  define b where "b = \<lparr>fi_hash = ?h, fi_size = 7, fi_xres = 0, fi_yres = 0, fi_mime_type = Jpeg\<rparr>"
  have a: "from_file_id hex_decode_to_array (hex_encode ?h @ ''-7-0-9-jpg'') = Some a"
    and b: "from_file_id hex_decode_to_array (hex_encode ?h @ ''-007-jpg'') = Some b"
    by (simp_all add: a_def b_def from_file_id_def str_simps dash_not_in_hex_encode hx.dec_enc
        next_u32_def parse_eval file_type_from_def)
  have p: "to_path hex_encode a ''cache'' = to_path hex_encode b ''cache''"
    by (simp add: a_def b_def to_path_def file_name_def)
  have "a \<noteq> b" by (simp add: a_def b_def)
  with a b p parsed_paths_distinct [OF hx.hex_codec_axioms a b p] show ?thesis by blast
qed

end
