(* ===== verification/Disk.thy ===== *)
theory Disk
  imports Prelude "HOL-Library.Multiset"
begin

text \<open>
  The part of \<^verbatim>\<open>std::fs\<close> and \<^verbatim>\<open>tokio::fs\<close> the client uses, on Unix paths.  A disk maps paths to
  directories and files with contents and a modification time in nanoseconds.  Every call takes
  an environment that says which operations fail for reasons outside the model and what the clock,
  the free space and the allocated size of a file are.  A failing call leaves the disk as it was.
\<close>

record fnode =
  f_data :: bytes
  f_mtime :: int

datatype node = Dir | File fnode

type_synonym disk = "(path, node) hashmap"

datatype fs_op = OpMetadata | OpRemoveFile | OpRename | OpCopy | OpCreateDir | OpOpen | OpReadDir
  | OpReadEntry | OpSetMtime | OpFileSize | OpRemoveDir | OpRead | OpSeek | OpCreate | OpWrite

record io_env =
  io_fails :: "fs_op \<Rightarrow> path \<Rightarrow> bool"
  real_size :: "fnode \<Rightarrow> u64"
  clock :: int
  available :: "u64 option"
  timestamp_ok :: "int \<Rightarrow> bool"
  read_before_error :: "path \<Rightarrow> nat"

text \<open>An environment without failures.\<close>

definition io_ok :: "io_env \<Rightarrow> bool" where
  "io_ok E \<longleftrightarrow> (\<forall>op p. \<not> io_fails E op p)"

text \<open>\<^verbatim>\<open>FileTime::unix_seconds\<close> rounds towards minus infinity.\<close>

definition unix_seconds :: "int \<Rightarrow> int" where
  "unix_seconds t = t div 1000000000"

definition from_unix_time :: "int \<Rightarrow> int" where
  "from_unix_time s = s * 1000000000"

section \<open>Paths\<close>

definition parent :: "path \<Rightarrow> path" where
  "parent p = rev (drop 1 (dropWhile (\<lambda>c. c \<noteq> CHR ''/'') (rev p)))"

definition basename :: "path \<Rightarrow> string" where
  "basename p = rev (takeWhile (\<lambda>c. c \<noteq> CHR ''/'') (rev p))"

lemma basename_append [simp]: "CHR ''/'' \<notin> set n \<Longrightarrow> basename (d @ CHR ''/'' # n) = n"
proof -
  assume "CHR ''/'' \<notin> set n"
  then have "takeWhile (\<lambda>c. c \<noteq> CHR ''/'') (rev n @ CHR ''/'' # rev d) = rev n"
    by (subst takeWhile_append2) auto
  then show ?thesis by (simp add: basename_def)
qed

lemma parent_append [simp]: "CHR ''/'' \<notin> set n \<Longrightarrow> parent (d @ CHR ''/'' # n) = d"
proof -
  assume "CHR ''/'' \<notin> set n"
  then have "dropWhile (\<lambda>c. c \<noteq> CHR ''/'') (rev n @ CHR ''/'' # rev d) = CHR ''/'' # rev d"
    by (subst dropWhile_append2) auto
  then show ?thesis by (simp add: parent_def)
qed

definition ancestors :: "path \<Rightarrow> path list" where
  "ancestors p = map (\<lambda>n. take n p) (filter (\<lambda>n. p ! n = CHR ''/'') [1..<length p]) @ [p]"

lemma ancestors_self [simp]: "p \<in> set (ancestors p)"
  by (simp add: ancestors_def)

section \<open>Calls\<close>

definition fs_metadata :: "io_env \<Rightarrow> path \<Rightarrow> disk \<Rightarrow> node option" where
  "fs_metadata E p d = (if io_fails E OpMetadata p then None else lookup d p)"

definition fs_filesize :: "io_env \<Rightarrow> path \<Rightarrow> node \<Rightarrow> u64 option" where
  "fs_filesize E p n =
     (if io_fails E OpFileSize p then None
      else (case n of File f \<Rightarrow> Some (real_size E f) | Dir \<Rightarrow> Some 0))"

definition fs_remove_file :: "io_env \<Rightarrow> path \<Rightarrow> disk \<Rightarrow> disk option" where
  "fs_remove_file E p d =
     (case lookup d p of
        Some (File _) \<Rightarrow> if io_fails E OpRemoveFile p then None else Some (remove_map p d)
      | _ \<Rightarrow> None)"

definition fs_rename :: "io_env \<Rightarrow> path \<Rightarrow> path \<Rightarrow> disk \<Rightarrow> disk option" where
  "fs_rename E src dst d =
     (case lookup d src of
        Some (File f) \<Rightarrow>
          if io_fails E OpRename dst \<or> lookup d (parent dst) \<noteq> Some Dir \<or> lookup d dst = Some Dir then None
          else Some (insert_map dst (File f) (remove_map src d))
      | _ \<Rightarrow> None)"

definition fs_copy :: "io_env \<Rightarrow> path \<Rightarrow> path \<Rightarrow> disk \<Rightarrow> disk option" where
  "fs_copy E src dst d =
     (case lookup d src of
        Some (File f) \<Rightarrow>
          if io_fails E OpCopy dst \<or> lookup d (parent dst) \<noteq> Some Dir \<or> lookup d dst = Some Dir then None
          else Some (insert_map dst (File (f\<lparr>f_mtime := clock E\<rparr>)) d)
      | _ \<Rightarrow> None)"

definition fs_create_dir_all :: "io_env \<Rightarrow> path \<Rightarrow> disk \<Rightarrow> disk option" where
  "fs_create_dir_all E p d =
     (if io_fails E OpCreateDir p \<or> (\<exists>a \<in> set (ancestors p). case lookup d a of Some (File _) \<Rightarrow> True | _ \<Rightarrow> False)
      then None
      else Some (fold (\<lambda>a d. if lookup d a = None then insert_map a Dir d else d) (ancestors p) d))"

definition fs_set_mtime :: "io_env \<Rightarrow> path \<Rightarrow> int \<Rightarrow> disk \<Rightarrow> disk option" where
  "fs_set_mtime E p t d =
     (case lookup d p of
        Some (File f) \<Rightarrow>
          if io_fails E OpSetMtime p then None else Some (insert_map p (File (f\<lparr>f_mtime := t\<rparr>)) d)
      | _ \<Rightarrow> None)"

text \<open>\<^verbatim>\<open>read_dir\<close>: the names directly below a directory, with what they are.\<close>

definition dir_entry :: "path \<Rightarrow> path \<times> node \<Rightarrow> (string \<times> node) option" where
  "dir_entry dir e =
     (let pre = dir @ ''/'' in
      if starts_with (fst e) pre \<and> drop (length pre) (fst e) \<noteq> [] \<and> CHR ''/'' \<notin> set (drop (length pre) (fst e))
      then Some (drop (length pre) (fst e), snd e) else None)"

definition list_dir :: "path \<Rightarrow> disk \<Rightarrow> (string \<times> node) list" where
  "list_dir dir d = List.map_filter (dir_entry dir) d"

definition fs_read_dir :: "io_env \<Rightarrow> path \<Rightarrow> disk \<Rightarrow> (string \<times> node) list option" where
  "fs_read_dir E dir d =
     (if io_fails E OpReadDir dir \<or> lookup d dir \<noteq> Some Dir then None else Some (list_dir dir d))"

text \<open>\<^verbatim>\<open>remove_dir_all\<close>: the directory and everything below it.\<close>

definition fs_remove_dir_all :: "io_env \<Rightarrow> path \<Rightarrow> disk \<Rightarrow> disk option" where
  "fs_remove_dir_all E dir d =
     (if io_fails E OpRemoveDir dir \<or> lookup d dir \<noteq> Some Dir then None
      else Some (retain (\<lambda>p _. p \<noteq> dir \<and> \<not> starts_with p (dir @ ''/'')) d))"

lemma in_list_dir:
  "(n, nd) \<in> set (list_dir dir d) \<longleftrightarrow> (dir @ ''/'' @ n, nd) \<in> set d \<and> n \<noteq> [] \<and> CHR ''/'' \<notin> set n"
  by (force simp: list_dir_def map_filter_def dir_entry_def Let_def starts_with_iff image_iff)

section \<open>The files on disk as a multiset\<close>

text \<open>
  A classifier \<open>g\<close> of paths selects the files a component is responsible for.  What it keeps books
  about is the multiset of the classes of these files with their weights.
\<close>

definition entry_files :: "(path \<Rightarrow> 'c option) \<Rightarrow> (fnode \<Rightarrow> 'w) \<Rightarrow> path \<times> node \<Rightarrow> ('c \<times> 'w) multiset" where
  "entry_files g w e =
     (case snd e of
        Dir \<Rightarrow> {#}
      | File f \<Rightarrow> (case g (fst e) of None \<Rightarrow> {#} | Some c \<Rightarrow> {#(c, w f)#}))"

definition disk_files :: "(path \<Rightarrow> 'c option) \<Rightarrow> (fnode \<Rightarrow> 'w) \<Rightarrow> disk \<Rightarrow> ('c \<times> 'w) multiset" where
  "disk_files g w d = sum_list (map (entry_files g w) d)"

lemma entry_files_simps [simp]:
  "entry_files g w (p, Dir) = {#}"
  "g p = None \<Longrightarrow> entry_files g w (p, n) = {#}"
  "g p = Some c \<Longrightarrow> entry_files g w (p, File f) = {#(c, w f)#}"
  by (simp_all add: entry_files_def split: node.split)

lemma disk_files_remove:
  "wf_map d \<Longrightarrow> lookup d p = Some n \<Longrightarrow> disk_files g w d = entry_files g w (p, n) + disk_files g w (remove_map p d)"
  unfolding disk_files_def by (rule sum_list_remove)

lemma disk_files_insert_new:
  "lookup d p = None \<Longrightarrow> disk_files g w (insert_map p n d) = entry_files g w (p, n) + disk_files g w d"
  unfolding disk_files_def by (rule sum_list_insert_new)

lemma sum_list_insert_old:
  fixes h :: "'k \<times> 'v \<Rightarrow> 'a::comm_monoid_add"
  assumes "wf_map m" "lookup m k = Some v" "h (k, v') = h (k, v)"
  shows "sum_list (map h (insert_map k v' m)) = sum_list (map h m)"
  using assms by (induction m) (auto simp: wf_map_def)

lemma disk_files_insert_old:
  "wf_map d \<Longrightarrow> lookup d p = Some n' \<Longrightarrow> entry_files g w (p, n) = entry_files g w (p, n') \<Longrightarrow>
   disk_files g w (insert_map p n d) = disk_files g w d"
  unfolding disk_files_def by (rule sum_list_insert_old)

lemma lookup_create_dir_all:
  assumes "fs_create_dir_all E p d = Some d'"
  shows "lookup d' q = (if lookup d q = None \<and> q \<in> set (ancestors p) then Some Dir else lookup d q)"
proof -
  have "lookup (fold (\<lambda>a d. if lookup d a = None then insert_map a Dir d else d) as d) q =
      (if lookup d q = None \<and> q \<in> set as then Some Dir else lookup d q)" for as d
    by (induction as arbitrary: d) auto
  with assms show ?thesis by (auto simp: fs_create_dir_all_def split: if_splits)
qed

text \<open>No file stands where \<^verbatim>\<open>create_dir_all\<close> needs a directory.\<close>

definition free_dir :: "path \<Rightarrow> disk \<Rightarrow> bool" where
  "free_dir p d \<longleftrightarrow> (\<forall>a \<in> set (ancestors p). \<forall>f. lookup d a \<noteq> Some (File f))"

lemma make_dir:
  assumes "io_ok E" "free_dir p d"
  obtains d' where "(if fs_metadata E p d = None then fs_create_dir_all E p d else Some d) = Some d'"
    "lookup d' p = Some Dir"
    "\<And>q. q \<notin> set (ancestors p) \<Longrightarrow> lookup d' q = lookup d q" "\<And>q f. lookup d q = Some (File f) \<Longrightarrow> lookup d' q = Some (File f)"
proof (cases "lookup d p")
  case None
  from assms obtain d' where d': "fs_create_dir_all E p d = Some d'"
    by (auto simp: fs_create_dir_all_def io_ok_def free_dir_def split: option.splits node.splits)
  from that [of d'] lookup_create_dir_all [OF d'] None d' show ?thesis
    by (auto simp: fs_metadata_def)
next
  case (Some n)
  then have "n = Dir" using assms by (cases n) (auto simp: free_dir_def)
  with that [of d] Some assms show ?thesis by (simp add: fs_metadata_def io_ok_def)
qed

lemma length_ancestors: "a \<in> set (ancestors p) \<Longrightarrow> length a \<le> length p"
  by (auto simp: ancestors_def)

lemma parent_shorter: "p \<noteq> [] \<Longrightarrow> length (parent p) < length p"
proof -
  assume "p \<noteq> []"
  moreover have "length (dropWhile (\<lambda>c. c \<noteq> CHR ''/'') (rev p)) \<le> length p"
    using length_dropWhile_le [of _ "rev p"] by simp
  ultimately show ?thesis by (cases p) (auto simp: parent_def)
qed

lemma disk_files_create_dir_all:
  assumes "fs_create_dir_all E p d = Some d'" "wf_map d"
  shows "disk_files g w d' = disk_files g w d" and "wf_map d'"
proof -
  have "wf_map d \<Longrightarrow>
      disk_files g w (fold (\<lambda>a d. if lookup d a = None then insert_map a Dir d else d) as d) = disk_files g w d \<and>
      wf_map (fold (\<lambda>a d. if lookup d a = None then insert_map a Dir d else d) as d)" for as d
    by (induction as arbitrary: d) (auto simp: disk_files_insert_new)
  with assms show "disk_files g w d' = disk_files g w d" and "wf_map d'"
    by (auto simp: fs_create_dir_all_def split: if_splits)
qed

lemma disk_files_set_mtime:
  assumes "fs_set_mtime E p t d = Some d'" "wf_map d" "\<And>f. w (f\<lparr>f_mtime := t\<rparr>) = w f"
  shows "disk_files g w d' = disk_files g w d" and "wf_map d'"
  using assms
  by (auto simp: fs_set_mtime_def entry_files_def split: option.splits node.splits if_splits
      intro!: disk_files_insert_old)

lemma in_disk_files: "lookup d p = Some (File f) \<Longrightarrow> g p = Some c \<Longrightarrow> (c, w f) \<in># disk_files g w d"
  by (induction d) (auto simp: disk_files_def split: if_splits)

text \<open>An environment for concrete evaluations, without failures.\<close>

definition sample_env :: io_env where
  "sample_env = \<lparr>io_fails = (\<lambda>_ _. False), real_size = (\<lambda>f. word_of_nat (length (f_data f))),
     clock = from_unix_time 2000000000, available = None, timestamp_ok = (\<lambda>_. True), read_before_error = (\<lambda>_. 0)\<rparr>"

lemma sample_env_simps [simp]:
  "io_fails sample_env op p = False" "clock sample_env = from_unix_time 2000000000"
  "real_size sample_env f = word_of_nat (length (f_data f))" "io_ok sample_env" "timestamp_ok sample_env t"
  "available sample_env = None"
  by (simp_all add: sample_env_def io_ok_def)

end
