(* ===== verification/CacheStore.thy ===== *)
theory CacheStore
  imports CacheFile Disk
begin

text \<open>
  \<^verbatim>\<open>src/cache_manager.rs\<close>, the store: \<^verbatim>\<open>CacheState\<close>, the shared state of \<^verbatim>\<open>CacheManager\<close> with the
  gauges it maintains, and the operations \<^verbatim>\<open>import_cache\<close>, \<^verbatim>\<open>remove_cache\<close>,
  \<^verbatim>\<open>mark_recently_accessed\<close>, \<^verbatim>\<open>update_settings\<close> and the loading of a saved state.

  The invariant is the accounting: for every static range the number and the allocated size of the
  files recorded in memory are those of the files on disk, and the gauges are the totals.
\<close>

section \<open>CacheState\<close>

record cache_state =
  file_count :: u64
  state_size :: u64
  oldest :: int

definition add_file :: "u64 \<Rightarrow> cache_state \<Rightarrow> cache_state" where
  "add_file sz s = s\<lparr>file_count := file_count s + 1, state_size := state_size s + sz\<rparr>"

definition remove_file :: "u64 \<Rightarrow> cache_state \<Rightarrow> cache_state" where
  "remove_file sz s = s\<lparr>file_count := file_count s - 1, state_size := state_size s - sz\<rparr>"

definition default_state :: "io_env \<Rightarrow> cache_state" where
  "default_state E = \<lparr>file_count = 0, state_size = 0, oldest = unix_seconds (clock E)\<rparr>"

lemmas cache_state_defs = add_file_def remove_file_def default_state_def

section \<open>CacheManager\<close>

text \<open>The fields of \<^verbatim>\<open>CacheManager\<close>, the gauges of \<^verbatim>\<open>Metrics\<close> it writes, and the disk.\<close>

record cache_manager =
  cache_dir :: path
  temp_dir :: path
  cache_state_path :: path
  cache_map :: "(string, cache_state) hashmap"
  size_limit :: u64
  m_cache_count :: u64
  m_cache_size :: u64
  m_static_range :: int
  m_cache_capacity :: int
  disk :: disk
  saved_state :: "(string, cache_state) hashmap option"

definition remove_cache :: "extern \<Rightarrow> io_env \<Rightarrow> cache_file_info \<Rightarrow> cache_manager \<Rightarrow> unit option \<times> cache_manager" where
  "remove_cache X E info cm =
     (let path = to_path (x_enc X) info (cache_dir cm) in
      case fs_metadata E path (disk cm) of
        None \<Rightarrow> (None, cm)
      | Some metadata \<Rightarrow>
          (case fs_filesize E path metadata of
             None \<Rightarrow> (None, cm)
           | Some sz \<Rightarrow>
               (case fs_remove_file E path (disk cm) of
                  None \<Rightarrow> (None, cm)
                | Some d \<Rightarrow>
                    (Some (),
                     cm\<lparr>disk := d,
                        cache_map :=
                          (case lookup (cache_map cm) (static_range (x_enc X) info) of
                             None \<Rightarrow> cache_map cm
                           | Some s \<Rightarrow> insert_map (static_range (x_enc X) info) (remove_file sz s) (cache_map cm)),
                        m_cache_count := m_cache_count cm - 1,
                        m_cache_size := m_cache_size cm - sz\<rparr>))))"

text \<open>\<^verbatim>\<open>rename\<close> with the fallback to \<^verbatim>\<open>copy\<close> across file systems.\<close>

definition move_or_copy :: "io_env \<Rightarrow> path \<Rightarrow> path \<Rightarrow> disk \<Rightarrow> disk option" where
  "move_or_copy E src dst d =
     (case fs_rename E src dst d of Some d \<Rightarrow> Some d | None \<Rightarrow> fs_copy E src dst d)"

definition import_file :: "extern \<Rightarrow> io_env \<Rightarrow> cache_file_info \<Rightarrow> path \<Rightarrow> cache_manager \<Rightarrow> cache_manager" where
  "import_file X E info file_path cm =
     (let path = to_path (x_enc X) info (cache_dir cm) in
      case move_or_copy E file_path path (disk cm) of
        None \<Rightarrow> cm
      | Some d \<Rightarrow>
          let cm = cm\<lparr>disk := d\<rparr> in
          (case Option.bind (lookup d path) (fs_filesize E path) of
             None \<Rightarrow> cm
           | Some sz \<Rightarrow>
               let sr = static_range (x_enc X) info;
                   s = (case lookup (cache_map cm) sr of None \<Rightarrow> default_state E | Some s \<Rightarrow> s)
               in cm\<lparr>cache_map := insert_map sr (add_file sz s) (cache_map cm),
                     m_cache_count := m_cache_count cm + 1,
                     m_cache_size := m_cache_size cm + sz\<rparr>))"

definition import_cache :: "extern \<Rightarrow> io_env \<Rightarrow> cache_file_info \<Rightarrow> path \<Rightarrow> cache_manager \<Rightarrow> cache_manager" where
  "import_cache X E info file_path cm =
     (let dir = parent (to_path (x_enc X) info (cache_dir cm))
      in case (if fs_metadata E dir (disk cm) = None then fs_create_dir_all E dir (disk cm) else Some (disk cm)) of
           None \<Rightarrow> cm
         | Some d \<Rightarrow> import_file X E info file_path (snd (remove_cache X E info (cm\<lparr>disk := d\<rparr>))))"

definition mark_recently_accessed :: "extern \<Rightarrow> io_env \<Rightarrow> cache_file_info \<Rightarrow> cache_manager \<Rightarrow> cache_manager" where
  "mark_recently_accessed X E info cm =
     (case fs_set_mtime E (to_path (x_enc X) info (cache_dir cm)) (clock E) (disk cm) of
        None \<Rightarrow> cm
      | Some d \<Rightarrow> cm\<lparr>disk := d\<rparr>)"

text \<open>\<^verbatim>\<open>update_settings\<close>: \<^verbatim>\<open>u64::try_into::<i64>\<close> saturates at the largest \<^verbatim>\<open>i64\<close>.\<close>

definition cm_update_settings :: "u64 \<Rightarrow> cache_manager \<Rightarrow> cache_manager" where
  "cm_update_settings limit cm =
     cm\<lparr>size_limit := limit,
        m_cache_capacity := (if unat limit < 2 ^ 63 then int (unat limit) else 2 ^ 63 - 1)\<rparr>"

text \<open>\<^verbatim>\<open>save_state\<close>: \<open>saved_state\<close> is what the file at \<^verbatim>\<open>cache_state_path\<close> deserialises to.  A failed
  create leaves the file, a failed write leaves it truncated.\<close>

definition save_state :: "io_env \<Rightarrow> cache_manager \<Rightarrow> cache_manager" where
  "save_state E cm =
     (if io_fails E OpCreate (cache_state_path cm) then cm
      else if io_fails E OpWrite (cache_state_path cm) then cm\<lparr>saved_state := None\<rparr>
      else cm\<lparr>saved_state := Some (cache_map cm)\<rparr>)"

text \<open>Loading the saved state in \<^verbatim>\<open>new\<close>: only ranges still assigned to the client are kept.\<close>

fun load_state :: "string list \<Rightarrow> (string, cache_state) hashmap \<Rightarrow> cache_manager \<Rightarrow> cache_manager" where
  "load_state ranges [] cm = cm"
| "load_state ranges ((sr, s) # old) cm =
     load_state ranges old
       (if sr \<in> set ranges
        then cm\<lparr>m_static_range := m_static_range cm + 1,
                m_cache_count := m_cache_count cm + file_count s,
                m_cache_size := m_cache_size cm + state_size s,
                cache_map := insert_map sr s (cache_map cm)\<rparr>
        else cm)"

section \<open>Accounting\<close>

text \<open>The static range a path belongs to: the path of an identity that parses from its name.\<close>

definition entry_range :: "extern \<Rightarrow> path \<Rightarrow> path \<Rightarrow> string option" where
  "entry_range X dir p =
     (case from_file_id (x_dec X) (basename p) of
        None \<Rightarrow> None
      | Some info \<Rightarrow> if to_path (x_enc X) info dir = p then Some (static_range (x_enc X) info) else None)"

text \<open>
  The books of the manager against the files on disk.  \<open>M\<close> is the multiset of (static range,
  allocated size) of the cached files.
\<close>

definition range_files :: "(string \<times> u64) multiset \<Rightarrow> string \<Rightarrow> (string \<times> u64) multiset" where
  "range_files M sr = filter_mset (\<lambda>e. fst e = sr) M"

definition range_balanced :: "(string \<times> u64) multiset \<Rightarrow> (string, cache_state) hashmap \<Rightarrow> string \<Rightarrow> bool" where
  "range_balanced M m sr \<longleftrightarrow>
     (case lookup m sr of
        None \<Rightarrow> range_files M sr = {#}
      | Some s \<Rightarrow> file_count s = word_of_nat (size (range_files M sr)) \<and>
                  state_size s = sum_mset (image_mset snd (range_files M sr)))"

definition cached_files :: "extern \<Rightarrow> (fnode \<Rightarrow> u64) \<Rightarrow> cache_manager \<Rightarrow> (string \<times> u64) multiset" where
  "cached_files X rs cm = disk_files (entry_range X (cache_dir cm)) rs (disk cm)"

definition accounted :: "extern \<Rightarrow> (fnode \<Rightarrow> u64) \<Rightarrow> cache_manager \<Rightarrow> bool" where
  "accounted X rs cm \<longleftrightarrow>
     wf_map (disk cm) \<and> wf_map (cache_map cm) \<and>
     (\<forall>sr. range_balanced (cached_files X rs cm) (cache_map cm) sr) \<and>
     m_cache_count cm = word_of_nat (size (cached_files X rs cm)) \<and>
     m_cache_size cm = sum_mset (image_mset snd (cached_files X rs cm))"

lemma range_files_add [simp]:
  "range_files (add_mset (r, sz) M) sr = (if r = sr then add_mset (r, sz) (range_files M sr) else range_files M sr)"
  by (simp add: range_files_def)

lemma balanced_remove:
  assumes "range_balanced (add_mset (r, sz) M) m sr" "lookup m r = Some s"
  shows "range_balanced M (insert_map r (remove_file sz s) m) sr"
  using assms by (auto simp: range_balanced_def remove_file_def split: option.splits if_splits)

lemma balanced_add:
  assumes "range_balanced M m sr"
    and "s = (case lookup m r of None \<Rightarrow> default_state E | Some s \<Rightarrow> s)"
  shows "range_balanced (add_mset (r, sz) M) (insert_map r (add_file sz s) m) sr"
  using assms
  by (auto simp: range_balanced_def add_file_def default_state_def split: option.splits if_splits)

lemma balanced_entry:
  "range_balanced (add_mset (r, sz) M) m r \<Longrightarrow> \<exists>s. lookup m r = Some s"
  by (auto simp: range_balanced_def split: option.splits)

text \<open>Identities whose file name is a single path component, as every name read from a directory
  and every file id of a request without an encoded slash has.\<close>

definition plain_info :: "cache_file_info \<Rightarrow> bool" where
  "plain_info info \<longleftrightarrow> wf_info info \<and> CHR ''/'' \<notin> set (file_type_as_str (fi_mime_type info))"

lemma stored_info_wf [simp]: "wf_info (stored_info info) = wf_info info"
  by (simp add: stored_info_def wf_info_def)

lemma stored_info_path [simp]:
  "to_path enc (stored_info info) dir = to_path enc info dir"
  "static_range enc (stored_info info) = static_range enc info"
  by (simp_all add: stored_info_def to_path_def file_name_def static_range_def)

context hex_codec
begin

lemma file_name_no_slash: "plain_info info \<Longrightarrow> CHR ''/'' \<notin> set (file_name enc info)"
proof -
  have "CHR ''/'' \<notin> set hex_chars" by (simp add: hex_chars_def)
  then have "CHR ''/'' \<notin> set (enc h)" for h by (rule enc_no_sep)
  then show "plain_info info \<Longrightarrow> ?thesis" by (auto simp: plain_info_def file_name_def)
qed

end

context external
begin

lemma from_file_id_plain:
  assumes "from_file_id (x_dec X) n = Some info" "CHR ''/'' \<notin> set n"
  shows "plain_info info"
proof -
  from from_file_id_parts [OF assms(1)] obtain m
    where "m \<in> set (split_on (CHR ''-'') n)" "fi_mime_type info = file_type_from m" by blast
  with assms split_on_parts_subset [of m "CHR ''-''" n] show ?thesis
    by (auto simp: plain_info_def intro: from_file_id_wf)
qed

lemma entry_range_to_path:
  assumes "plain_info info"
  shows "entry_range X dir (to_path (x_enc X) info dir) = Some (static_range (x_enc X) info)"
proof -
  from assms have wf: "wf_info info" by (simp add: plain_info_def)
  show ?thesis
    by (simp add: entry_range_def to_path_dir [OF wf] basename_append [OF file_name_no_slash [OF assms]]
        file_name_roundtrip [OF wf])
qed

lemma parent_to_path:
  "plain_info info \<Longrightarrow> parent (to_path (x_enc X) info dir) = range_dir dir (static_range (x_enc X) info)"
  by (simp add: to_path_dir plain_info_def parent_append [OF file_name_no_slash, unfolded plain_info_def])

lemma accounted_remove_cache:
  assumes "accounted X (real_size E) cm" "plain_info info"
  shows "accounted X (real_size E) (snd (remove_cache X E info cm))"
proof (cases "remove_cache X E info cm = (None, cm)")
  case True
  with assms show ?thesis by simp
next
  case False
  define path where "path = to_path (x_enc X) info (cache_dir cm)"
  define r where "r = static_range (x_enc X) info"
  from False obtain f where f: "lookup (disk cm) path = Some (File f)"
    and ok: "\<not> io_fails E OpMetadata path" "\<not> io_fails E OpFileSize path" "\<not> io_fails E OpRemoveFile path"
    by (auto simp: remove_cache_def Let_def path_def fs_metadata_def fs_filesize_def fs_remove_file_def
        split: option.splits node.splits if_splits)
  have "entry_range X (cache_dir cm) path = Some r"
    unfolding path_def r_def by (rule entry_range_to_path) (rule assms)
  with f assms(1) have M: "cached_files X (real_size E) cm =
      add_mset (r, real_size E f) (disk_files (entry_range X (cache_dir cm)) (real_size E) (remove_map path (disk cm)))"
    by (simp add: cached_files_def accounted_def disk_files_remove)
  with assms(1) obtain s where s: "lookup (cache_map cm) r = Some s"
    by (metis accounted_def balanced_entry)
  have "snd (remove_cache X E info cm) =
      cm\<lparr>disk := remove_map path (disk cm), cache_map := insert_map r (remove_file (real_size E f) s) (cache_map cm),
         m_cache_count := m_cache_count cm - 1, m_cache_size := m_cache_size cm - real_size E f\<rparr>"
    using f ok s
    by (simp add: remove_cache_def Let_def path_def r_def fs_metadata_def fs_filesize_def fs_remove_file_def)
  with assms(1) M s show ?thesis
    by (auto simp: accounted_def cached_files_def intro: balanced_remove)
qed

lemma accounted_disk:
  assumes "accounted X rs cm" "wf_map d"
    and "disk_files (entry_range X (cache_dir cm)) rs d = disk_files (entry_range X (cache_dir cm)) rs (disk cm)"
  shows "accounted X rs (cm\<lparr>disk := d\<rparr>)"
  using assms by (simp add: accounted_def cached_files_def)

lemma accounted_add:
  assumes "accounted X rs cm" "entry_range X (cache_dir cm) p = Some r" "lookup (disk cm) p = None"
    and "s = (case lookup (cache_map cm) r of None \<Rightarrow> default_state E | Some s \<Rightarrow> s)"
  shows "accounted X rs (cm\<lparr>disk := insert_map p (File f) (disk cm),
           cache_map := insert_map r (add_file (rs f) s) (cache_map cm),
           m_cache_count := m_cache_count cm + 1, m_cache_size := m_cache_size cm + rs f\<rparr>)"
  using assms by (auto simp: accounted_def cached_files_def disk_files_insert_new intro: balanced_add)

end

text \<open>The calls on one path succeed; what \<^verbatim>\<open>remove_cache\<close> and \<^verbatim>\<open>import_cache\<close> need of the cached file.\<close>

definition stable_path :: "io_env \<Rightarrow> path \<Rightarrow> bool" where
  "stable_path E p \<longleftrightarrow> \<not> io_fails E OpMetadata p \<and> \<not> io_fails E OpFileSize p \<and> \<not> io_fails E OpRemoveFile p"

text \<open>The allocated size of a file does not depend on its modification time.\<close>

definition size_law :: "io_env \<Rightarrow> bool" where
  "size_law E \<longleftrightarrow> (\<forall>f t. real_size E (f\<lparr>f_mtime := t\<rparr>) = real_size E f)"

lemma remove_cache_cleared:
  assumes "stable_path E (to_path (x_enc X) info (cache_dir cm))"
  shows "lookup (disk (snd (remove_cache X E info cm))) (to_path (x_enc X) info (cache_dir cm)) \<in> {None, Some Dir}"
  using assms
  by (auto simp: remove_cache_def Let_def stable_path_def fs_metadata_def fs_filesize_def fs_remove_file_def
      split: option.splits node.splits)

lemma remove_cache_other:
  "q \<noteq> to_path (x_enc X) info (cache_dir cm) \<Longrightarrow> lookup (disk (snd (remove_cache X E info cm))) q = lookup (disk cm) q"
  by (auto simp: remove_cache_def Let_def fs_remove_file_def split: option.splits node.splits if_splits)

lemma remove_cache_dirs: "lookup (disk (snd (remove_cache X E info cm))) q = Some Dir \<Longrightarrow> lookup (disk cm) q = Some Dir"
  by (auto simp: remove_cache_def Let_def fs_remove_file_def split: option.splits node.splits if_splits)

lemma remove_cache_dir [simp]: "cache_dir (snd (remove_cache X E info cm)) = cache_dir cm"
  by (auto simp: remove_cache_def Let_def split: option.splits)

lemma move_or_copy_cases:
  assumes "move_or_copy E src dst d = Some d'"
  obtains f where "lookup d src = Some (File f)" "lookup d dst \<noteq> Some Dir" "d' = insert_map dst (File f) (remove_map src d)"
  | f where "lookup d src = Some (File f)" "lookup d dst \<noteq> Some Dir" "d' = insert_map dst (File (f\<lparr>f_mtime := clock E\<rparr>)) d"
  using assms
  by (auto simp: move_or_copy_def fs_rename_def fs_copy_def split: option.splits node.splits if_splits)

context external
begin

lemma move_or_copy_files:
  assumes "move_or_copy E src dst d = Some d'" "g src = None" "g dst = Some r" "wf_map d" "lookup d dst \<in> {None, Some Dir}"
  obtains f d0 where "d' = insert_map dst (File f) d0" "lookup d0 dst = None" "wf_map d0"
    "disk_files g w d0 = disk_files g w d"
  using assms(1)
proof (cases rule: move_or_copy_cases)
  case (1 f)
  with assms have "disk_files g w (remove_map src d) = disk_files g w d"
    using disk_files_remove [of d src "File f" g w] by simp
  with 1 assms that [of f "remove_map src d"] show ?thesis by auto
next
  case (2 f)
  with assms that [of "f\<lparr>f_mtime := clock E\<rparr>" d] show ?thesis by auto
qed

lemma accounted_import_file:
  assumes "accounted X (real_size E) cm" "plain_info info" "entry_range X (cache_dir cm) file_path = None"
    and "lookup (disk cm) (to_path (x_enc X) info (cache_dir cm)) \<in> {None, Some Dir}"
    and "\<not> io_fails E OpFileSize (to_path (x_enc X) info (cache_dir cm))"
  shows "accounted X (real_size E) (import_file X E info file_path cm)"
proof (cases "move_or_copy E file_path (to_path (x_enc X) info (cache_dir cm)) (disk cm)")
  case None
  with assms(1) show ?thesis by (simp add: import_file_def)
next
  case (Some d)
  let ?path = "to_path (x_enc X) info (cache_dir cm)" and ?r = "static_range (x_enc X) info"
  let ?g = "entry_range X (cache_dir cm)"
  have g: "?g ?path = Some ?r" using assms(2) by (rule entry_range_to_path)
  from assms(1) have wf: "wf_map (disk cm)" by (simp add: accounted_def)
  obtain f d0 where d: "d = insert_map ?path (File f) d0" and d0: "lookup d0 ?path = None" "wf_map d0"
    "disk_files ?g (real_size E) d0 = disk_files ?g (real_size E) (disk cm)"
    by (rule move_or_copy_files [OF Some assms(3) g wf assms(4)])
  from d0 have "accounted X (real_size E) (cm\<lparr>disk := d0\<rparr>)"
    by (intro accounted_disk [OF assms(1)]) simp_all
  from accounted_add [OF this, of ?path ?r _ E f] g d0(1) Some assms(5) show ?thesis
    by (simp add: import_file_def d Let_def fs_filesize_def)
qed

lemma accounted_import_cache:
  assumes "accounted X (real_size E) cm" "plain_info info" "entry_range X (cache_dir cm) file_path = None"
    and "stable_path E (to_path (x_enc X) info (cache_dir cm))"
  shows "accounted X (real_size E) (import_cache X E info file_path cm)"
proof (cases "let dir = parent (to_path (x_enc X) info (cache_dir cm)) in
    if fs_metadata E dir (disk cm) = None then fs_create_dir_all E dir (disk cm) else Some (disk cm)")
  case None
  with assms(1) show ?thesis by (simp add: import_cache_def Let_def)
next
  case (Some d)
  let ?cm = "cm\<lparr>disk := d\<rparr>"
  have "accounted X (real_size E) ?cm"
  proof (rule accounted_disk [OF assms(1)])
    from assms(1) have "wf_map (disk cm)" by (simp add: accounted_def)
    with Some show "wf_map d"
      "disk_files (entry_range X (cache_dir cm)) (real_size E) d =
       disk_files (entry_range X (cache_dir cm)) (real_size E) (disk cm)"
      by (auto simp: Let_def split: if_splits dest: disk_files_create_dir_all)
  qed
  then have "accounted X (real_size E) (snd (remove_cache X E info ?cm))"
    using assms(2) by (rule accounted_remove_cache)
  then have "accounted X (real_size E) (import_file X E info file_path (snd (remove_cache X E info ?cm)))"
    using assms remove_cache_cleared [of E X info ?cm]
    by (intro accounted_import_file) (simp_all add: stable_path_def)
  with Some show ?thesis by (simp add: import_cache_def Let_def)
qed

lemma accounted_mark_recently_accessed:
  assumes "accounted X (real_size E) cm" "size_law E"
  shows "accounted X (real_size E) (mark_recently_accessed X E info cm)"
proof (cases "fs_set_mtime E (to_path (x_enc X) info (cache_dir cm)) (clock E) (disk cm)")
  case (Some d)
  have "accounted X (real_size E) (cm\<lparr>disk := d\<rparr>)"
    using assms disk_files_set_mtime [OF Some, of "real_size E"]
    by (intro accounted_disk) (auto simp: accounted_def size_law_def)
  with Some show ?thesis by (simp add: mark_recently_accessed_def)
qed (simp add: mark_recently_accessed_def assms)

lemma accounted_update_settings: "accounted X rs cm \<Longrightarrow> accounted X rs (cm_update_settings l cm)"
  by (simp add: accounted_def cached_files_def cm_update_settings_def)

lemma accounted_save_state: "accounted X rs cm \<Longrightarrow> accounted X rs (save_state E cm)"
  by (auto simp: accounted_def cached_files_def save_state_def)

lemma import_cache_stores:
  assumes "plain_info info" "lookup (disk cm) file_path = Some (File f)" "io_ok E"
    and "entry_range X (cache_dir cm) file_path = None"
    and "lookup (disk cm) (to_path (x_enc X) info (cache_dir cm)) \<noteq> Some Dir"
    and "free_dir (parent (to_path (x_enc X) info (cache_dir cm))) (disk cm)"
  shows "lookup (disk (import_cache X E info file_path cm)) (to_path (x_enc X) info (cache_dir cm)) = Some (File f)"
proof -
  let ?path = "to_path (x_enc X) info (cache_dir cm)"
  have src: "file_path \<noteq> ?path" using assms(1,4) entry_range_to_path by auto
  have up: "?path \<notin> set (ancestors (parent ?path))"
    using length_ancestors [of ?path "parent ?path"] parent_shorter [of ?path] assms(1)
    by (fastforce simp: to_path_dir plain_info_def)
  then have up': "parent ?path \<noteq> ?path" using ancestors_self [of "parent ?path"] by metis
  obtain d where d: "(if fs_metadata E (parent ?path) (disk cm) = None
      then fs_create_dir_all E (parent ?path) (disk cm) else Some (disk cm)) = Some d"
    "lookup d (parent ?path) = Some Dir" "lookup d ?path \<noteq> Some Dir" "lookup d file_path = Some (File f)"
    using make_dir [OF assms(3,6)] assms(2,5) up by metis
  let ?cm = "snd (remove_cache X E info (cm\<lparr>disk := d\<rparr>))"
  have "lookup (disk ?cm) ?path = None"
    using remove_cache_cleared [of E X info "cm\<lparr>disk := d\<rparr>"] remove_cache_dirs [of X E info "cm\<lparr>disk := d\<rparr>"] d assms(3)
    by (auto simp: stable_path_def io_ok_def)
  moreover have "lookup (disk ?cm) (parent ?path) = Some Dir" "lookup (disk ?cm) file_path = Some (File f)"
    using remove_cache_other [of _ X info "cm\<lparr>disk := d\<rparr>" E] d src up' by auto
  ultimately have "move_or_copy E file_path ?path (disk ?cm) = Some (insert_map ?path (File f) (remove_map file_path (disk ?cm)))"
    using assms(3) by (simp add: move_or_copy_def fs_rename_def io_ok_def)
  then show ?thesis
    using d(1) assms(3) by (simp add: import_cache_def import_file_def Let_def fs_filesize_def io_ok_def)
qed

end

section \<open>A sample store\<close>

text \<open>One cached file, with the books in order, for concrete instances of the properties.\<close>

lemma sample_env_laws [simp]: "stable_path sample_env p" "size_law sample_env"
  by (simp_all add: sample_env_def stable_path_def size_law_def)

definition sample_manager :: "disk \<Rightarrow> (string, cache_state) hashmap \<Rightarrow> cache_manager" where
  "sample_manager d m = \<lparr>cache_dir = ''c'', temp_dir = ''t'', cache_state_path = ''s'', cache_map = m, size_limit = 100,
     m_cache_count = word_of_nat (length m), m_cache_size = sum_list (map (state_size \<circ> snd) m), m_static_range = 0,
     m_cache_capacity = 0, disk = d, saved_state = None\<rparr>"

definition sample_range :: string where
  "sample_range = static_range hex_encode sample_info"

definition sample_dir :: path where
  "sample_dir = range_dir ''c'' sample_range"

definition sample_path :: path where
  "sample_path = to_path hex_encode sample_info ''c''"

definition sample_disk :: "fnode \<Rightarrow> disk" where
  "sample_disk f = [(sample_dir, Dir), (sample_path, File f)]"

definition sample_store :: "fnode \<Rightarrow> cache_manager" where
  "sample_store f = sample_manager (sample_disk f)
     [(sample_range, \<lparr>file_count = 1, state_size = real_size sample_env f, oldest = 0\<rparr>)]"

lemma sample_store_simps [simp]:
  "cache_dir (sample_store f) = ''c''" "disk (sample_store f) = sample_disk f" "size_limit (sample_store f) = 100"
  "cache_map (sample_store f) = [(sample_range, \<lparr>file_count = 1, state_size = real_size sample_env f, oldest = 0\<rparr>)]"
  by (simp_all add: sample_store_def sample_manager_def)

lemma plain_sample_info [simp]: "plain_info sample_info"
  by (simp add: plain_info_def) (simp add: sample_info_def)

lemma sample_path_eq: "sample_path = sample_dir @ CHR ''/'' # file_name hex_encode sample_info"
  using hx.to_path_dir [OF wf_sample_info, of "''c''"] by (simp add: sample_path_def sample_dir_def sample_range_def)

lemma sample_file_name:
  "CHR ''/'' \<notin> set (file_name hex_encode sample_info)"
  "from_file_id hex_decode_to_array (file_name hex_encode sample_info) = Some (stored_info sample_info)"
  using hx.file_name_no_slash hx.file_name_roundtrip by simp_all

lemma sample_path_not_dir [simp]: "sample_path \<noteq> sample_dir" "sample_dir \<noteq> sample_path"
  by (simp_all add: sample_path_eq)

lemma sample_path_parts [simp]: "parent sample_path = sample_dir" "basename sample_path = file_name hex_encode sample_info"
  by (simp_all add: sample_path_eq sample_file_name)

lemma lookup_sample_disk [simp]:
  "lookup (sample_disk f) p = (if p = sample_dir then Some Dir else if p = sample_path then Some (File f) else None)"
  by (simp add: sample_disk_def)

lemma wf_sample_disk [simp]: "wf_map (sample_disk f)"
  by (simp add: sample_disk_def wf_map_def)

lemma sample_range_length [simp]: "length sample_range = 4"
  by (simp add: sample_range_def static_range_def hx.enc_length sample_info_def)

lemma sample_entry_range [simp]: "entry_range sample_ext ''c'' sample_path = Some sample_range"
  using sx.entry_range_to_path [OF plain_sample_info, of "''c''"] by (simp add: sample_path_def sample_range_def)

lemma accounted_sample_store: "accounted sample_ext (real_size sample_env) (sample_store f)"
  by (simp add: accounted_def cached_files_def disk_files_def sample_disk_def range_balanced_def range_files_def
      sample_manager_def sample_store_def) (simp add: wf_map_def)

end
