(* ===== verification/Body.thy ===== *)
theory Body
  imports Prelude
begin

text \<open>
  Response bodies.  A body is polled until it answers \<^verbatim>\<open>Ready(None)\<close>; an answer may be
  \<^verbatim>\<open>Pending\<close>, a data frame, trailers or an error.  What the environment contributes to one poll
  (a finished or unfinished background task, say) is an argument of the poll function.

  The locale \<open>byte_body\<close> is the contract between a body and whoever polls it: the body has a rest
  of bytes still to be delivered, data frames deliver a prefix of it and the end is only announced
  when nothing is left.  \<^verbatim>\<open>TruncateBody\<close> of \<^verbatim>\<open>src/server/util.rs\<close> is shown to turn any such
  body into one whose rest is cut at the limit.
\<close>

datatype io_error = ResourceBusy | OsError nat | JoinFailed | BadRequest string

datatype 'a poll = Pending | Ready 'a

datatype frame = Data bytes | Trailers "(string \<times> string) list"

type_synonym frame_poll = "(io_error + frame) option poll"

text \<open>The consumer: poll with the given environment inputs until the end or an error.\<close>

datatype body_end = Running | Ended | Failed io_error

fun run_body :: "('e \<Rightarrow> 'b \<Rightarrow> frame_poll \<times> 'b) \<Rightarrow> 'e list \<Rightarrow> 'b \<Rightarrow> bytes \<times> body_end \<times> 'b" where
  "run_body poll [] b = ([], Running, b)"
| "run_body poll (e # es) b =
     (case poll e b of
        (Pending, b) \<Rightarrow> run_body poll es b
      | (Ready None, b) \<Rightarrow> ([], Ended, b)
      | (Ready (Some (Inl err)), b) \<Rightarrow> ([], Failed err, b)
      | (Ready (Some (Inr (Trailers _))), b) \<Rightarrow> run_body poll es b
      | (Ready (Some (Inr (Data d))), b) \<Rightarrow>
          (case run_body poll es b of (ds, x) \<Rightarrow> (d @ ds, x)))"

section \<open>The contract of a body\<close>

definition poll_law :: "('b \<Rightarrow> bytes) \<Rightarrow> 'b \<Rightarrow> frame_poll \<Rightarrow> 'b \<Rightarrow> bool" where
  "poll_law rest b p b' \<longleftrightarrow>
     (case p of
        Ready None \<Rightarrow> rest b = []
      | Ready (Some (Inr (Data d))) \<Rightarrow> rest b = d @ rest b'
      | _ \<Rightarrow> rest b' = rest b)"

locale byte_body =
  fixes poll :: "'e \<Rightarrow> 'b \<Rightarrow> frame_poll \<times> 'b"
    and ok :: "'b \<Rightarrow> bool"
    and rest :: "'b \<Rightarrow> bytes"
  assumes poll_ok: "ok b \<Longrightarrow> poll e b = (p, b') \<Longrightarrow> ok b'"
    and poll_rest: "ok b \<Longrightarrow> poll e b = (p, b') \<Longrightarrow> poll_law rest b p b'"
begin

lemma run_body_sound:
  assumes "ok b" "run_body poll es b = (d, s, b')"
  shows "ok b' \<and> (s = Ended \<longrightarrow> d = rest b) \<and> (s \<noteq> Ended \<longrightarrow> rest b = d @ rest b')"
  using assms
proof (induction es arbitrary: b d s b')
  case (Cons e es)
  obtain p b1 where p: "poll e b = (p, b1)" by (metis surj_pair)
  note ok = poll_ok [OF Cons.prems(1) p] and law = poll_rest [OF Cons.prems(1) p]
  consider "p = Ready None" | err where "p = Ready (Some (Inl err))"
    | x where "p = Ready (Some (Inr (Data x)))"
    | "p = Pending \<or> (\<exists>t. p = Ready (Some (Inr (Trailers t))))"
    by (metis frame.exhaust old.sum.exhaust option.exhaust poll.exhaust)
  then show ?case
  proof cases
    case (3 x)
    obtain ds s' b2 where r: "run_body poll es b1 = (ds, s', b2)" by (metis surj_pair)
    from Cons.prems(2) p 3 r have "d = x @ ds" "s = s'" "b' = b2" by auto
    moreover from law 3 have "rest b = x @ rest b1" by (simp add: poll_law_def)
    ultimately show ?thesis using Cons.IH [OF ok r] by auto
  next
    case 4
    then have "run_body poll es b1 = (d, s, b')" "rest b1 = rest b"
      using Cons.prems(2) p law by (auto simp: poll_law_def)
    with Cons.IH [OF ok] show ?thesis by auto
  qed (use Cons.prems(2) p ok law in \<open>auto simp: poll_law_def\<close>)
qed simp

end

text \<open>
  A body that makes progress: under good environment inputs every poll announces the end or
  delivers at least one byte.
\<close>

locale live_body = byte_body poll ok rest
  for poll :: "'e \<Rightarrow> 'b \<Rightarrow> frame_poll \<times> 'b" and ok :: "'b \<Rightarrow> bool" and rest :: "'b \<Rightarrow> bytes" +
  fixes good :: "'e \<Rightarrow> 'b \<Rightarrow> bool"
  assumes progress: "ok b \<Longrightarrow> good e b \<Longrightarrow> poll e b = (p, b') \<Longrightarrow>
    p = Ready None \<or> (\<exists>d. p = Ready (Some (Inr (Data d))) \<and> d \<noteq> [])"
begin

lemma run_body_complete:
  assumes "ok b" "\<And>e b. e \<in> set es \<Longrightarrow> ok b \<Longrightarrow> good e b" "length (rest b) < length es"
  shows "\<exists>b'. run_body poll es b = (rest b, Ended, b')"
  using assms
proof (induction es arbitrary: b)
  case (Cons e es)
  obtain p b1 where p: "poll e b = (p, b1)" by (metis surj_pair)
  note ok = poll_ok [OF Cons.prems(1) p] and law = poll_rest [OF Cons.prems(1) p]
  from progress [OF Cons.prems(1) _ p] Cons.prems(1,2)
  consider "p = Ready None" | d where "p = Ready (Some (Inr (Data d)))" "d \<noteq> []" by auto
  then show ?case
  proof cases
    case 1
    with p law show ?thesis by (simp add: poll_law_def)
  next
    case (2 d)
    with law have r: "rest b = d @ rest b1" by (simp add: poll_law_def)
    moreover have "0 < length d" using 2 by simp
    ultimately have "length (rest b1) < length es" using Cons.prems(3) by (simp del: length_greater_0_conv)
    then obtain b' where "run_body poll es b1 = (rest b1, Ended, b')"
      using Cons.IH [OF ok] Cons.prems(2) by auto
    with p 2 r show ?thesis by auto
  qed
qed simp

end

section \<open>TruncateBody\<close>

text \<open>The limit and the inner body.  \<^verbatim>\<open>limit\<close> only ever decreases by a length it is not below.\<close>

definition truncate_poll :: "('e \<Rightarrow> 'b \<Rightarrow> frame_poll \<times> 'b) \<Rightarrow> 'e \<Rightarrow> nat \<times> 'b \<Rightarrow> frame_poll \<times> nat \<times> 'b" where
  "truncate_poll poll_inner e this =
     (case this of (limit, inner) \<Rightarrow>
      (case poll_inner e inner of
         (Pending, inner) \<Rightarrow> (Pending, limit, inner)
       | (Ready None, inner) \<Rightarrow> (Ready None, limit, inner)
       | (Ready (Some (Inr fr)), inner) \<Rightarrow>
           if limit = 0 then (Ready None, limit, inner)
           else (case fr of
                   Data d \<Rightarrow>
                     if length d > limit
                     then (Ready (Some (Inr (Data (take limit d)))), 0, inner)
                     else (Ready (Some (Inr (Data d))), limit - length d, inner)
                 | Trailers t \<Rightarrow> (Ready (Some (Inr fr)), limit, inner))
       | (Ready (Some (Inl err)), inner) \<Rightarrow> (Ready (Some (Inl err)), limit, inner)))"

definition truncated_rest :: "('b \<Rightarrow> bytes) \<Rightarrow> nat \<times> 'b \<Rightarrow> bytes" where
  "truncated_rest rest this = take (fst this) (rest (snd this))"

locale truncated = live_body

sublocale truncated \<subseteq> trunc: live_body "truncate_poll poll" "\<lambda>this. ok (snd this)"
  "truncated_rest rest" "\<lambda>e this. good e (snd this)"
proof unfold_locales
  fix b e p b'
  assume ok: "ok (snd b)" and p: "truncate_poll poll e b = (p, b')"
  obtain l i where b: "b = (l, i)" by (metis surj_pair)
  obtain q i' where q: "poll e i = (q, i')" by (metis surj_pair)
  from ok b have oki: "ok i" by simp
  obtain l' where b': "b' = (l', i')"
    using p b q
    by (auto simp: truncate_poll_def split: poll.splits option.splits sum.splits frame.splits if_splits)
  with poll_ok [OF oki q] show "ok (snd b')" by simp
  from poll_rest [OF oki q] p b q b' show "poll_law (truncated_rest rest) b p b'"
    by (cases q)
      (auto simp: truncate_poll_def poll_law_def truncated_rest_def
        split: option.splits sum.splits frame.splits if_splits)
  assume g: "good e (snd b)"
  with progress [OF oki _ q] b p q
  show "p = Ready None \<or> (\<exists>d. p = Ready (Some (Inr (Data d))) \<and> d \<noteq> [])"
    by (auto simp: truncate_poll_def split: if_splits)
qed

text \<open>\<^verbatim>\<open>size_hint\<close> of the truncated body; \<^verbatim>\<open>SizeHint::set_upper\<close> panics below the lower bound.\<close>

record size_hint =
  lower :: nat
  upper :: "nat option"

definition set_upper :: "nat \<Rightarrow> size_hint \<Rightarrow> size_hint option" where
  "set_upper v h = (if v \<ge> lower h then Some (h\<lparr>upper := Some v\<rparr>) else None)"

definition truncate_size_hint :: "nat \<Rightarrow> size_hint \<Rightarrow> size_hint option" where
  "truncate_size_hint limit hint =
     (if lower hint \<ge> limit then Some \<lparr>lower = limit, upper = Some limit\<rparr>
      else (case upper hint of
              Some m \<Rightarrow> set_upper (min limit m) hint
            | None \<Rightarrow> set_upper limit hint))"

definition hint_covers :: "size_hint \<Rightarrow> nat \<Rightarrow> bool" where
  "hint_covers h n \<longleftrightarrow> lower h \<le> n \<and> (case upper h of None \<Rightarrow> True | Some m \<Rightarrow> n \<le> m)"

lemma truncate_size_hint_covers:
  assumes "hint_covers h n"
  shows "\<exists>h'. truncate_size_hint limit h = Some h' \<and> hint_covers h' (min limit n)"
  using assms by (auto simp: truncate_size_hint_def set_upper_def hint_covers_def split: option.splits)

end
