(* ===== verification/FileReader.thy ===== *)
theory FileReader
  imports Body
begin

text \<open>
  \<^verbatim>\<open>src/file_reader.rs\<close>: the asynchronous reader behind every cache hit.  A read runs as a task on
  the I/O pool; the model receives what the task does as an event.  \<^verbatim>\<open>File::read\<close> may return
  fewer bytes than asked for, but at least one before the end of the file: the number granted by
  the operating system is part of the event.  The reader is shown to be a body (\<^verbatim>\<open>live_body\<close>)
  whose rest is the file from the current position on.
\<close>

record open_file =
  file_data :: bytes
  file_pos :: nat

datatype task_event = TaskPending | TaskPanicked | TaskRead "io_error + nat"

type_synonym task_result = "open_file \<times> bytes"

definition read_file :: "io_error + nat \<Rightarrow> task_result \<Rightarrow> nat \<Rightarrow> (io_error \<times> task_result) + task_result" where
  "read_file os t capacity =
     (case t of (file, buf) \<Rightarrow>
      (case os of
         Inr n \<Rightarrow>
           let size = min (min capacity (length (file_data file) - file_pos file)) (max 1 n)
           in Inr (file\<lparr>file_pos := file_pos file + size\<rparr>, take size (drop (file_pos file) (file_data file)))
       | Inl err \<Rightarrow> Inl (err, file, replicate capacity 0)))"

datatype reader_state = RState "task_result option" | RFuture task_result

record file_reader =
  rd_state :: reader_state
  rd_capacity :: nat

definition reader_new :: "open_file \<Rightarrow> nat \<Rightarrow> file_reader" where
  "reader_new file capacity = \<lparr>rd_state = RState (Some (file, [])), rd_capacity = capacity\<rparr>"

text \<open>\<^verbatim>\<open>FileReader::read\<close>: \<open>join\<close> is what the awaited task delivers, \<^const>\<open>None\<close> for a join error, which
  leaves the taken state empty.\<close>

definition reader_read :: "(io_error + nat) option \<Rightarrow> file_reader \<Rightarrow> (io_error + bytes) \<times> file_reader" where
  "reader_read join r =
     (case rd_state r of
        RFuture _ \<Rightarrow> (Inl ResourceBusy, r)
      | RState None \<Rightarrow> (Inl ResourceBusy, r)
      | RState (Some t) \<Rightarrow>
          (case join of
             None \<Rightarrow> (Inl JoinFailed, r\<lparr>rd_state := RState None\<rparr>)
           | Some os \<Rightarrow>
               (case read_file os t (rd_capacity r) of
                  Inr (file, buf) \<Rightarrow> (Inr buf, r\<lparr>rd_state := RState (Some (file, []))\<rparr>)
                | Inl (err, t) \<Rightarrow> (Inl err, r\<lparr>rd_state := RState (Some t)\<rparr>))))"

text \<open>\<^verbatim>\<open>FileReader::seek\<close>: \<open>join\<close> is the answer of \<^verbatim>\<open>File::seek\<close>, \<^const>\<open>None\<close> for a join error.\<close>

definition reader_seek :: "(io_error + unit) option \<Rightarrow> nat \<Rightarrow> file_reader \<Rightarrow> (io_error + unit) \<times> file_reader" where
  "reader_seek join offset r =
     (case rd_state r of
        RFuture _ \<Rightarrow> (Inl ResourceBusy, r)
      | RState None \<Rightarrow> (Inl ResourceBusy, r)
      | RState (Some (file, buf)) \<Rightarrow>
          (case join of
             None \<Rightarrow> (Inl JoinFailed, r\<lparr>rd_state := RState None\<rparr>)
           | Some (Inr _) \<Rightarrow> (Inr (), r\<lparr>rd_state := RState (Some (file\<lparr>file_pos := offset\<rparr>, buf))\<rparr>)
           | Some (Inl err) \<Rightarrow> (Inl err, r\<lparr>rd_state := RState (Some (file, buf))\<rparr>)))"

text \<open>\<^verbatim>\<open>Stream::poll_next\<close>: the loop first turns an idle state into a running task, then polls it.\<close>

definition poll_task :: "task_event \<Rightarrow> task_result \<Rightarrow> file_reader \<Rightarrow> (io_error + bytes) option poll \<times> file_reader" where
  "poll_task e t r =
     (case e of
        TaskPending \<Rightarrow> (Pending, r\<lparr>rd_state := RFuture t\<rparr>)
      | TaskPanicked \<Rightarrow> (Ready (Some (Inl JoinFailed)), r\<lparr>rd_state := RFuture t\<rparr>)
      | TaskRead os \<Rightarrow>
          (case read_file os t (rd_capacity r) of
             Inr (file, buf) \<Rightarrow>
               (if buf = [] then Ready None else Ready (Some (Inr buf)),
                r\<lparr>rd_state := RState (Some (file, []))\<rparr>)
           | Inl (err, t) \<Rightarrow> (Ready (Some (Inl err)), r\<lparr>rd_state := RState (Some t)\<rparr>)))"

definition reader_poll_next :: "task_event \<Rightarrow> file_reader \<Rightarrow> (io_error + bytes) option poll \<times> file_reader" where
  "reader_poll_next e r =
     (case rd_state r of
        RState None \<Rightarrow> (Ready (Some (Inl ResourceBusy)), r)
      | RState (Some t) \<Rightarrow> poll_task e t r
      | RFuture t \<Rightarrow> poll_task e t r)"

text \<open>\<^verbatim>\<open>Body::from_stream\<close>: every item of a stream of bytes is a data frame.\<close>

definition stream_frame :: "(io_error + bytes) option poll \<Rightarrow> frame_poll" where
  "stream_frame p =
     (case p of
        Pending \<Rightarrow> Pending
      | Ready None \<Rightarrow> Ready None
      | Ready (Some (Inl err)) \<Rightarrow> Ready (Some (Inl err))
      | Ready (Some (Inr d)) \<Rightarrow> Ready (Some (Inr (Data d))))"

definition reader_poll :: "task_event \<Rightarrow> file_reader \<Rightarrow> frame_poll \<times> file_reader" where
  "reader_poll e r = (case reader_poll_next e r of (p, r') \<Rightarrow> (stream_frame p, r'))"

section \<open>The reader is a body\<close>

definition reader_task :: "file_reader \<Rightarrow> task_result option" where
  "reader_task r = (case rd_state r of RState t \<Rightarrow> t | RFuture t \<Rightarrow> Some t)"

definition reader_ok :: "file_reader \<Rightarrow> bool" where
  "reader_ok r \<longleftrightarrow> reader_task r \<noteq> None \<and> 0 < rd_capacity r"

definition reader_rest :: "file_reader \<Rightarrow> bytes" where
  "reader_rest r = (case reader_task r of None \<Rightarrow> [] | Some (f, _) \<Rightarrow> drop (file_pos f) (file_data f))"

definition reader_good :: "task_event \<Rightarrow> file_reader \<Rightarrow> bool" where
  "reader_good e r \<longleftrightarrow> (case e of TaskRead (Inr _) \<Rightarrow> True | _ \<Rightarrow> False)"

lemma reader_poll_task:
  "reader_task r = Some t \<Longrightarrow> reader_poll e r = (case poll_task e t r of (p, r') \<Rightarrow> (stream_frame p, r'))"
  by (auto simp: reader_poll_def reader_poll_next_def reader_task_def split: reader_state.splits option.splits)

lemma reader_rest_task: "reader_task r = Some (f, b) \<Longrightarrow> reader_rest r = drop (file_pos f) (file_data f)"
  by (simp add: reader_rest_def)

lemma reader_task_upd [simp]:
  "reader_task (r\<lparr>rd_state := RState t\<rparr>) = t" "reader_task (r\<lparr>rd_state := RFuture x\<rparr>) = Some x"
  by (simp_all add: reader_task_def)

lemma read_file_split:
  "read_file (Inr n) (f, b) c = Inr (f', d) \<Longrightarrow>
     drop (file_pos f) (file_data f) = d @ drop (file_pos f') (file_data f') \<and> file_data f' = file_data f"
  by (auto simp: read_file_def Let_def) (metis add.commute append_take_drop_id drop_drop)

lemma read_file_empty:
  "read_file (Inr n) (f, b) c = Inr (f', []) \<Longrightarrow> 0 < c \<Longrightarrow> drop (file_pos f) (file_data f) = []"
  by (auto simp: read_file_def Let_def min_def max_def split: if_splits)

interpretation fr: live_body reader_poll reader_ok reader_rest reader_good
proof unfold_locales
  fix r e p r'
  assume ok: "reader_ok r" and p: "reader_poll e r = (p, r')"
  then obtain f b where t: "reader_task r = Some (f, b)" and c: "0 < rd_capacity r"
    by (auto simp: reader_ok_def)
  note poll = p [unfolded reader_poll_task [OF t]]
  show "reader_ok r'"
    using poll c
    by (auto simp: poll_task_def reader_ok_def split: task_event.splits sum.splits prod.splits)
  show "poll_law reader_rest r p r'"
  proof (cases e)
    case (TaskRead os)
    show ?thesis
    proof (cases os)
      case (Inl err)
      with TaskRead poll show ?thesis
        by (auto simp: poll_task_def read_file_def poll_law_def stream_frame_def reader_rest_task t)
    next
      case (Inr n)
      obtain f' d where d: "read_file (Inr n) (f, b) (rd_capacity r) = Inr (f', d)"
        by (simp add: read_file_def Let_def)
      with TaskRead Inr poll read_file_split [OF d] read_file_empty [of n f b _ f'] c
      show ?thesis
        by (auto simp: poll_task_def poll_law_def stream_frame_def reader_rest_task t split: if_splits)
    qed
  qed (use poll t in \<open>auto simp: poll_task_def poll_law_def stream_frame_def reader_rest_task\<close>)
  assume "reader_good e r"
  then obtain n where e: "e = TaskRead (Inr n)"
    by (auto simp: reader_good_def split: task_event.splits sum.splits)
  obtain f' d where "read_file (Inr n) (f, b) (rd_capacity r) = Inr (f', d)"
    by (simp add: read_file_def Let_def)
  with poll show "p = Ready None \<or> (\<exists>d. p = Ready (Some (Inr (Data d))) \<and> d \<noteq> [])"
    by (auto simp: e poll_task_def stream_frame_def split: if_splits)
qed

interpretation frt: truncated reader_poll reader_ok reader_rest reader_good
  by unfold_locales

lemma reader_new_ok [simp]: "0 < c \<Longrightarrow> reader_ok (reader_new f c)"
  by (simp add: reader_ok_def reader_new_def reader_task_def)

lemma reader_new_rest [simp]: "reader_rest (reader_new f c) = drop (file_pos f) (file_data f)"
  by (simp add: reader_rest_def reader_new_def reader_task_def)

text \<open>Seeking moves the rest; a failed seek leaves the reader as it was.\<close>

lemma reader_seek_new:
  "reader_seek (Some (Inr ())) off (reader_new f c) = (Inr (), reader_new (f\<lparr>file_pos := off\<rparr>) c)"
  by (simp add: reader_seek_def reader_new_def)

lemma reader_seek_failed: "reader_seek (Some (Inl err)) off (reader_new f c) = (Inl err, reader_new f c)"
  by (simp add: reader_seek_def reader_new_def)

section \<open>Properties\<close>

text \<open>
  C10.  Range requests, safety: a reader that was moved to the start of a range and wrapped in a
  \<^verbatim>\<open>TruncateBody\<close> with the length of the range delivers, under every schedule of the I/O tasks and
  every read error, only a prefix of the bytes of that range, and exactly those bytes when it
  announces the end.
\<close>

theorem range_body_safe:
  assumes "reader_seek (Some (Inr ())) start (reader_new f c) = (Inr (), r)" and "0 < c"
    and "run_body (truncate_poll reader_poll) es (len, r) = (d, s, b)"
  shows "(s = Ended \<longrightarrow> d = take len (drop start (file_data f))) \<and>
    (\<exists>t. take len (drop start (file_data f)) = d @ t)"
proof -
  from assms(1) have r: "r = reader_new (f\<lparr>file_pos := start\<rparr>) c" by (simp add: reader_seek_new)
  with assms(2) have "reader_ok (snd (len, r))" by simp
  from frt.trunc.run_body_sound [OF this assms(3)] show ?thesis
    by (cases "s = Ended") (auto simp: truncated_rest_def r)
qed

definition sample_file :: open_file where
  "sample_file = \<lparr>file_data = [10, 11, 12, 13, 14, 15, 16], file_pos = 0\<rparr>"

theorem range_body_safe_witness:
  "run_body (truncate_poll reader_poll)
     [TaskRead (Inr 1), TaskPending, TaskRead (Inl (OsError 5))]
     (4, reader_new (sample_file\<lparr>file_pos := 2\<rparr>) 3) =
     ([12], Failed (OsError 5), 3, reader_new (sample_file\<lparr>file_pos := 3\<rparr>) 3\<lparr>rd_state :=
        RState (Some (sample_file\<lparr>file_pos := 3\<rparr>, [0, 0, 0]))\<rparr>) \<and>
   (\<exists>t. take 4 (drop 2 (file_data sample_file)) = [12] @ t)"
proof -
  let ?r = "reader_new (sample_file\<lparr>file_pos := 2\<rparr>) 3"
  have r: "reader_seek (Some (Inr ())) 2 (reader_new sample_file 3) = (Inr (), ?r)"
    by (simp add: reader_seek_new)
  have run: "run_body (truncate_poll reader_poll) [TaskRead (Inr 1), TaskPending, TaskRead (Inl (OsError 5))] (4, ?r) =
     ([12], Failed (OsError 5), 3, reader_new (sample_file\<lparr>file_pos := 3\<rparr>) 3\<lparr>rd_state :=
        RState (Some (sample_file\<lparr>file_pos := 3\<rparr>, [0, 0, 0]))\<rparr>)"
    by (simp add: sample_file_def reader_new_def truncate_poll_def reader_poll_def reader_poll_next_def
        poll_task_def read_file_def stream_frame_def numeral_eq_Suc)
  show ?thesis using run range_body_safe [OF r _ run] by simp
qed

text \<open>
  C25.  Range requests, completeness: when the reads succeed, polling delivers the whole range and
  ends, after at most one poll more than there are bytes in the range.
\<close>

theorem range_body_complete:
  assumes "start + len \<le> length (file_data f)" and "0 < c"
    and "\<And>e. e \<in> set es \<Longrightarrow> \<exists>n. e = TaskRead (Inr n)" and "len < length es"
  shows "\<exists>b. run_body (truncate_poll reader_poll) es
    (len, snd (reader_seek (Some (Inr ())) start (reader_new f c))) =
    (take len (drop start (file_data f)), Ended, b)"
proof -
  let ?b = "(len, reader_new (f\<lparr>file_pos := start\<rparr>) c)"
  have "reader_ok (snd ?b)" using assms(2) by simp
  moreover have "reader_good e (snd b)" if "e \<in> set es" for e and b :: "nat \<times> file_reader"
    using assms(3) [OF that] by (auto simp: reader_good_def)
  moreover have rest: "truncated_rest reader_rest ?b = take len (drop start (file_data f))"
    by (simp add: truncated_rest_def)
  moreover have "length (truncated_rest reader_rest ?b) < length es"
    using assms(4) by (simp add: rest)
  ultimately show ?thesis
    using frt.trunc.run_body_complete [of ?b es] by (auto simp: reader_seek_new)
qed

theorem range_body_complete_witness:
  "\<exists>b. run_body (truncate_poll reader_poll) (replicate 4 (TaskRead (Inr 0)))
    (3, snd (reader_seek (Some (Inr ())) 2 (reader_new sample_file 65536))) = ([12, 13, 14], Ended, b)"
proof -
  have "2 + 3 \<le> length (file_data sample_file)" by (simp add: sample_file_def)
  from range_body_complete [OF this, of 65536 "replicate 4 (TaskRead (Inr 0))"]
  show ?thesis by (auto simp: sample_file_def)
qed

text \<open>
  \<^verbatim>\<open>TruncateBody::size_hint\<close> never reaches the panic of \<^verbatim>\<open>SizeHint::set_upper\<close> on a consistent
  hint, and its answer is a correct hint for the truncated length.
\<close>

theorem truncate_size_hint_sound:
  assumes "hint_covers h n"
  shows "\<exists>h'. truncate_size_hint limit h = Some h' \<and> hint_covers h' (min limit n)"
  using assms by (rule truncate_size_hint_covers)

theorem truncate_size_hint_sound_witness:
  "hint_covers \<lparr>lower = 3, upper = Some 9\<rparr> 7 \<and>
   (\<exists>h'. truncate_size_hint 5 \<lparr>lower = 3, upper = Some 9\<rparr> = Some h' \<and> hint_covers h' (min 5 7))"
proof -
  have h: "hint_covers \<lparr>lower = 3, upper = Some 9\<rparr> 7" by (simp add: hint_covers_def)
  show ?thesis using h truncate_size_hint_sound [OF h, of 5] by blast
qed

end
