(* ===== verification/CacheGet.thy ===== *)
theory CacheGet
  imports CacheStore FileReader
begin

text \<open>
  \<^verbatim>\<open>src/cache_manager.rs\<close>, \<^verbatim>\<open>get_file\<close>.  A file used in the last week is streamed as it is, from the
  requested offset on.  An older one is read from its beginning by a task that hashes it, forwards
  the part behind the offset through a channel, and removes the file from the cache when the hash
  is wrong.  The channel delivers what the task sends, in order; the task goes on when the receiver
  is gone.
\<close>

datatype 's cache_file_result = Full 's | Partial 's | NotFound

record verify_task =
  vt_info :: cache_file_info
  vt_size :: nat
  vt_offset :: "nat option"
  vt_reader :: file_reader

datatype file_stream = ReaderStream file_reader | TaskStream verify_task

text \<open>What \<^verbatim>\<open>File::seek\<close> answers is part of the environment: \<^const>\<open>OpSeek\<close> fails or not.\<close>

definition seek_join :: "io_env \<Rightarrow> path \<Rightarrow> (io_error + unit) option" where
  "seek_join E path = (if io_fails E OpSeek path then Some (Inl (OsError 22)) else Some (Inr ()))"

definition one_week :: int where
  "one_week = 60 * 60 * 24 * 7 * 1000000000"

definition get_file :: "extern \<Rightarrow> io_env \<Rightarrow> cache_file_info \<Rightarrow> nat option \<Rightarrow> cache_manager
    \<Rightarrow> file_stream cache_file_result \<times> cache_manager" where
  "get_file X E info offset cm =
     (let path = to_path (x_enc X) info (cache_dir cm) in
      case fs_metadata E path (disk cm) of
        None \<Rightarrow> (NotFound, cm)
      | Some Dir \<Rightarrow> (NotFound, cm)
      | Some (File f) \<Rightarrow>
          if length (f_data f) \<noteq> unat (fi_size info) then (NotFound, cm)
          else if io_fails E OpOpen path then (NotFound, cm)
          else
            let reader = reader_new \<lparr>file_data = f_data f, file_pos = 0\<rparr> (64 * 1024) in
            if f_mtime f \<ge> clock E - one_week
            then (case offset of
                    None \<Rightarrow> (Full (ReaderStream reader), cm)
                  | Some o' \<Rightarrow>
                      if o' \<noteq> 0
                      then (case reader_seek (seek_join E path) o' reader of
                              (Inr _, reader) \<Rightarrow> (Partial (ReaderStream reader), cm)
                            | (Inl _, reader) \<Rightarrow> (Full (ReaderStream reader), cm))
                      else (Full (ReaderStream reader), cm))
            else
              let cm = mark_recently_accessed X E info cm;
                  stream = TaskStream \<lparr>vt_info = info, vt_size = length (f_data f), vt_offset = offset, vt_reader = reader\<rparr>
              in (if offset = None then Full stream else Partial stream, cm))"

section \<open>The verifying task\<close>

definition offset_part :: "nat option \<Rightarrow> nat \<Rightarrow> bytes \<Rightarrow> bytes list" where
  "offset_part offset read_off buffer =
     (case offset of
        None \<Rightarrow> [buffer]
      | Some o' \<Rightarrow>
          if o' < read_off
          then (if o' > read_off - length buffer
                then [drop (length buffer - (read_off - o')) buffer]
                else [buffer])
          else [])"

text \<open>The read loop.  Each read consumes one answer of the pool; \<^const>\<open>None\<close> is a task still reading.  The
  result is what was sent and, unless a read failed, the bytes that were hashed.\<close>

fun verify_loop :: "nat \<Rightarrow> nat option \<Rightarrow> (io_error + nat) option list \<Rightarrow> file_reader \<Rightarrow> nat \<Rightarrow> bytes
    \<Rightarrow> ((io_error + bytes) list \<times> bytes option) option" where
  "verify_loop file_size offset joins reader read_off hashed =
     (if read_off < file_size
      then (case joins of
              [] \<Rightarrow> None
            | join # joins \<Rightarrow>
                (case reader_read join reader of
                   (Inl err, reader) \<Rightarrow> Some ([Inl err], None)
                 | (Inr buffer, reader) \<Rightarrow>
                     map_option (\<lambda>(sent, h). (map Inr (offset_part offset (read_off + length buffer) buffer) @ sent, h))
                       (verify_loop file_size offset joins reader (read_off + length buffer) (hashed @ buffer))))
      else Some ([], Some hashed))"

declare verify_loop.simps [simp del]

definition run_verify :: "extern \<Rightarrow> io_env \<Rightarrow> (io_error + nat) option list \<Rightarrow> verify_task \<Rightarrow> cache_manager
    \<Rightarrow> ((io_error + bytes) list \<times> cache_manager) option" where
  "run_verify X E joins t cm =
     (case verify_loop (vt_size t) (vt_offset t) joins (vt_reader t) 0 [] of
        None \<Rightarrow> None
      | Some (sent, None) \<Rightarrow> Some (sent, cm)
      | Some (sent, Some hashed) \<Rightarrow>
          if x_sha1 X hashed \<noteq> fi_hash (vt_info t)
          then Some (sent, snd (remove_cache X E (vt_info t) cm))
          else Some (sent, cm))"

section \<open>The task reads and forwards the whole file\<close>

definition reader_at :: "bytes \<Rightarrow> nat \<Rightarrow> nat \<Rightarrow> file_reader" where
  "reader_at data pos cap = \<lparr>rd_state = RState (Some (\<lparr>file_data = data, file_pos = pos\<rparr>, [])), rd_capacity = cap\<rparr>"

definition sent_bytes :: "(io_error + bytes) list \<Rightarrow> bytes" where
  "sent_bytes sent = concat (List.map_filter (\<lambda>s. case s of Inr b \<Rightarrow> Some b | Inl _ \<Rightarrow> None) sent)"

lemma sent_bytes_simps [simp]:
  "sent_bytes [] = []" "sent_bytes (Inr b # s) = b @ sent_bytes s" "sent_bytes (Inl e # s) = sent_bytes s"
  "sent_bytes (xs @ ys) = sent_bytes xs @ sent_bytes ys"
  by (simp_all add: sent_bytes_def map_filter_def)

lemma reader_read_at:
  assumes "pos < length data" "0 < cap"
  obtains k where "0 < k" "pos + k \<le> length data"
    "reader_read (Some (Inr n)) (reader_at data pos cap) = (Inr (take k (drop pos data)), reader_at data (pos + k) cap)"
proof
  let ?k = "min (min cap (length data - pos)) (max 1 n)"
  show "0 < ?k" "pos + ?k \<le> length data" using assms by auto
  show "reader_read (Some (Inr n)) (reader_at data pos cap) = (Inr (take ?k (drop pos data)), reader_at data (pos + ?k) cap)"
    by (simp add: reader_read_def reader_at_def read_file_def Let_def)
qed

lemma offset_part_bytes:
  assumes "pos + k \<le> length data"
  shows "concat (offset_part offset (pos + k) (take k (drop pos data))) =
    take (pos + k - max pos (case offset of None \<Rightarrow> 0 | Some o' \<Rightarrow> o')) (drop (max pos (case offset of None \<Rightarrow> 0 | Some o' \<Rightarrow> o')) data)"
proof (cases offset)
  case (Some o')
  with assms show ?thesis
    by (cases "o' < pos + k"; cases "o' > pos") (auto simp: offset_part_def max_def drop_take add.commute)
qed (use assms in \<open>auto simp: offset_part_def\<close>)

definition all_sent :: "(io_error + bytes) list \<Rightarrow> bool" where
  "all_sent sent \<longleftrightarrow> (\<forall>s \<in> set sent. case s of Inr b \<Rightarrow> b \<noteq> [] | Inl _ \<Rightarrow> False)"

lemma offset_part_nonempty:
  assumes "0 < length buffer" "b \<in> set (offset_part offset read_off buffer)"
  shows "b \<noteq> []"
  using assms by (auto simp: offset_part_def split: option.splits if_splits)

lemma sent_bytes_map [simp]: "sent_bytes (map Inr bs) = concat bs"
  by (induction bs) auto

lemma verify_loop_complete:
  assumes "\<forall>j \<in> set joins. \<exists>n. j = Some (Inr n)" "length data \<le> pos + length joins" "pos \<le> length data" "0 < cap"
  shows "\<exists>sent. verify_loop (length data) offset joins (reader_at data pos cap) pos (take pos data) = Some (sent, Some data) \<and>
    all_sent sent \<and> sent_bytes sent = drop (max pos (case offset of None \<Rightarrow> 0 | Some o' \<Rightarrow> o')) data"
  using assms(1-3)
proof (induction joins arbitrary: pos)
  case Nil
  then show ?case by (subst verify_loop.simps) (simp add: all_sent_def)
next
  case (Cons j joins)
  show ?case
  proof (cases "pos < length data")
    case False
    with Cons.prems show ?thesis by (subst verify_loop.simps) (simp add: all_sent_def)
  next
    case True
    from Cons.prems(1) obtain n where j: "j = Some (Inr n)" by auto
    from reader_read_at [OF True assms(4), of n] obtain k where k: "0 < k" "pos + k \<le> length data"
      "reader_read (Some (Inr n)) (reader_at data pos cap) = (Inr (take k (drop pos data)), reader_at data (pos + k) cap)"
      by blast
    have len: "length (take k (drop pos data)) = k" using k by simp
    have "length data \<le> pos + k + length joins" using Cons.prems(2) k(1) by simp
    then obtain sent where s: "verify_loop (length data) offset joins (reader_at data (pos + k) cap) (pos + k) (take (pos + k) data) =
        Some (sent, Some data)" "all_sent sent"
        "sent_bytes sent = drop (max (pos + k) (case offset of None \<Rightarrow> 0 | Some o' \<Rightarrow> o')) data"
      using Cons.IH [of "pos + k"] Cons.prems(1) k(2) by auto
    let ?o = "case offset of None \<Rightarrow> 0 | Some o' \<Rightarrow> o'"
    have "take (pos + k - max pos ?o) (drop (max pos ?o) data) @ drop (max (pos + k) ?o) data = drop (max pos ?o) data"
    proof (cases "?o \<le> pos + k")
      case True
      then have "max (pos + k) ?o = (pos + k - max pos ?o) + max pos ?o" by simp
      then show ?thesis by (metis append_take_drop_id drop_drop)
    qed (simp add: max_def)
    with s k(2) True show ?thesis
      using offset_part_nonempty [of "take k (drop pos data)" _ offset "pos + k"] k(1)
      by (subst verify_loop.simps)
        (auto simp: j k(3) len take_add [symmetric] all_sent_def offset_part_bytes [OF k(2)] simp del: take_append)
  qed
qed

section \<open>The receiving end of the channel as a body\<close>

text \<open>\<^verbatim>\<open>rx.recv()\<close>: an item, the end when the sender is gone, or nothing yet.\<close>

definition channel_poll :: "bool \<Rightarrow> (io_error + bytes) list \<Rightarrow> frame_poll \<times> (io_error + bytes) list" where
  "channel_poll got items =
     (if \<not> got then (Pending, items)
      else (case items of
              [] \<Rightarrow> (Ready None, [])
            | Inr b # rest \<Rightarrow> (Ready (Some (Inr (Data b))), rest)
            | Inl err # rest \<Rightarrow> (Ready (Some (Inl err)), rest)))"

interpretation ch: live_body channel_poll all_sent sent_bytes "\<lambda>got _. got"
  by unfold_locales
    (auto simp: channel_poll_def all_sent_def poll_law_def split: if_splits list.splits sum.splits)

interpretation cht: truncated channel_poll all_sent sent_bytes "\<lambda>got _. got"
  by unfold_locales

section \<open>Properties\<close>

text \<open>The bytes a request asks for.\<close>

abbreviation from_offset :: "nat option \<Rightarrow> bytes \<Rightarrow> bytes" where
  "from_offset offset data \<equiv> drop (case offset of None \<Rightarrow> 0 | Some o' \<Rightarrow> o') data"

lemma get_file_cold:
  assumes "io_ok E" "lookup (disk cm) (to_path (x_enc X) info (cache_dir cm)) = Some (File f)"
    and "length (f_data f) = unat (fi_size info)" "f_mtime f < clock E - one_week"
  shows "get_file X E info offset cm =
    (let stream = TaskStream \<lparr>vt_info = info, vt_size = length (f_data f), vt_offset = offset, vt_reader = reader_at (f_data f) 0 65536\<rparr>
     in if offset = None then Full stream else Partial stream,
     cm\<lparr>disk := insert_map (to_path (x_enc X) info (cache_dir cm)) (File (f\<lparr>f_mtime := clock E\<rparr>)) (disk cm)\<rparr>)"
  using assms
  by (simp add: get_file_def Let_def io_ok_def fs_metadata_def mark_recently_accessed_def fs_set_mtime_def reader_new_def
      reader_at_def)

lemma get_file_recent:
  assumes "io_ok E" "lookup (disk cm) (to_path (x_enc X) info (cache_dir cm)) = Some (File f)"
    and "length (f_data f) = unat (fi_size info)" "clock E - one_week \<le> f_mtime f"
  shows "get_file X E info offset cm =
    (let stream = ReaderStream (reader_new \<lparr>file_data = f_data f, file_pos = (case offset of None \<Rightarrow> 0 | Some o' \<Rightarrow> o')\<rparr> (64 * 1024))
     in if offset = None \<or> offset = Some 0 then Full stream else Partial stream, cm)"
  using assms
  by (auto simp: get_file_def Let_def io_ok_def fs_metadata_def seek_join_def reader_seek_new split: option.split)

text \<open>
  C7.  A file that was not used for a week: whatever chunk sizes the reads return, the stream carries
  exactly the bytes from the requested offset on, the file becomes recently used, and it is removed
  from the cache if and only if its SHA-1 differs from the hash in its name.
\<close>

theorem cold_file_served_and_verified:
  assumes "io_ok E" "lookup (disk cm) path = Some (File f)" "path = to_path (x_enc X) info (cache_dir cm)"
    and "length (f_data f) = unat (fi_size info)" "f_mtime f < clock E - one_week"
    and "\<forall>j \<in> set joins. \<exists>n. j = Some (Inr n)" "length (f_data f) \<le> length joins"
  shows "\<exists>t cm1 sent cm2. get_file X E info offset cm = (if offset = None then Full (TaskStream t) else Partial (TaskStream t), cm1) \<and>
    lookup (disk cm1) path = Some (File (f\<lparr>f_mtime := clock E\<rparr>)) \<and>
    run_verify X E joins t cm1 = Some (sent, cm2) \<and>
    all_sent sent \<and> sent_bytes sent = from_offset offset (f_data f) \<and>
    (lookup (disk cm2) path = None \<longleftrightarrow> x_sha1 X (f_data f) \<noteq> fi_hash info)"
proof -
  let ?t = "\<lparr>vt_info = info, vt_size = length (f_data f), vt_offset = offset, vt_reader = reader_at (f_data f) 0 65536\<rparr>"
  let ?cm1 = "cm\<lparr>disk := insert_map path (File (f\<lparr>f_mtime := clock E\<rparr>)) (disk cm)\<rparr>"
  obtain sent where s: "verify_loop (length (f_data f)) offset joins (reader_at (f_data f) 0 65536) 0 [] = Some (sent, Some (f_data f))"
    "all_sent sent" "sent_bytes sent = from_offset offset (f_data f)"
    using verify_loop_complete [of joins "f_data f" 0 65536 offset] assms(6,7) by auto
  let ?cm2 = "if x_sha1 X (f_data f) \<noteq> fi_hash info then snd (remove_cache X E info ?cm1) else ?cm1"
  have "run_verify X E joins ?t ?cm1 = Some (sent, ?cm2)" by (simp add: run_verify_def s)
  moreover have "lookup (disk ?cm2) path = None \<longleftrightarrow> x_sha1 X (f_data f) \<noteq> fi_hash info"
    using assms(1,3) by (simp add: remove_cache_def Let_def io_ok_def fs_metadata_def fs_filesize_def fs_remove_file_def)
  moreover have "get_file X E info offset cm = (if offset = None then Full (TaskStream ?t) else Partial (TaskStream ?t), ?cm1)"
    using get_file_cold [of E cm X info f offset] assms by (simp add: Let_def)
  ultimately show ?thesis using s by fastforce
qed

theorem cold_file_served_and_verified_witness:
  "\<exists>t cm1 sent cm2.
     get_file sample_ext sample_env (sample_info\<lparr>fi_size := 3\<rparr>) (Some 1)
       (sample_manager [(to_path hex_encode (sample_info\<lparr>fi_size := 3\<rparr>) ''c'', File \<lparr>f_data = [7, 8, 9], f_mtime = 0\<rparr>)] []) =
       (Partial (TaskStream t), cm1) \<and>
     run_verify sample_ext sample_env (replicate 3 (Some (Inr 2))) t cm1 = Some (sent, cm2) \<and> sent_bytes sent = [8, 9]"
proof -
  let ?i = "sample_info\<lparr>fi_size := 3\<rparr>" and ?f = "\<lparr>f_data = [7, 8, 9], f_mtime = 0\<rparr>"
  let ?cm = "sample_manager [(to_path hex_encode ?i ''c'', File ?f)] []"
  have "lookup (disk ?cm) (to_path hex_encode ?i ''c'') = Some (File ?f)" "cache_dir ?cm = ''c''"
    by (simp_all add: sample_manager_def)
  then show ?thesis
    using cold_file_served_and_verified [of sample_env ?cm "to_path hex_encode ?i ''c''" ?f sample_ext ?i
        "replicate 3 (Some (Inr 2))" "Some 1"]
    by (fastforce simp: one_week_def from_unix_time_def)
qed

text \<open>
  A recently used file: the stream delivers exactly the bytes from the requested offset on and
  ends, after at most one poll more than it has bytes, and the cache is left as it is.
\<close>

theorem recent_file_streamed:
  assumes "io_ok E" "lookup (disk cm) (to_path (x_enc X) info (cache_dir cm)) = Some (File f)"
    and "length (f_data f) = unat (fi_size info)" "clock E - one_week \<le> f_mtime f"
    and "\<forall>e \<in> set es. \<exists>n. e = TaskRead (Inr n)" "length (f_data f) < length es"
  shows "\<exists>r b. get_file X E info offset cm =
      (if offset = None \<or> offset = Some 0 then Full (ReaderStream r) else Partial (ReaderStream r), cm) \<and>
    run_body reader_poll es r = (from_offset offset (f_data f), Ended, b)"
proof -
  let ?r = "reader_new \<lparr>file_data = f_data f, file_pos = (case offset of None \<Rightarrow> 0 | Some o' \<Rightarrow> o')\<rparr> (64 * 1024)"
  have "get_file X E info offset cm =
      (if offset = None \<or> offset = Some 0 then Full (ReaderStream ?r) else Partial (ReaderStream ?r), cm)"
    using get_file_recent [OF assms(1-4)] by (simp add: Let_def)
  moreover have "\<exists>b. run_body reader_poll es ?r = (reader_rest ?r, Ended, b)"
  proof (rule fr.run_body_complete)
    show "reader_good e b" if "e \<in> set es" for e b using assms(5) that by (auto simp: reader_good_def)
  qed (use assms(6) in auto)
  ultimately show ?thesis by auto
qed

theorem recent_file_streamed_witness:
  "\<exists>r b. get_file sample_ext sample_env (sample_info\<lparr>fi_size := 3\<rparr>) None
       (sample_manager [(to_path hex_encode (sample_info\<lparr>fi_size := 3\<rparr>) ''c'',
          File \<lparr>f_data = [7, 8, 9], f_mtime = from_unix_time 1999999999\<rparr>)] []) = (Full (ReaderStream r), b) \<and>
     fst (run_body reader_poll (replicate 4 (TaskRead (Inr 1))) r) = [7, 8, 9]"
proof -
  let ?i = "sample_info\<lparr>fi_size := 3\<rparr>" and ?f = "\<lparr>f_data = [7, 8, 9], f_mtime = from_unix_time 1999999999\<rparr>"
  let ?cm = "sample_manager [(to_path hex_encode ?i ''c'', File ?f)] []"
  have "lookup (disk ?cm) (to_path hex_encode ?i ''c'') = Some (File ?f)" "cache_dir ?cm = ''c''"
    by (simp_all add: sample_manager_def)
  then show ?thesis
    using recent_file_streamed [of sample_env ?cm sample_ext ?i ?f "replicate 4 (TaskRead (Inr 1))" None]
    by (fastforce simp: one_week_def from_unix_time_def)
qed

lemma verify_loop_short:
  assumes "length data < file_size" "pos \<le> length data" "\<forall>j \<in> set joins. \<exists>n. j = Some (Inr n)"
  shows "verify_loop file_size offset joins (reader_at data pos cap) pos hashed = None"
  using assms
proof (induction joins arbitrary: pos hashed)
  case Nil
  then show ?case by (subst verify_loop.simps) simp
next
  case (Cons j joins)
  then obtain n where j: "j = Some (Inr n)" by auto
  let ?k = "min (min cap (length data - pos)) (max 1 n)"
  have r: "reader_read j (reader_at data pos cap) = (Inr (take ?k (drop pos data)), reader_at data (pos + ?k) cap)"
    by (simp add: j reader_read_def reader_at_def read_file_def Let_def)
  have "pos + ?k \<le> length data" using Cons.prems(2) by simp
  with Cons show ?case by (subst verify_loop.simps) (simp add: r)
qed

text \<open>
  A file cut short between the size check and the reads: the reads return nothing at its end, the
  count never reaches the size, and the verifying task does not end however often the pool answers.
\<close>

theorem verify_never_ends_on_truncated_file:
  assumes "length data < vt_size t" "vt_reader t = reader_new \<lparr>file_data = data, file_pos = 0\<rparr> cap"
    and "\<forall>j \<in> set joins. \<exists>n. j = Some (Inr n)"
  shows "run_verify X E joins t cm = None"
  using verify_loop_short [OF assms(1) _ assms(3), of 0 "vt_offset t" cap "[]"]
  by (simp add: run_verify_def assms(2) reader_new_def reader_at_def)

theorem verify_never_ends_on_truncated_file_witness:
  "run_verify sample_ext sample_env (replicate 50 (Some (Inr 4)))
     \<lparr>vt_info = sample_info, vt_size = 9, vt_offset = None, vt_reader = reader_new \<lparr>file_data = [1, 2], file_pos = 0\<rparr> 8\<rparr> (sample_manager [] []) = None"
  by (rule verify_never_ends_on_truncated_file [of "[1, 2]" _ 8]) auto

end
