(* ===== verification/Rpc.thy ===== *)
theory Rpc
  imports Hex
begin

text \<open>
  \<^verbatim>\<open>src/rpc.rs\<close> and \<^verbatim>\<open>src/error.rs\<close>: the client of the coordinating server.  Requests carry a SHA-1 over
  their fields and the client key, positive responses carry one over the time, the key and their
  body.  The network is a list of exchanges: what each request is answered with, when, and which
  server a random choice falls on.  Every request is recorded with its fields, so that what is sent
  can be stated.  \<^verbatim>\<open>url\<close>, \<^verbatim>\<open>chrono\<close>'s range of dates and the parser of IPv6 addresses are parameters.
\<close>

section \<open>error.rs\<close>

datatype error = VersionTooOld | ApiResponseFail string string | ConnectTestFail | ServerStartFail
  | InitSettingsMissing string | HashMismatch bytes bytes

definition connection_error :: "string \<Rightarrow> error" where
  "connection_error message = ApiResponseFail ''CONNECTION_FAILED'' message"

section \<open>Settings\<close>

record settings =
  set_size_limit :: u64
  set_throttle_bytes :: u64
  set_disable_logging :: bool
  set_max_connection :: u64
  set_disable_ip_check :: bool

definition max_connection :: "settings \<Rightarrow> u64" where
  "max_connection s =
     (if set_max_connection s \<noteq> 0 then set_max_connection s
      else 20 + min 480 (set_throttle_bytes s div 10000))"

definition settings_update :: "(string, string) hashmap \<Rightarrow> settings \<Rightarrow> settings" where
  "settings_update m s =
     (let s = (case Option.bind (lookup m ''disklimit_bytes'') parse_u64 of
                 Some n \<Rightarrow> s\<lparr>set_size_limit := n\<rparr> | None \<Rightarrow> s);
          s = (case Option.bind (lookup m ''throttle_bytes'') parse_u64 of
                 Some n \<Rightarrow> s\<lparr>set_throttle_bytes := n\<rparr> | None \<Rightarrow> s)
      in s\<lparr>set_disable_logging :=
             (case Option.bind (lookup m ''disable_logging'') parse_bool of Some b \<Rightarrow> b | None \<Rightarrow> False)\<rparr>)"

record rpc_init_settings =
  client_port :: u16
  client_host :: string
  init_verify_cache :: bool
  init_static_range :: "string list"

section \<open>The client\<close>

definition API_VERSION :: int where
  "API_VERSION = 181"

definition DEFAULT_SERVER :: string where
  "DEFAULT_SERVER = ''rpc.hentaiathome.net''"

record rpc_client =
  api_host :: string
  clock_offset :: int
  client_id :: int
  client_key :: string
  rpc_servers :: "string list"
  running :: bool
  rpc_settings :: settings

definition rpc_new :: "int \<Rightarrow> string \<Rightarrow> bool \<Rightarrow> u64 \<Rightarrow> string option \<Rightarrow> rpc_client" where
  "rpc_new ident key ip_check_off connections bootstrap =
     \<lparr>api_host = (case bootstrap of Some h \<Rightarrow> h | None \<Rightarrow> DEFAULT_SERVER), clock_offset = 0, client_id = ident,
      client_key = key, rpc_servers = [], running = False,
      rpc_settings = \<lparr>set_size_limit = 2 ^ 64 - 1, set_throttle_bytes = 0, set_disable_logging = False,
                      set_max_connection = connections, set_disable_ip_check = ip_check_off\<rparr>\<rparr>"

text \<open>\<^verbatim>\<open>IpAddr::from_str\<close> followed by the canonical text of \<^verbatim>\<open>update_settings\<close>: an IPv4 address is four
  decimal octets without leading zeros and prints as it was written; IPv6 is left to a parameter.\<close>

definition is_octet :: "string \<Rightarrow> bool" where
  "is_octet s \<longleftrightarrow> (case parse_digits s of None \<Rightarrow> False | Some n \<Rightarrow> n < 256 \<and> s = show_nat n)"

definition is_ipv4 :: "string \<Rightarrow> bool" where
  "is_ipv4 s \<longleftrightarrow> (let p = split_on (CHR ''.'') s in length p = 4 \<and> list_all is_octet p)"

record rpc_ext = extern +
  x_ipv6 :: "string \<Rightarrow> string option"
  x_time_ok :: "int \<Rightarrow> bool"
  x_sample :: "string list \<Rightarrow> string list"

definition canonical_ip :: "('a) rpc_ext_scheme \<Rightarrow> string \<Rightarrow> string option" where
  "canonical_ip X s = (if is_ipv4 s then Some s else x_ipv6 X s)"

text \<open>\<^verbatim>\<open>change_server\<close>: \<^verbatim>\<open>swap_remove\<close> of the current host, then a random one of the rest.\<close>

fun position :: "'a \<Rightarrow> 'a list \<Rightarrow> nat option" where
  "position x [] = None"
| "position x (y # ys) = (if y = x then Some 0 else map_option Suc (position x ys))"

definition swap_remove :: "nat \<Rightarrow> 'a list \<Rightarrow> 'a list" where
  "swap_remove i xs = (if i = length xs - 1 then butlast xs else butlast (xs[i := last xs]))"

definition random_choice :: "nat \<Rightarrow> string list \<Rightarrow> string option" where
  "random_choice pick xs = (if xs = [] then None else Some (xs ! (pick mod length xs)))"

definition change_server :: "nat \<Rightarrow> rpc_client \<Rightarrow> rpc_client" where
  "change_server pick c =
     (if length (rpc_servers c) \<le> 1 then c
      else
        let servers = (case position (api_host c) (rpc_servers c) of
                         Some pos \<Rightarrow> swap_remove pos (rpc_servers c) | None \<Rightarrow> rpc_servers c)
        in c\<lparr>api_host := (case random_choice pick servers of Some s \<Rightarrow> s | None \<Rightarrow> DEFAULT_SERVER)\<rparr>)"

definition update_settings :: "'a rpc_ext_scheme \<Rightarrow> nat \<Rightarrow> (string, string) hashmap \<Rightarrow> rpc_client \<Rightarrow> rpc_client" where
  "update_settings X pick m c =
     (let c = (case lookup m ''rpc_server_ip'' of
                 None \<Rightarrow> c
               | Some ips \<Rightarrow>
                   change_server pick
                     (c\<lparr>rpc_servers := List.map_filter (canonical_ip X) (split_on (CHR '';'') ips)\<rparr>))
      in c\<lparr>rpc_settings := settings_update m (rpc_settings c)\<rparr>)"

definition is_vaild_rpc_server :: "string \<Rightarrow> rpc_client \<Rightarrow> bool" where
  "is_vaild_rpc_server ip c \<longleftrightarrow> set_disable_ip_check (rpc_settings c) \<or> ip \<in> set (rpc_servers c)"

section \<open>Responses\<close>

record api_response =
  ar_status :: string
  ar_data :: "string list"

definition resp_is_ok :: "api_response \<Rightarrow> bool" where
  "resp_is_ok r \<longleftrightarrow> ar_status r = ''OK''"

definition is_key_expired :: "api_response \<Rightarrow> bool" where
  "is_key_expired r \<longleftrightarrow> ar_status r = ''KEY_EXPIRED''"

definition is_hash_fail :: "api_response \<Rightarrow> bool" where
  "is_hash_fail r \<longleftrightarrow> ar_status r = ''RESPONSE_HASH_FAILED''"

definition resp_to_map :: "api_response \<Rightarrow> (string, string) hashmap" where
  "resp_to_map r =
     fold (\<lambda>kv m. case split_on (CHR ''='') kv of k # v # _ \<Rightarrow> insert_map k v m | _ \<Rightarrow> m) (ar_data r) []"

definition hash_body :: "string \<Rightarrow> int \<Rightarrow> string list \<Rightarrow> string" where
  "hash_body key time data =
     show_int time @ ''-'' @ key @ (if data = [] then [] else LF # join_with [LF] data)"

definition parse_response :: "('a) extern_scheme \<Rightarrow> rpc_client \<Rightarrow> string \<Rightarrow> api_response" where
  "parse_response X c res =
     (case lines res of
        [] \<Rightarrow> \<lparr>ar_status = ''NO_RESPONSE'', ar_data = []\<rparr>
      | s # data \<Rightarrow>
          if starts_with s ''OK'' then
            let status_line = split_on (CHR ''-'') s;
                status = hd status_line;
                time = (case drop 1 status_line of
                          t # _ \<Rightarrow> (case parse_sint 32 t of Some i \<Rightarrow> i | None \<Rightarrow> 0) | [] \<Rightarrow> 0);
                hash = (case drop 2 status_line of h # _ \<Rightarrow> h | [] \<Rightarrow> [])
            in if hash \<noteq> [] \<and> string_to_hash (x_sha1 X) (x_enc X) (hash_body (client_key c) time data) = hash
               then \<lparr>ar_status = status, ar_data = data\<rparr>
               else \<lparr>ar_status = ''RESPONSE_HASH_FAILED'', ar_data = [api_host c]\<rparr>
          else \<lparr>ar_status = s, ar_data = data\<rparr>)"

section \<open>Requests\<close>

record request =
  rq_host :: string
  rq_endpoint :: string
  rq_act :: string
  rq_add :: string
  rq_cid :: string
  rq_acttime :: string
  rq_actkey :: string

text \<open>The clock of the server as the client knows it; \<^verbatim>\<open>TimeDelta::try_seconds\<close> refuses offsets whose
  milliseconds do not fit, and a date outside chrono's range falls back to the local clock.\<close>

definition get_timestemp :: "('a) rpc_ext_scheme \<Rightarrow> int \<Rightarrow> rpc_client \<Rightarrow> int" where
  "get_timestemp X now c =
     (let offset = (if \<bar>clock_offset c\<bar> \<le> 9223372036854775 then clock_offset c else 0);
          t = now + offset * 1000000000
      in if x_time_ok X t then t div 1000000000 else now div 1000000000)"

definition act_body :: "string \<Rightarrow> string \<Rightarrow> string \<Rightarrow> string \<Rightarrow> string \<Rightarrow> string" where
  "act_body action additional cid timestamp key =
     ''hentai@home-'' @ action @ ''-'' @ additional @ ''-'' @ cid @ ''-'' @ timestamp @ ''-'' @ key"

definition build_url :: "('a) rpc_ext_scheme \<Rightarrow> int \<Rightarrow> string \<Rightarrow> string \<Rightarrow> string option \<Rightarrow> rpc_client \<Rightarrow> request" where
  "build_url X now action additional endpoint c =
     (let timestamp = show_int (get_timestemp X now c); cid = show_int (client_id c) in
      \<lparr>rq_host = api_host c, rq_endpoint = (case endpoint of Some e \<Rightarrow> e | None \<Rightarrow> ''rpc''),
       rq_act = action, rq_add = additional, rq_cid = cid, rq_acttime = timestamp,
       rq_actkey = string_to_hash (x_sha1 X) (x_enc X) (act_body action additional cid timestamp (client_key c))\<rparr>)"

datatype net_error = ConnectFailed | TimedOut | StatusError nat | OtherFailure

record exchange =
  ex_reply :: "net_error + string"
  ex_now :: int
  ex_elapsed :: int
  ex_pick :: nat

record rpc_state =
  rs_client :: rpc_client
  rs_net :: "exchange list"
  rs_sent :: "request list"

text \<open>A network that has nothing more to say refuses connections.\<close>

definition dead_exchange :: exchange where
  "dead_exchange = \<lparr>ex_reply = Inl ConnectFailed, ex_now = 0, ex_elapsed = 0, ex_pick = 0\<rparr>"

definition next_exchange :: "rpc_state \<Rightarrow> exchange" where
  "next_exchange st = (case rs_net st of [] \<Rightarrow> dead_exchange | e # _ \<Rightarrow> e)"

definition send_request :: "('a) rpc_ext_scheme \<Rightarrow> string \<Rightarrow> string \<Rightarrow> string option \<Rightarrow> rpc_state \<Rightarrow> exchange \<times> rpc_state" where
  "send_request X action additional endpoint st =
     (let e = next_exchange st in
      (e, st\<lparr>rs_net := drop 1 (rs_net st),
             rs_sent := rs_sent st @ [build_url X (ex_now e) action additional endpoint (rs_client st)]\<rparr>))"

definition upd_client :: "(rpc_client \<Rightarrow> rpc_client) \<Rightarrow> rpc_state \<Rightarrow> rpc_state" where
  "upd_client f st = st\<lparr>rs_client := f (rs_client st)\<rparr>"

text \<open>\<^verbatim>\<open>check_stat\<close>: the clock offset is the server time plus a quarter of the request time, against the
  local clock after the request; \<^verbatim>\<open>num_seconds\<close> truncates towards zero.\<close>

definition trunc_div :: "int \<Rightarrow> int \<Rightarrow> int" where
  "trunc_div a b = (if a < 0 then - ((- a) div b) else a div b)"

definition check_stat :: "('a) rpc_ext_scheme \<Rightarrow> rpc_state \<Rightarrow> (error + (int \<times> int) option) \<times> rpc_state" where
  "check_stat X st =
     (case send_request X ''server_stat'' [] None st of
        (e, st) \<Rightarrow>
          (case ex_reply e of
             Inl _ \<Rightarrow> (Inl (connection_error ''Failed to get initial stat from server.''), st)
           | Inr body \<Rightarrow>
               let res = parse_response X (rs_client st) body in
               if resp_is_ok res then
                 let data = resp_to_map res;
                     server_time = do {
                       t \<leftarrow> Option.bind (lookup data ''server_time'') (parse_sint 64);
                       t \<leftarrow> (if x_time_ok X (t * 1000000000) then Some (t * 1000000000) else None);
                       let t = t + trunc_div (ex_elapsed e) 4;
                       (if x_time_ok X t then Some t else None) };
                     st = (case server_time of
                             None \<Rightarrow> st
                           | Some t \<Rightarrow>
                               upd_client (\<lambda>c. c\<lparr>clock_offset := trunc_div (t - (ex_now e + ex_elapsed e)) 1000000000\<rparr>) st);
                     min_version = Option.bind (lookup data ''min_client_build'') (parse_sint 32);
                     new_version = Option.bind (lookup data ''cur_client_build'') (parse_sint 32)
                 in (Inr (case (min_version, new_version) of (Some m, Some n) \<Rightarrow> Some (m, n) | _ \<Rightarrow> None), st)
               else (Inl (ApiResponseFail (ar_status res) (join_with [LF] (ar_data res))), st)))"

datatype request_error = NotConnected | NetError net_error | BadHash

definition server_error :: "net_error \<Rightarrow> bool" where
  "server_error e \<longleftrightarrow>
     (case e of ConnectFailed \<Rightarrow> True | TimedOut \<Rightarrow> True | StatusError s \<Rightarrow> 500 \<le> s \<and> s < 600 | OtherFailure \<Rightarrow> False)"

fun send_action_loop :: "nat \<Rightarrow> ('a) rpc_ext_scheme \<Rightarrow> string \<Rightarrow> string \<Rightarrow> request_error \<Rightarrow> rpc_state
    \<Rightarrow> (request_error + api_response) \<times> rpc_state" where
  "send_action_loop 0 X action additional err st = (Inl err, st)"
| "send_action_loop (Suc n) X action additional err st =
     (case send_request X action additional None st of
        (e, st) \<Rightarrow>
          (case ex_reply e of
             Inr body \<Rightarrow>
               let response = parse_response X (rs_client st) body in
               if is_key_expired response
               then send_action_loop n X action additional err (snd (check_stat X st))
               else if is_hash_fail response
               then send_action_loop n X action additional BadHash (upd_client (change_server (ex_pick e)) st)
               else (Inr response, st)
           | Inl nerr \<Rightarrow>
               send_action_loop n X action additional (NetError nerr)
                 (if server_error nerr then upd_client (change_server (ex_pick e)) st else st)))"

definition send_action :: "('a) rpc_ext_scheme \<Rightarrow> string \<Rightarrow> string option \<Rightarrow> rpc_state
    \<Rightarrow> (request_error + api_response) \<times> rpc_state" where
  "send_action X action additional st =
     send_action_loop 3 X action (case additional of Some a \<Rightarrow> a | None \<Rightarrow> []) NotConnected st"

section \<open>Calls\<close>

text \<open>The pick of the server choice made inside \<^verbatim>\<open>update_settings\<close> is a parameter of its own.\<close>

definition login :: "('a) rpc_ext_scheme \<Rightarrow> nat \<Rightarrow> rpc_state \<Rightarrow> (error + rpc_init_settings) \<times> rpc_state" where
  "login X pick st =
     (case check_stat X st of
        (Inl err, st) \<Rightarrow> (Inl err, st)
      | (Inr stat, st) \<Rightarrow>
          if (case stat of Some (mn, nw) \<Rightarrow> mn > API_VERSION | None \<Rightarrow> False) then (Inl VersionTooOld, st)
          else
            (case send_action X ''client_login'' None st of
               (Inl _, st) \<Rightarrow> (Inl (connection_error ''Failed to get a login response from server.''), st)
             | (Inr res, st) \<Rightarrow>
                 if resp_is_ok res then
                   let m = resp_to_map res in
                   (case Option.bind (lookup m ''port'') (parse_uint 16) of
                      None \<Rightarrow> (Inl (InitSettingsMissing ''port''), st)
                    | Some port \<Rightarrow>
                        (case lookup m ''host'' of
                           None \<Rightarrow> (Inl (InitSettingsMissing ''host''), st)
                         | Some host \<Rightarrow>
                             (Inr \<lparr>client_port = word_of_nat port, client_host = host,
                                   init_verify_cache =
                                     (case Option.bind (lookup m ''verify_cache'') parse_bool of Some b \<Rightarrow> b | None \<Rightarrow> False),
                                   init_static_range =
                                     (case lookup m ''static_ranges'' of Some s \<Rightarrow> split_on (CHR '';'') s | None \<Rightarrow> [])\<rparr>,
                              upd_client (update_settings X pick m) st)))
                 else (Inl (ApiResponseFail (ar_status res) (join_with [LF] (ar_data res))), st)))"

definition ok_data :: "(request_error + api_response) \<times> rpc_state \<Rightarrow> string list option \<times> rpc_state" where
  "ok_data r = (case r of (Inr res, st) \<Rightarrow> (if resp_is_ok res then Some (ar_data res) else None, st) | (Inl _, st) \<Rightarrow> (None, st))"

definition get_purgelist :: "('a) rpc_ext_scheme \<Rightarrow> u64 \<Rightarrow> rpc_state \<Rightarrow> string list option \<times> rpc_state" where
  "get_purgelist X delta_time st = ok_data (send_action X ''get_blacklist'' (Some (show_nat (unat delta_time))) st)"

definition connect_check :: "('a) rpc_ext_scheme \<Rightarrow> rpc_state \<Rightarrow> unit option \<times> rpc_state" where
  "connect_check X st =
     (case send_action X ''client_start'' None st of
        (Inr res, st) \<Rightarrow>
          if resp_is_ok res then (Some (), upd_client (\<lambda>c. c\<lparr>running := True\<rparr>) st) else (None, st)
      | (Inl _, st) \<Rightarrow> (None, st))"

definition refresh_settings :: "('a) rpc_ext_scheme \<Rightarrow> nat \<Rightarrow> rpc_state \<Rightarrow> rpc_state" where
  "refresh_settings X pick st =
     (case send_action X ''client_settings'' None st of
        (Inr res, st) \<Rightarrow> if resp_is_ok res then upd_client (update_settings X pick (resp_to_map res)) st else st
      | (Inl _, st) \<Rightarrow> st)"

definition sr_fetch :: "('a) rpc_ext_scheme \<Rightarrow> string \<Rightarrow> string \<Rightarrow> string \<Rightarrow> rpc_state \<Rightarrow> string list option \<times> rpc_state" where
  "sr_fetch X file_index xres file_id st =
     ok_data (send_action X ''srfetch'' (Some (file_index @ '';'' @ xres @ '';'' @ file_id)) st)"

definition dl_fails :: "('a) rpc_ext_scheme \<Rightarrow> string list \<Rightarrow> rpc_state \<Rightarrow> rpc_state" where
  "dl_fails X failures st =
     (if failures = [] then st
      else snd (send_action X ''dlfails''
             (Some (join_with '';'' (if length failures > 50 then x_sample X failures else failures))) st))"

definition fetch_queue :: "('a) rpc_ext_scheme \<Rightarrow> (int \<times> string) option \<Rightarrow> rpc_state \<Rightarrow> string list option \<times> rpc_state" where
  "fetch_queue X gallery st =
     (case send_request X ''fetchqueue''
             (case gallery of Some (gid, minxres) \<Rightarrow> show_int gid @ '';'' @ minxres | None \<Rightarrow> []) (Some ''dl'') st of
        (e, st) \<Rightarrow>
          (case ex_reply e of
             Inl _ \<Rightarrow> (None, st)
           | Inr res \<Rightarrow>
               (case lines res of
                  l # ls \<Rightarrow> if l = ''INVALID_REQUEST'' \<or> l = ''NO_PENDING_DOWNLOADS'' then (None, st) else (Some (l # ls), st)
                | [] \<Rightarrow> (Some [], st))))"

definition dl_fetch :: "('a) rpc_ext_scheme \<Rightarrow> int \<Rightarrow> nat \<Rightarrow> nat \<Rightarrow> string \<Rightarrow> u8 \<Rightarrow> rpc_state \<Rightarrow> string list option \<times> rpc_state" where
  "dl_fetch X gid page fileindex xres retry st =
     ok_data (send_action X ''dlfetch''
       (Some (show_int gid @ '';'' @ show_nat page @ '';'' @ show_nat fileindex @ '';'' @ xres @ '';'' @ show_nat (unat retry))) st)"

definition rpc_shutdown :: "('a) rpc_ext_scheme \<Rightarrow> rpc_state \<Rightarrow> rpc_state" where
  "rpc_shutdown X st =
     (if running (rs_client st)
      then snd (send_action X ''client_stop'' None (upd_client (\<lambda>c. c\<lparr>running := False\<rparr>) st))
      else st)"

definition still_alive :: "('a) rpc_ext_scheme \<Rightarrow> bool \<Rightarrow> rpc_state \<Rightarrow> bool \<times> rpc_state" where
  "still_alive X resume st =
     (case send_action X ''still_alive'' (Some (if resume then ''resume'' else [])) st of
        (Inr res, st) \<Rightarrow>
          if resp_is_ok res then (True, st)
          else (\<not> (starts_with (ar_status res) ''TERM_BAD_NETWORK'' \<or> starts_with (ar_status res) ''FAIL_NOT_LOGGED_IN''), st)
      | (Inl _, st) \<Rightarrow> (True, st))"

definition notify_overload :: "('a) rpc_ext_scheme \<Rightarrow> rpc_state \<Rightarrow> rpc_state" where
  "notify_overload X st = snd (send_action X ''overload'' None st)"

section \<open>What a response proves\<close>

text \<open>The way the server signs: the counterpart of \<^verbatim>\<open>parse_response\<close>.\<close>

definition sign_response :: "('a) extern_scheme \<Rightarrow> string \<Rightarrow> int \<Rightarrow> string list \<Rightarrow> string" where
  "sign_response X key time data =
     ''OK-'' @ show_int time @ ''-'' @ string_to_hash (x_sha1 X) (x_enc X) (hash_body key time data) @
     (if data = [] then [] else LF # join_with [LF] data)"

text \<open>A body is authentic for a key if its first line carries the hash of the rest under that key.\<close>

definition authentic :: "('a) extern_scheme \<Rightarrow> string \<Rightarrow> string \<Rightarrow> bool" where
  "authentic X key body \<longleftrightarrow>
     (case lines body of
        [] \<Rightarrow> False
      | s # data \<Rightarrow>
          (case split_on (CHR ''-'') s of
             _ # t # h # _ \<Rightarrow>
               h \<noteq> [] \<and> h = string_to_hash (x_sha1 X) (x_enc X)
                 (hash_body key (case parse_sint 32 t of Some i \<Rightarrow> i | None \<Rightarrow> 0) data)
           | _ \<Rightarrow> False))"

lemma parse_response_ok:
  assumes "resp_is_ok (parse_response X c body)"
  shows "authentic X (client_key c) body" and "ar_data (parse_response X c body) = drop 1 (lines body)"
  using assms
  by (auto simp: parse_response_def resp_is_ok_def authentic_def Let_def split: list.splits if_splits)

lemma parse_response_key:
  "client_key c = client_key c' \<Longrightarrow> resp_is_ok (parse_response X c body) = resp_is_ok (parse_response X c' body)"
  by (auto simp: parse_response_def resp_is_ok_def Let_def split: list.split)

lemma change_server_simps [simp]:
  "client_key (change_server p c) = client_key c" "rpc_settings (change_server p c) = rpc_settings c"
  "rpc_servers (change_server p c) = rpc_servers c" "clock_offset (change_server p c) = clock_offset c"
  "running (change_server p c) = running c" "client_id (change_server p c) = client_id c"
  by (simp_all add: change_server_def Let_def)

text \<open>What an exchange with the server leaves alone, whatever it answers.\<close>

definition same_config :: "rpc_client \<Rightarrow> rpc_client \<Rightarrow> bool" where
  "same_config c c' \<longleftrightarrow> client_key c' = client_key c \<and> client_id c' = client_id c \<and> rpc_settings c' = rpc_settings c \<and>
     rpc_servers c' = rpc_servers c \<and> running c' = running c"

lemma same_config_refl [simp]: "same_config c c"
  and same_config_trans: "same_config a b \<Longrightarrow> same_config b c \<Longrightarrow> same_config a c"
  and same_config_change [simp]: "same_config c (change_server p c')  = same_config c c'"
  by (auto simp: same_config_def)

lemma check_stat_spec:
  "same_config (rs_client st) (rs_client (snd (check_stat X st))) \<and> rs_net (snd (check_stat X st)) = drop 1 (rs_net st) \<and>
   (\<exists>now. rs_sent (snd (check_stat X st)) = rs_sent st @ [build_url X now ''server_stat'' [] None (rs_client st)])"
  by (auto simp: check_stat_def send_request_def Let_def upd_client_def same_config_def
      split: sum.split option.split)

lemma next_exchange_in: "ex_reply (next_exchange st) = Inr body \<Longrightarrow> next_exchange st \<in> set (rs_net st)"
  by (auto simp: next_exchange_def dead_exchange_def split: list.splits)

lemma send_request_simps [simp]:
  "fst (send_request X a add ep st) = next_exchange st"
  "rs_client (snd (send_request X a add ep st)) = rs_client st"
  "rs_net (snd (send_request X a add ep st)) = drop 1 (rs_net st)"
  "rs_sent (snd (send_request X a add ep st)) =
     rs_sent st @ [build_url X (ex_now (next_exchange st)) a add ep (rs_client st)]"
  by (simp_all add: send_request_def Let_def)

lemma upd_client_simps [simp]:
  "rs_client (upd_client f st) = f (rs_client st)" "rs_net (upd_client f st) = rs_net st"
  "rs_sent (upd_client f st) = rs_sent st"
  by (simp_all add: upd_client_def)

text \<open>A request of this client: signed with its key over exactly the fields it carries.\<close>

definition signed_request :: "('a) extern_scheme \<Rightarrow> rpc_client \<Rightarrow> request \<Rightarrow> bool" where
  "signed_request X c r \<longleftrightarrow> rq_cid r = show_int (client_id c) \<and>
     rq_actkey r = string_to_hash (x_sha1 X) (x_enc X) (act_body (rq_act r) (rq_add r) (rq_cid r) (rq_acttime r) (client_key c))"

lemma signed_build_url: "same_config c c' \<Longrightarrow> signed_request X c (build_url X now a add ep c')"
  by (simp add: signed_request_def build_url_def Let_def same_config_def)

definition loop_ok :: "('a) rpc_ext_scheme \<Rightarrow> nat \<Rightarrow> rpc_state \<Rightarrow> (request_error + api_response) \<times> rpc_state \<Rightarrow> bool" where
  "loop_ok X n st r \<longleftrightarrow>
     same_config (rs_client st) (rs_client (snd r)) \<and>
     (\<exists>rs. rs_sent (snd r) = rs_sent st @ rs \<and> length rs \<le> 2 * n \<and> list_all (signed_request X (rs_client st)) rs) \<and>
     (\<forall>res. fst r = Inr res \<longrightarrow> \<not> is_key_expired res \<and> \<not> is_hash_fail res \<and>
        (\<exists>e \<in> set (rs_net st). \<exists>body c. ex_reply e = Inr body \<and> client_key c = client_key (rs_client st) \<and> res = parse_response X c body))"

lemma loop_ok_step:
  assumes "loop_ok X n st1 r" "same_config (rs_client st) (rs_client st1)" "set (rs_net st1) \<subseteq> set (rs_net st)"
    and "rs_sent st1 = rs_sent st @ qs" "length qs \<le> 2" "list_all (signed_request X (rs_client st)) qs"
  shows "loop_ok X (Suc n) st r"
proof -
  from assms(2) have "signed_request X (rs_client st1) = signed_request X (rs_client st)"
    by (auto simp: signed_request_def same_config_def fun_eq_iff)
  with assms obtain rs where "rs_sent (snd r) = rs_sent st @ qs @ rs" "length (qs @ rs) \<le> 2 * Suc n"
    "list_all (signed_request X (rs_client st)) (qs @ rs)"
    by (auto simp: loop_ok_def)
  moreover have "\<exists>e \<in> set (rs_net st). \<exists>body c. ex_reply e = Inr body \<and> client_key c = client_key (rs_client st) \<and> res = parse_response X c body"
    if "fst r = Inr res" for res
    using assms(1-3) that by (fastforce simp: loop_ok_def same_config_def)
  ultimately show ?thesis
    using assms(1,2) same_config_trans unfolding loop_ok_def by blast
qed

lemma send_action_loop_ok: "loop_ok X n st (send_action_loop n X a add err st)"
proof (induction n arbitrary: err st)
  case (Suc n)
  let ?e = "next_exchange st" and ?c = "rs_client st"
  let ?q = "build_url X (ex_now ?e) a add None ?c"
  obtain st1 where sr: "send_request X a add None st = (?e, st1)" and st1: "rs_client st1 = ?c" "rs_net st1 = drop 1 (rs_net st)"
    "rs_sent st1 = rs_sent st @ [?q]"
    by (metis prod.collapse send_request_simps)
  have sub: "set (drop 1 (rs_net st)) \<subseteq> set (rs_net st)" by (rule set_drop_subset)
  have q: "signed_request X ?c ?q" by (rule signed_build_url) simp
  have one: "loop_ok X (Suc n) st (send_action_loop n X a add err' st2)"
    if "same_config ?c (rs_client st2)" "rs_net st2 = drop 1 (rs_net st)" "rs_sent st2 = rs_sent st @ [?q]" for err' st2
    using that q sub by (intro loop_ok_step [OF Suc.IH, where qs = "[?q]"]) simp_all
  show ?case
  proof (cases "ex_reply ?e")
    case (Inl nerr)
    then show ?thesis by (simp add: sr one st1)
  next
    case (Inr body)
    let ?r = "parse_response X ?c body"
    consider "is_key_expired ?r" | "\<not> is_key_expired ?r" "is_hash_fail ?r" | "\<not> is_key_expired ?r" "\<not> is_hash_fail ?r" by blast
    then show ?thesis
    proof cases
      case 1
      obtain now where cs: "rs_sent (snd (check_stat X st1)) = rs_sent st1 @ [build_url X now ''server_stat'' [] None ?c]"
        "same_config ?c (rs_client (snd (check_stat X st1)))" "rs_net (snd (check_stat X st1)) = drop 1 (drop 1 (rs_net st))"
        using check_stat_spec [of st1 X] by (auto simp: st1)
      have "signed_request X ?c (build_url X now ''server_stat'' [] None ?c)" by (rule signed_build_url) simp
      with cs q have "loop_ok X (Suc n) st (send_action_loop n X a add err (snd (check_stat X st1)))"
        by (intro loop_ok_step [OF Suc.IH, where qs = "[?q, build_url X now ''server_stat'' [] None ?c]"])
          (auto simp: st1 dest: in_set_dropD)
      with Inr 1 show ?thesis by (simp add: sr Let_def st1)
    next
      case 2
      with Inr show ?thesis by (simp add: sr Let_def one st1)
    next
      case 3
      with Inr q next_exchange_in [OF Inr] show ?thesis by (auto simp: sr Let_def loop_ok_def st1)
    qed
  qed
qed (simp add: loop_ok_def)

lemma send_action_ok: "loop_ok X 3 st (send_action X a add st)"
  unfolding send_action_def by (rule send_action_loop_ok)

section \<open>Properties\<close>

definition sample_rpc_ext :: rpc_ext where
  "sample_rpc_ext = extern.extend sample_ext (rpc_ext.fields (\<lambda>_. None) (\<lambda>_. True) (take 50))"

lemma sample_rpc_ext_simps [simp]:
  "x_enc sample_rpc_ext = hex_encode" "x_dec sample_rpc_ext = hex_decode_to_array" "x_sha1 sample_rpc_ext = checksum"
  "x_time_ok sample_rpc_ext t" "x_ipv6 sample_rpc_ext s = None"
  by (simp_all add: sample_rpc_ext_def extern.extend_def rpc_ext.fields_def sample_ext_def)

lemma parse_sign_response:
  assumes "hex_codec (x_enc X) (x_dec X)" "\<And>b. length (x_sha1 X b) = 20"
    and "0 \<le> t" "t < 2 ^ 31" "list_all is_line data" "data = [] \<or> last data \<noteq> []"
  shows "parse_response X c (sign_response X (client_key c) t data) = \<lparr>ar_status = ''OK'', ar_data = data\<rparr>"
proof -
  let ?h = "string_to_hash (x_sha1 X) (x_enc X) (hash_body (client_key c) t data)"
  let ?s = "''OK-'' @ show_int t @ ''-'' @ ?h"
  have hex: "set ?h \<subseteq> set hex_chars" using hex_codec.enc_chars [OF assms(1)] by (simp add: string_to_hash_def)
  have "length ?h = 40" using hex_codec.enc_length [OF assms(1)] assms(2) by (simp add: string_to_hash_def)
  then have ne: "?h \<noteq> []" by auto
  have sep: "CHR ''-'' \<notin> set ?h" "LF \<notin> set ?h" "CR \<notin> set ?h" using hex by (auto simp: hex_chars_def)
  have dig: "CHR ''-'' \<notin> set (show_int t)" "LF \<notin> set (show_int t)" "CR \<notin> set (show_int t)"
    using assms(3) by (auto simp: show_int_def is_digit_def digit_val_def dest: show_nat_digits)
  have split: "split_on (CHR ''-'') ?s = [''OK'', show_int t, ?h]"
    using dig sep by (simp add: str_simps)
  have line: "is_line ?s" using dig sep by (simp add: is_line_def)
  have "lines (sign_response X (client_key c) t data) = ?s # data"
  proof (cases "data = []")
    case True
    then show ?thesis using line ne by (simp add: sign_response_def lines_single)
  next
    case False
    then show ?thesis
      using lines_Cons [OF line, of "join_with [LF] data"] lines_join [of data] assms(5,6) by (simp add: sign_response_def list_all_iff)
  qed
  moreover have "parse_sint 32 (show_int t) = Some t" using assms(3,4) by (intro parse_sint_show) auto
  ultimately show ?thesis using split ne by (simp add: parse_response_def Let_def)
qed

lemma sample_codec: "hex_codec (x_enc sample_rpc_ext) (x_dec sample_rpc_ext)" "length (x_sha1 sample_rpc_ext b) = 20"
  using hx.hex_codec_axioms sx.sha1_length by simp_all

text \<open>
  A response the server signed with the client's key is accepted with exactly its data lines.
\<close>

theorem signed_response_accepted:
  assumes "hex_codec (x_enc X) (x_dec X)" "\<And>b. length (x_sha1 X b) = 20"
    and "0 \<le> t" "t < 2 ^ 31" "list_all is_line data" "data = [] \<or> last data \<noteq> []"
  shows "parse_response X c (sign_response X (client_key c) t data) = \<lparr>ar_status = ''OK'', ar_data = data\<rparr>"
  using assms by (rule parse_sign_response)

theorem signed_response_accepted_witness:
  "parse_response sample_rpc_ext (rpc_new 1 ''key'' False 0 None)
     (sign_response sample_rpc_ext ''key'' 1700000000 [''server_time=1700000000'', ''a=b'']) =
   \<lparr>ar_status = ''OK'', ar_data = [''server_time=1700000000'', ''a=b'']\<rparr>"
  using signed_response_accepted [OF sample_codec, of 1700000000 "[''server_time=1700000000'', ''a=b'']" "rpc_new 1 ''key'' False 0 None"]
  by (simp add: rpc_new_def is_line_def)

text \<open>
  C9.  Settings and the list of trusted servers only change on an authentic answer: if refreshing
  changes either, one of the replies received carried the hash of its body under the client's key.
\<close>

theorem settings_change_is_authentic:
  assumes "rpc_settings (rs_client (refresh_settings X pick st)) \<noteq> rpc_settings (rs_client st) \<or>
      rpc_servers (rs_client (refresh_settings X pick st)) \<noteq> rpc_servers (rs_client st)"
  shows "\<exists>e \<in> set (rs_net st). \<exists>body. ex_reply e = Inr body \<and> authentic X (client_key (rs_client st)) body"
proof -
  obtain r st' where r: "send_action X ''client_settings'' None st = (r, st')" by (metis surj_pair)
  have ok: "loop_ok X 3 st (r, st')" using send_action_ok [of X st "''client_settings''" None] r by simp
  then have same: "same_config (rs_client st) (rs_client st')" by (simp add: loop_ok_def)
  with assms r obtain res where res: "r = Inr res" "resp_is_ok res"
    by (cases r) (auto simp: refresh_settings_def same_config_def split: if_splits)
  with ok obtain e body c where "e \<in> set (rs_net st)" "ex_reply e = Inr body" "client_key c = client_key (rs_client st)"
    "res = parse_response X c body" unfolding loop_ok_def by auto
  with res(2) parse_response_ok(1) [of X c body] show ?thesis by auto
qed

definition sample_rpc_state :: rpc_state where
  "sample_rpc_state = \<lparr>rs_client = rpc_new 1 ''key'' False 0 None,
     rs_net = [\<lparr>ex_reply = Inr (sign_response sample_rpc_ext ''key'' 5 [''throttle_bytes=77'']), ex_now = 0, ex_elapsed = 0, ex_pick = 0\<rparr>],
     rs_sent = []\<rparr>"

lemma sample_refresh: "set_throttle_bytes (rpc_settings (rs_client (refresh_settings sample_rpc_ext 0 sample_rpc_state))) = 77"
proof -
  let ?c = "rpc_new 1 ''key'' False 0 None"
  have key: "client_key ?c = ''key''" by (simp add: rpc_new_def)
  have "parse_response sample_rpc_ext ?c (sign_response sample_rpc_ext ''key'' 5 [''throttle_bytes=77'']) =
      \<lparr>ar_status = ''OK'', ar_data = [''throttle_bytes=77'']\<rparr>"
    using parse_sign_response [OF sample_codec, of 5 "[''throttle_bytes=77'']" ?c] by (simp add: key is_line_def)
  then show ?thesis
    by (simp add: refresh_settings_def send_action_def numeral_3_eq_3 send_request_def sample_rpc_state_def next_exchange_def
        Let_def is_key_expired_def is_hash_fail_def resp_is_ok_def resp_to_map_def upd_client_def update_settings_def
        settings_update_def parse_eval)
qed

theorem settings_change_is_authentic_witness:
  "rpc_settings (rs_client (refresh_settings sample_rpc_ext 0 sample_rpc_state)) \<noteq> rpc_settings (rs_client sample_rpc_state) \<and>
   (\<exists>e \<in> set (rs_net sample_rpc_state). \<exists>body. ex_reply e = Inr body \<and> authentic sample_rpc_ext ''key'' body)"
proof -
  have ne: "rpc_settings (rs_client (refresh_settings sample_rpc_ext 0 sample_rpc_state)) \<noteq> rpc_settings (rs_client sample_rpc_state)"
    using sample_refresh by (auto simp: sample_rpc_state_def rpc_new_def)
  have "client_key (rs_client sample_rpc_state) = ''key''" by (simp add: sample_rpc_state_def rpc_new_def)
  with ne settings_change_is_authentic [of sample_rpc_ext 0 sample_rpc_state] show ?thesis by simp
qed

text \<open>
  C34.  An action makes at most six requests, each signed with the client's key over its own fields,
  and never delivers a response whose hash failed or whose key had expired; the configuration of
  the client is left alone.
\<close>

theorem send_action_bounded_and_signed:
  assumes "send_action X action additional st = (r, st')"
  shows "(\<exists>rs. rs_sent st' = rs_sent st @ rs \<and> length rs \<le> 6 \<and> (\<forall>q \<in> set rs. signed_request X (rs_client st) q)) \<and>
    same_config (rs_client st) (rs_client st') \<and>
    (\<forall>res. r = Inr res \<longrightarrow> \<not> is_key_expired res \<and> \<not> is_hash_fail res)"
  using send_action_ok [of X st action additional] assms by (auto simp: loop_ok_def list_all_iff)

theorem send_action_bounded_and_signed_witness:
  "\<exists>r st'. send_action sample_rpc_ext ''overload'' None (sample_rpc_state\<lparr>rs_net := []\<rparr>) = (r, st') \<and> length (rs_sent st') \<le> 6"
proof -
  obtain r st' where r: "send_action sample_rpc_ext ''overload'' None (sample_rpc_state\<lparr>rs_net := []\<rparr>) = (r, st')" by (metis surj_pair)
  from send_action_bounded_and_signed [OF r] have "length (rs_sent st') \<le> 6" by (auto simp: sample_rpc_state_def)
  with r show ?thesis by blast
qed

lemma position_Some: "position x ys = Some i \<Longrightarrow> i < length ys \<and> ys ! i = x"
  by (induction ys arbitrary: i) (auto split: if_splits)

lemma position_None: "position x ys = None \<longleftrightarrow> x \<notin> set ys"
  by (induction ys) auto

lemma set_swap_remove: "distinct xs \<Longrightarrow> i < length xs \<Longrightarrow> set (swap_remove i xs) = set xs - {xs ! i}"
  by (cases xs rule: rev_cases) (auto simp: swap_remove_def nth_append set_update_distinct list_update_append)

lemma length_swap_remove: "i < length xs \<Longrightarrow> length (swap_remove i xs) = length xs - 1"
  by (simp add: swap_remove_def)

text \<open>
  Failing over: with at least two different servers the client moves to another known server,
  never back to the one that failed.
\<close>

theorem change_server_moves_on:
  assumes "2 \<le> length (rpc_servers c)" "distinct (rpc_servers c)"
  shows "api_host (change_server pick c) \<in> set (rpc_servers c) \<and> api_host (change_server pick c) \<noteq> api_host c"
proof -
  define servers where "servers = (case position (api_host c) (rpc_servers c) of
      Some pos \<Rightarrow> swap_remove pos (rpc_servers c) | None \<Rightarrow> rpc_servers c)"
  have set: "set servers = set (rpc_servers c) - {api_host c}"
    using assms(2) position_None [of "api_host c"] position_Some [of "api_host c" "rpc_servers c"]
    by (auto simp: servers_def set_swap_remove split: option.splits)
  have ne: "servers \<noteq> []"
    using assms(1) position_Some [of "api_host c" "rpc_servers c"] length_swap_remove [of _ "rpc_servers c"]
    by (fastforce simp: servers_def split: option.splits)
  then have "servers ! (pick mod length servers) \<in> set servers" by simp
  moreover have "api_host (change_server pick c) = servers ! (pick mod length servers)"
    using assms(1) ne by (simp add: change_server_def servers_def random_choice_def Let_def)
  ultimately show ?thesis using set by auto
qed

theorem change_server_moves_on_witness:
  "api_host (change_server 4 ((rpc_new 1 ''key'' False 0 (Some ''1.1.1.1''))\<lparr>rpc_servers := [''1.1.1.1'', ''2.2.2.2'', ''3.3.3.3'']\<rparr>)) \<noteq> ''1.1.1.1''"
  using change_server_moves_on [of "(rpc_new 1 ''key'' False 0 (Some ''1.1.1.1''))\<lparr>rpc_servers := [''1.1.1.1'', ''2.2.2.2'', ''3.3.3.3'']\<rparr>" 4]
  by (simp add: rpc_new_def)

text \<open>
  Without an override the connection limit is between 20 and 500, whatever the throttle setting is,
  and an override is taken as it is.
\<close>

theorem max_connection_bounds:
  "(set_max_connection s = 0 \<longrightarrow> 20 \<le> max_connection s \<and> max_connection s \<le> 500) \<and>
   (set_max_connection s \<noteq> 0 \<longrightarrow> max_connection s = set_max_connection s)"
proof -
  let ?m = "min 480 (set_throttle_bytes s div 10000)"
  have "unat ?m \<le> 480" using min.cobounded1 [of "480 :: u64"] by (auto simp: word_le_nat_alt)
  then have "unat (20 + ?m) = 20 + unat ?m" by (simp add: unat_word_ariths)
  with \<open>unat ?m \<le> 480\<close> show ?thesis by (simp add: max_connection_def word_le_nat_alt)
qed

theorem max_connection_bounds_witness:
  "max_connection \<lparr>set_size_limit = 0, set_throttle_bytes = 18446744073709551615, set_disable_logging = False,
     set_max_connection = 0, set_disable_ip_check = False\<rparr> \<le> 500"
  using max_connection_bounds [of "\<lparr>set_size_limit = 0, set_throttle_bytes = 18446744073709551615, set_disable_logging = False,
     set_max_connection = 0, set_disable_ip_check = False\<rparr>"] by simp

definition offset_from :: "int \<Rightarrow> exchange \<Rightarrow> int" where
  "offset_from t e = trunc_div (t * 1000000000 + trunc_div (ex_elapsed e) 4 - (ex_now e + ex_elapsed e)) 1000000000"

lemma trunc_div_bounds:
  assumes "0 < b"
  shows "\<bar>trunc_div a b * b - a\<bar> < b"
proof -
  have "(x div b) * b \<le> x" "x < (x div b) * b + b" for x
    using assms pos_mod_bound [of b x] pos_mod_sign [of b x] div_mult_mod_eq [of x b] by linarith+
  from this [of a] this [of "- a"] show ?thesis by (auto simp: trunc_div_def)
qed

lemma offset_accuracy:
  assumes "0 \<le> ex_elapsed e" "ex_now e + d \<le> s" "s \<le> ex_now e + ex_elapsed e + d" "t = s div 1000000000"
  shows "\<bar>offset_from t e * 1000000000 - d\<bar> < ex_elapsed e + 2000000000"
proof -
  have "t * 1000000000 \<le> s" "s < t * 1000000000 + 1000000000"
    using pos_mod_bound [of 1000000000 s] pos_mod_sign [of 1000000000 s] div_mult_mod_eq [of s 1000000000] assms(4) by linarith+
  moreover have "0 \<le> trunc_div (ex_elapsed e) 4" "4 * trunc_div (ex_elapsed e) 4 \<le> ex_elapsed e"
    using assms(1) by (simp_all add: trunc_div_def)
  moreover have "\<bar>offset_from t e * 1000000000 -
      (t * 1000000000 + trunc_div (ex_elapsed e) 4 - (ex_now e + ex_elapsed e))\<bar> < 1000000000"
    unfolding offset_from_def by (rule trunc_div_bounds) simp
  ultimately show ?thesis using assms(1-3) by linarith
qed

text \<open>
  Clock synchronisation: when the server answers, somewhere during the request, with its time in
  whole seconds, the offset the client computes is off by less than the duration of the request plus
  two seconds.
\<close>

theorem clock_sync_accuracy:
  assumes "rs_net st = e # es" "ex_reply e = Inr body" "resp_is_ok (parse_response X (rs_client st) body)"
    and "lookup (resp_to_map (parse_response X (rs_client st) body)) ''server_time'' = Some ts" "parse_sint 64 ts = Some t"
    and "\<And>u. x_time_ok X u" "0 \<le> ex_elapsed e" "ex_now e + d \<le> s" "s \<le> ex_now e + ex_elapsed e + d" "t = s div 1000000000"
  shows "\<bar>clock_offset (rs_client (snd (check_stat X st))) * 1000000000 - d\<bar> < ex_elapsed e + 2000000000"
proof -
  have "clock_offset (rs_client (snd (check_stat X st))) = offset_from t e"
    using assms(1-6) by (simp add: check_stat_def send_request_def next_exchange_def Let_def upd_client_def offset_from_def)
  with offset_accuracy [OF assms(7-10)] show ?thesis by simp
qed

definition clock_exchange :: exchange where
  "clock_exchange = \<lparr>ex_reply = Inr (sign_response sample_rpc_ext ''key'' 5 [''server_time=1000'']), ex_now = 900000000000,
     ex_elapsed = 400000000, ex_pick = 0\<rparr>"

theorem clock_sync_accuracy_witness:
  "\<bar>clock_offset (rs_client (snd (check_stat sample_rpc_ext (sample_rpc_state\<lparr>rs_net := [clock_exchange]\<rparr>)))) * 1000000000 - 100000000000\<bar>
     < 400000000 + 2000000000"
proof -
  let ?st = "sample_rpc_state\<lparr>rs_net := [clock_exchange]\<rparr>"
  have key: "client_key (rs_client sample_rpc_state) = ''key''" by (simp add: sample_rpc_state_def rpc_new_def)
  have p: "parse_response sample_rpc_ext (rs_client ?st) (sign_response sample_rpc_ext ''key'' 5 [''server_time=1000'']) =
      \<lparr>ar_status = ''OK'', ar_data = [''server_time=1000'']\<rparr>"
    using parse_sign_response [OF sample_codec, of 5 "[''server_time=1000'']" "rs_client ?st"] by (simp add: key is_line_def)
  have "\<bar>clock_offset (rs_client (snd (check_stat sample_rpc_ext ?st))) * 1000000000 - 100000000000\<bar>
      < ex_elapsed clock_exchange + 2000000000"
  proof (rule clock_sync_accuracy)
    show "rs_net ?st = clock_exchange # []" by simp
    show "ex_reply clock_exchange = Inr (sign_response sample_rpc_ext ''key'' 5 [''server_time=1000''])" by (simp add: clock_exchange_def)
    show "resp_is_ok (parse_response sample_rpc_ext (rs_client ?st) (sign_response sample_rpc_ext ''key'' 5 [''server_time=1000'']))"
      unfolding p by (simp add: resp_is_ok_def)
    show "lookup (resp_to_map (parse_response sample_rpc_ext (rs_client ?st) (sign_response sample_rpc_ext ''key'' 5 [''server_time=1000''])))
        ''server_time'' = Some ''1000''"
      unfolding p by (simp add: resp_to_map_def)
    show "parse_sint 64 ''1000'' = Some 1000" by (simp add: parse_eval)
    show "1000 = (1000000000000 :: int) div 1000000000" by simp
  qed (simp_all add: clock_exchange_def)
  then show ?thesis by (simp add: clock_exchange_def)
qed

end
