(* ===== verification/Route.thy ===== *)
theory Route
  imports CacheGet Rpc
begin

text \<open>
  \<^verbatim>\<open>src/route/\<close>: the HTTP handlers.  \<^verbatim>\<open>hath\<close> serves cached files to holders of a signed link,
  \<^verbatim>\<open>servercmd\<close> runs commands of the coordinating server, \<^verbatim>\<open>speedtest\<close> sends random bytes.  The
  parser of range headers and the check of header values are parameters; a validated range lies
  inside the file.
\<close>

section \<open>Responses\<close>

text \<open>\<open>FollowBody\<close> is the body of a miss, which follows a download of the given length.\<close>

datatype http_body = EmptyBody | TextBody string | StreamBody file_stream | RangeBody nat file_stream | RandomBody nat | FollowBody nat

record http_response =
  h_status :: nat
  h_headers :: "(string \<times> string) list"
  h_body :: http_body

definition forbidden :: http_response where
  "forbidden = \<lparr>h_status = 403, h_headers = [(''Content-Type'', ''text/html'')], h_body = TextBody ''An error has occurred. (403)''\<rparr>"

definition not_found :: http_response where
  "not_found = \<lparr>h_status = 404, h_headers = [(''Content-Type'', ''text/plain'')], h_body = TextBody ''An error has occurred. (404)''\<rparr>"

definition text_response :: "string \<Rightarrow> http_response" where
  "text_response s = \<lparr>h_status = 200, h_headers = [(''Content-Type'', ''text/plain'')], h_body = TextBody s\<rparr>"

definition empty_response :: "nat \<Rightarrow> http_response" where
  "empty_response st = \<lparr>h_status = st, h_headers = [], h_body = EmptyBody\<rparr>"

definition default_route :: http_response where
  "default_route = \<lparr>h_status = 404, h_headers = [(''Content-Type'', ''text/html'')], h_body = TextBody ''An error has occurred. (404)''\<rparr>"

definition favicon :: http_response where
  "favicon = \<lparr>h_status = 301, h_headers = [(''Location'', ''https://e-hentai.org/favicon.ico'')], h_body = EmptyBody\<rparr>"

definition robots :: http_response where
  "robots = text_response (''User-agent: *'' @ [LF] @ ''Disallow: /'')"

definition parse_additional :: "string \<Rightarrow> (string, string) hashmap" where
  "parse_additional additional =
     fold (\<lambda>kv m. case split_on (CHR ''='') kv of k # v # _ \<Rightarrow> insert_map k v m | _ \<Rightarrow> m)
       (split_on (CHR '';'') additional) []"

definition get_or :: "string \<Rightarrow> (string, string) hashmap \<Rightarrow> string \<Rightarrow> string" where
  "get_or k m d = (case lookup m k of Some v \<Rightarrow> v | None \<Rightarrow> d)"

record route_ext = rpc_ext +
  x_ranges :: "string \<Rightarrow> nat \<Rightarrow> (nat \<times> nat) list option"
  x_header_ok :: "string \<Rightarrow> bool"

section \<open>hath\<close>

definition TTL_contains :: "int \<Rightarrow> bool" where
  "TTL_contains d \<longleftrightarrow> -900 \<le> d \<and> d \<le> 900"

definition MAX_KEY_TIME_DRIFT_contains :: "int \<Rightarrow> bool" where
  "MAX_KEY_TIME_DRIFT_contains d \<longleftrightarrow> -300 \<le> d \<and> d \<le> 300"

definition hotlink_hash :: "('a) route_ext_scheme \<Rightarrow> string \<Rightarrow> string \<Rightarrow> string \<Rightarrow> string" where
  "hotlink_hash X time file_id key =
     string_to_hash (x_sha1 X) (x_enc X) (time @ ''-'' @ file_id @ ''-'' @ key @ ''-hotlinkthis'')"

text \<open>The keystamp check: the time within the window and the hash a prefix of the expected one.\<close>

definition keystamp_ok :: "('a) route_ext_scheme \<Rightarrow> int \<Rightarrow> rpc_client \<Rightarrow> string \<Rightarrow> string \<Rightarrow> bool" where
  "keystamp_ok X now c file_id stamp =
     (let keystamp = split_on (CHR ''-'') stamp;
          time = hd keystamp;
          hash = (case tl keystamp of h # _ \<Rightarrow> h | [] \<Rightarrow> []);
          time_diff = i64_sub (get_timestemp X now c) (case parse_sint 64 time of Some t \<Rightarrow> t | None \<Rightarrow> 0)
      in \<not> (time = [] \<or> hash = [] \<or> \<not> TTL_contains time_diff \<or>
            \<not> starts_with (hotlink_hash X time file_id (client_key c)) hash))"

record hath_headers =
  hh_if_none_match :: "string option"
  hh_range :: "string option"
  hh_if_range :: "string option"

definition etag_of :: "('a) route_ext_scheme \<Rightarrow> cache_file_info \<Rightarrow> string" where
  "etag_of X info = [CHR 0x22] @ x_enc X (take 4 (fi_hash info)) @ [CHR 0x22]"

definition the_range :: "('a) route_ext_scheme \<Rightarrow> hath_headers \<Rightarrow> string \<Rightarrow> nat \<Rightarrow> (nat \<times> nat) option" where
  "the_range X hs etag file_size =
     (let rg = do {
            h \<leftarrow> hh_range hs;
            rs \<leftarrow> x_ranges X h file_size;
            (case rs of [r] \<Rightarrow> Some r | _ \<Rightarrow> None) }
      in if (case hh_if_range hs of Some s \<Rightarrow> s \<noteq> etag | None \<Rightarrow> False) then None else rg)"

definition CACHE_HEADER :: string where
  "CACHE_HEADER = ''public, max-age=31536000, immutable''"

definition content_disposition :: "('a) route_ext_scheme \<Rightarrow> string \<Rightarrow> string" where
  "content_disposition X name =
     (let v = ''inline; filename='' @ [CHR 0x22] @ name @ [CHR 0x22] in if x_header_ok X v then v else ''inline'')"

definition base_headers :: "('a) route_ext_scheme \<Rightarrow> cache_file_info \<Rightarrow> string \<Rightarrow> (string \<times> string) list" where
  "base_headers X info name =
     [(''Cache-Control'', CACHE_HEADER), (''Content-Disposition'', content_disposition X name),
      (''Content-Type'', to_mime (fi_mime_type info)), (''ETag'', etag_of X info)]"

datatype hath_result = Respond http_response | CacheMiss cache_file_info string string string

definition hit_response :: "('a) route_ext_scheme \<Rightarrow> cache_file_info \<Rightarrow> string \<Rightarrow> (nat \<times> nat) option \<Rightarrow> file_stream \<Rightarrow> http_response" where
  "hit_response X info name rg stream =
     (case rg of
        Some (a, b) \<Rightarrow>
          let content_length = b - a + 1 in
          \<lparr>h_status = 206,
           h_headers = base_headers X info name @
             [(''Accept-Ranges'', ''bytes''), (''Content-Length'', show_nat content_length),
              (''Content-Range'', ''bytes '' @ show_nat a @ ''-'' @ show_nat b @ ''/'' @ show_nat (unat (fi_size info)))],
           h_body = RangeBody content_length stream\<rparr>
      | None \<Rightarrow>
          \<lparr>h_status = 200,
           h_headers = base_headers X info name @
             [(''Accept-Ranges'', ''bytes''), (''Content-Length'', show_nat (unat (fi_size info)))],
           h_body = StreamBody stream\<rparr>)"

definition miss_response :: "('a) route_ext_scheme \<Rightarrow> cache_file_info \<Rightarrow> string \<Rightarrow> http_response" where
  "miss_response X info name =
     \<lparr>h_status = 200, h_headers = base_headers X info name @ [(''Content-Length'', show_nat (unat (fi_size info)))],
      h_body = FollowBody (unat (fi_size info))\<rparr>"

definition hath :: "('a) route_ext_scheme \<Rightarrow> io_env \<Rightarrow> rpc_client \<Rightarrow> string \<Rightarrow> string \<Rightarrow> string \<Rightarrow> hath_headers \<Rightarrow> cache_manager
    \<Rightarrow> hath_result \<times> cache_manager" where
  "hath X E c file_id additional name hs cm =
     (let add = parse_additional additional in
      if \<not> keystamp_ok X (clock E) c file_id (get_or ''keystamp'' add []) then (Respond forbidden, cm)
      else (case from_file_id (x_dec X) file_id of
              None \<Rightarrow> (Respond not_found, cm)
            | Some info \<Rightarrow>
                let etag = etag_of X info; file_size = unat (fi_size info) in
                if hh_if_none_match hs = Some etag
                then (Respond \<lparr>h_status = 304,
                        h_headers = [(''Cache-Control'', CACHE_HEADER), (''Content-Length'', show_nat file_size), (''ETag'', etag)],
                        h_body = EmptyBody\<rparr>, cm)
                else
                  let rg = the_range X hs etag file_size in
                  (case get_file (extern.truncate X) E info (map_option fst rg) cm of
                     (Full stream, cm) \<Rightarrow>
                       (Respond (hit_response X info name
                          (case rg of Some (a, b) \<Rightarrow> if a \<noteq> 0 then None else rg | None \<Rightarrow> None) stream), cm)
                   | (Partial stream, cm) \<Rightarrow> (Respond (hit_response X info name rg stream), cm)
                   | (NotFound, cm) \<Rightarrow>
                       (CacheMiss info (get_or ''fileindex'' add []) (get_or ''xres'' add []) file_id, cm))))"

section \<open>speedtest\<close>

definition BUFFER_SIZE :: nat where
  "BUFFER_SIZE = 16384"

text \<open>The stream of \<^verbatim>\<open>random_response\<close>: the random buffer, the requested size and the count so far.\<close>

record random_stream =
  rnd_buffer :: bytes
  rnd_size :: nat
  rnd_filled :: nat

definition random_poll :: "unit \<Rightarrow> random_stream \<Rightarrow> frame_poll \<times> random_stream" where
  "random_poll e r =
     (if rnd_filled r < rnd_size r
      then (let sz = min (rnd_size r - rnd_filled r) BUFFER_SIZE in
            (Ready (Some (Inr (Data (if sz = BUFFER_SIZE then rnd_buffer r else take sz (rnd_buffer r))))),
             r\<lparr>rnd_filled := rnd_filled r + sz\<rparr>))
      else (Ready None, r))"

definition random_response :: "nat \<Rightarrow> http_response" where
  "random_response sz =
     \<lparr>h_status = 200, h_headers = [(''Content-Length'', show_nat sz)], h_body = RandomBody sz\<rparr>"

definition speedtest :: "('a) route_ext_scheme \<Rightarrow> int \<Rightarrow> rpc_client \<Rightarrow> u64 \<Rightarrow> int \<Rightarrow> string \<Rightarrow> http_response" where
  "speedtest X now c sz time hash =
     (if \<not> MAX_KEY_TIME_DRIFT_contains (i64_sub (get_timestemp X now c) time) \<or>
         string_to_hash (x_sha1 X) (x_enc X)
           (''hentai@home-speedtest-'' @ show_nat (unat sz) @ ''-'' @ show_int time @ ''-'' @ show_int (client_id c) @ ''-'' @ client_key c)
         \<noteq> hash
      then forbidden else random_response (unat sz))"

section \<open>servercmd\<close>

datatype command = ReloadCert | RefreshSettings | StartDownloader | Overload

text \<open>One thread of the proxy test: three attempts, each a response of some size and duration or an error.\<close>

fun proxy_thread :: "nat \<Rightarrow> nat \<Rightarrow> (nat \<times> nat) option list \<Rightarrow> nat option" where
  "proxy_thread 0 sz attempts = None"
| "proxy_thread (Suc n) sz [] = None"
| "proxy_thread (Suc n) sz (a # attempts) =
     (case a of
        Some (got, time) \<Rightarrow> if got = sz then Some time else proxy_thread n sz attempts
      | None \<Rightarrow> proxy_thread n sz attempts)"

record proxy_test =
  pt_urls :: "string list"
  pt_answer :: string

definition proxy_test_url :: "string \<Rightarrow> string \<Rightarrow> nat \<Rightarrow> nat \<Rightarrow> int \<Rightarrow> string \<Rightarrow> nat \<Rightarrow> string" where
  "proxy_test_url protocol host port sz time token random =
     protocol @ ''://'' @ host @ '':'' @ show_nat port @ ''/t/'' @ show_nat sz @ ''/'' @ show_int time @ ''/'' @ token @ ''/'' @ show_nat random"

text \<open>\<open>threads\<close> gives for every thread its random number and what its attempts meet.\<close>

definition threaded_proxy_test :: "(string, string) hashmap \<Rightarrow> int \<Rightarrow> (nat \<times> (nat \<times> nat) option list) list \<Rightarrow> proxy_test option" where
  "threaded_proxy_test add time threads =
     (let host = get_or ''hostname'' add [];
          protocol = get_or ''protocol'' add ''http'';
          num = (\<lambda>k b. case Option.bind (lookup add k) (parse_uint b) of Some n \<Rightarrow> n | None \<Rightarrow> 0);
          port = num ''port'' 16; sz = num ''testsize'' 32; count = num ''testcount'' 8; timestamp = num ''testtime'' 64;
          token = get_or ''testkey'' add []
      in if host = [] \<or> port = 0 \<or> sz = 0 \<or> count = 0 \<or> timestamp = 0 \<or> token = [] then None
         else
           let runs = take count threads;
               times = List.map_filter (\<lambda>(_, attempts). proxy_thread 3 sz attempts) runs
           in Some \<lparr>pt_urls = map (\<lambda>(random, _). proxy_test_url protocol host port sz time token random) runs,
                    pt_answer = ''OK:'' @ show_nat (length times) @ ''-'' @ show_nat (sum_list times div 1000000)\<rparr>)"

definition servercmd :: "('a) route_ext_scheme \<Rightarrow> int \<Rightarrow> rpc_client \<Rightarrow> string \<Rightarrow> string \<Rightarrow> string \<Rightarrow> int \<Rightarrow> string
    \<Rightarrow> (nat \<times> (nat \<times> nat) option list) list \<Rightarrow> http_response \<times> command list" where
  "servercmd X now c ip command additional time hash threads =
     (if \<not> is_vaild_rpc_server ip c then (forbidden, [])
      else if \<not> MAX_KEY_TIME_DRIFT_contains (i64_sub (get_timestemp X now c) time) \<or>
         string_to_hash (x_sha1 X) (x_enc X)
           (''hentai@home-servercmd-'' @ command @ ''-'' @ additional @ ''-'' @ show_int (client_id c) @ ''-'' @ show_int time @ ''-'' @ client_key c)
         \<noteq> hash
      then (forbidden, [])
      else
        let cmd = to_lowercase command; add = parse_additional additional in
        if cmd = ''still_alive'' then (text_response (''I feel FANTASTIC and I'' @ [CHR 0x27] @ ''m still alive''), [])
        else if cmd = ''threaded_proxy_test''
        then (case threaded_proxy_test add time threads of
                None \<Rightarrow> (empty_response 400, [])
              | Some t \<Rightarrow> (text_response (pt_answer t), []))
        else if cmd = ''speed_test''
        then (random_response (case Option.bind (lookup add ''testsize'') (parse_uint 64) of Some n \<Rightarrow> n | None \<Rightarrow> 1000000), [])
        else if cmd = ''refresh_settings'' then (empty_response 200, [RefreshSettings])
        else if cmd = ''start_downloader'' then (empty_response 200, [StartDownloader])
        else if cmd = ''refresh_certs'' then (empty_response 200, [ReloadCert])
        else (text_response ''INVALID_COMMAND'', []))"

section \<open>Time windows\<close>

text \<open>Wrap-around does not help an attacker: a difference inside the window is the true difference.\<close>

lemma i64_sub_window:
  assumes "is_i64 t" "0 \<le> T" "T < 2 ^ 62" "\<bar>i64_sub T t\<bar> \<le> w" "w < 2 ^ 61"
  shows "\<bar>T - t\<bar> \<le> w"
proof -
  obtain k where k: "i64_sub T t - (T - t) = 2 ^ 64 * k"
    using i64_sub_congruent [of T t] by (auto simp: mod_eq_0_iff_dvd dvd_def)
  have "- (2 ^ 63) \<le> t" "t < 2 ^ 63" using assms(1) by (simp_all add: is_i64_def)
  moreover have "i64_sub T t \<le> w" "- w \<le> i64_sub T t" using assms(4) by linarith+
  moreover have pow: "(2 :: int) ^ 64 = 18446744073709551616" "(2 :: int) ^ 63 = 9223372036854775808"
    "(2 :: int) ^ 62 = 4611686018427387904" "(2 :: int) ^ 61 = 2305843009213693952" by simp_all
  ultimately have "k < 1" "- 1 < k" using k assms(2,3,5) unfolding pow by linarith+
  then have "k = 0" by simp
  with k assms(4) show ?thesis by simp
qed

lemma parse_sint_i64: "parse_sint 64 s = Some t \<Longrightarrow> is_i64 t"
  using parse_sint_range [of 64 s t] by (simp add: is_i64_def)

section \<open>The body of a speed test\<close>

definition random_ok :: "random_stream \<Rightarrow> bool" where
  "random_ok r \<longleftrightarrow> length (rnd_buffer r) = BUFFER_SIZE"

definition random_rest :: "random_stream \<Rightarrow> bytes" where
  "random_rest r =
     (let n = rnd_size r - rnd_filled r in
      concat (replicate (n div BUFFER_SIZE) (rnd_buffer r)) @ take (n mod BUFFER_SIZE) (rnd_buffer r))"

lemma random_rest_length: "random_ok r \<Longrightarrow> length (random_rest r) = rnd_size r - rnd_filled r"
  by (simp add: random_ok_def random_rest_def Let_def length_concat sum_list_replicate BUFFER_SIZE_def mult.commute)

lemma random_rest_chunk:
  assumes "random_ok r" "BUFFER_SIZE \<le> rnd_size r - rnd_filled r"
  shows "random_rest r = rnd_buffer r @ random_rest (r\<lparr>rnd_filled := rnd_filled r + BUFFER_SIZE\<rparr>)"
proof -
  obtain m where m: "rnd_size r - rnd_filled r = BUFFER_SIZE + m" using assms(2) le_Suc_ex by blast
  have "0 < BUFFER_SIZE" by (simp add: BUFFER_SIZE_def)
  then have "(BUFFER_SIZE + m) div BUFFER_SIZE = Suc (m div BUFFER_SIZE)" "(BUFFER_SIZE + m) mod BUFFER_SIZE = m mod BUFFER_SIZE"
    by (simp_all add: div_add_self1)
  moreover have "rnd_size r - (rnd_filled r + BUFFER_SIZE) = m" using m by simp
  ultimately show ?thesis using m by (simp add: random_rest_def)
qed

interpretation rnd: live_body random_poll random_ok random_rest "\<lambda>_ _. True"
proof unfold_locales
  fix r e p r'
  assume ok: "random_ok r" and p: "random_poll e r = (p, r')"
  show "random_ok r'" using ok p by (auto simp: random_poll_def random_ok_def Let_def split: if_splits)
  let ?n = "rnd_size r - rnd_filled r"
  show "poll_law random_rest r p r'"
  proof (cases "rnd_filled r < rnd_size r")
    case False
    with p show ?thesis by (auto simp: random_poll_def poll_law_def random_rest_def Let_def)
  next
    case True
    show ?thesis
    proof (cases "BUFFER_SIZE \<le> ?n")
      case True
      with \<open>rnd_filled r < rnd_size r\<close> p random_rest_chunk [OF ok True] show ?thesis
        by (auto simp: random_poll_def poll_law_def Let_def min_def)
    next
      case False
      with True p show ?thesis
        by (auto simp: random_poll_def poll_law_def Let_def min_def random_rest_def)
    qed
  qed
  show "p = Ready None \<or> (\<exists>d. p = Ready (Some (Inr (Data d))) \<and> d \<noteq> [])"
  proof -
    have "0 < BUFFER_SIZE" by (simp add: BUFFER_SIZE_def)
    moreover from this ok have "rnd_buffer r \<noteq> []" by (auto simp: random_ok_def)
    moreover from this have "take sz (rnd_buffer r) \<noteq> []" if "0 < sz" for sz using that by simp
    ultimately show ?thesis
      using p [symmetric] by (cases "rnd_filled r < rnd_size r") (simp_all add: random_poll_def Let_def)
  qed
qed

section \<open>Delivering a hit\<close>

text \<open>What the client of a hit receives: the stream is polled to its end, cut at the limit for a range.\<close>

definition deliver :: "('a) route_ext_scheme \<Rightarrow> io_env \<Rightarrow> (io_error + nat) option list \<Rightarrow> task_event list \<Rightarrow> bool list
    \<Rightarrow> http_body \<Rightarrow> cache_manager \<Rightarrow> (bytes \<times> body_end) option" where
  "deliver X E joins es gots body cm =
     (case body of
        StreamBody (ReaderStream r) \<Rightarrow> Some (case run_body reader_poll es r of (d, s, _) \<Rightarrow> (d, s))
      | RangeBody n (ReaderStream r) \<Rightarrow> Some (case run_body (truncate_poll reader_poll) es (n, r) of (d, s, _) \<Rightarrow> (d, s))
      | StreamBody (TaskStream t) \<Rightarrow>
          (case run_verify (extern.truncate X) E joins t cm of
             None \<Rightarrow> None
           | Some (sent, _) \<Rightarrow> Some (case run_body channel_poll gots sent of (d, s, _) \<Rightarrow> (d, s)))
      | RangeBody n (TaskStream t) \<Rightarrow>
          (case run_verify (extern.truncate X) E joins t cm of
             None \<Rightarrow> None
           | Some (sent, _) \<Rightarrow> Some (case run_body (truncate_poll channel_poll) gots (n, sent) of (d, s, _) \<Rightarrow> (d, s)))
      | _ \<Rightarrow> None)"

section \<open>Properties\<close>

definition sample_route_ext :: route_ext where
  "sample_route_ext = rpc_ext.extend sample_rpc_ext
     (route_ext.fields (\<lambda>h n. if h = ''bytes=1-2'' \<and> 3 \<le> n then Some [(1, 2)] else None) (\<lambda>_. True))"

lemma sample_route_ext_simps [simp]:
  "x_enc sample_route_ext = hex_encode" "x_dec sample_route_ext = hex_decode_to_array" "x_sha1 sample_route_ext = checksum"
  "x_time_ok sample_route_ext t" "x_ranges sample_route_ext h n = (if h = ''bytes=1-2'' \<and> 3 \<le> n then Some [(1, 2)] else None)"
  "extern.truncate sample_route_ext = sample_ext"
  by (simp_all add: sample_route_ext_def rpc_ext.extend_def route_ext.fields_def sample_rpc_ext_def extern.extend_def rpc_ext.fields_def
      sample_ext_def extern.truncate_def)

text \<open>
  A link is only honoured within 15 minutes of the time it was stamped: a request whose stamp does
  not parse as a time, or names one more than 900 seconds away from the server clock, is answered 403
  and leaves the cache untouched, also where the 64-bit difference wraps around.
\<close>

theorem hath_link_expires:
  assumes "T = get_timestemp X (clock E) c" "900 < T" "T < 2 ^ 62"
    and "stamp = get_or ''keystamp'' (parse_additional additional) []"
    and "\<And>t. parse_sint 64 (hd (split_on (CHR ''-'') stamp)) = Some t \<Longrightarrow> 900 < \<bar>T - t\<bar>"
  shows "hath X E c file_id additional name hs cm = (Respond forbidden, cm)"
proof -
  let ?time = "hd (split_on (CHR ''-'') stamp)"
  let ?t = "case parse_sint 64 ?time of Some t \<Rightarrow> t | None \<Rightarrow> 0"
  have "is_i64 ?t" by (auto simp: is_i64_def split: option.split dest: parse_sint_i64 [unfolded is_i64_def])
  moreover have "900 < \<bar>T - ?t\<bar>" using assms(2,5) by (auto split: option.split)
  ultimately have "\<not> \<bar>i64_sub T ?t\<bar> \<le> 900" using i64_sub_window [of ?t T 900] assms(2,3) by auto
  then have "\<not> TTL_contains (i64_sub T ?t)" by (auto simp: TTL_contains_def)
  then show ?thesis using assms(1,4) by (simp add: hath_def keystamp_ok_def Let_def)
qed

lemma sample_timestemp: "get_timestemp sample_route_ext (from_unix_time 2000000000) (rpc_new 1 k False 0 None) = 2000000000"
  by (simp add: get_timestemp_def rpc_new_def from_unix_time_def Let_def)

theorem hath_link_expires_witness:
  "hath sample_route_ext sample_env (rpc_new 1 ''key'' False 0 None) ''f'' ''keystamp=1999999099-abcdef'' ''n''
     \<lparr>hh_if_none_match = None, hh_range = None, hh_if_range = None\<rparr> (sample_manager [] []) = (Respond forbidden, sample_manager [] [])"
  by (rule hath_link_expires [OF refl])
    (auto simp: sample_timestemp get_or_def parse_additional_def parse_eval)

lemma get_file_result:
  assumes "io_ok E" "lookup (disk cm) (to_path (x_enc X) info (cache_dir cm)) = Some (File f)"
    and "length (f_data f) = unat (fi_size info)"
  shows "\<exists>stream cm'. get_file X E info offset cm =
      (if offset = None \<or> (offset = Some 0 \<and> clock E - one_week \<le> f_mtime f) then Full stream else Partial stream, cm') \<and>
    stream = (if clock E - one_week \<le> f_mtime f
      then ReaderStream (reader_new \<lparr>file_data = f_data f, file_pos = (case offset of None \<Rightarrow> 0 | Some o' \<Rightarrow> o')\<rparr> 65536)
      else TaskStream \<lparr>vt_info = info, vt_size = length (f_data f), vt_offset = offset, vt_reader = reader_at (f_data f) 0 65536\<rparr>)"
proof (cases "clock E - one_week \<le> f_mtime f")
  case True
  then show ?thesis using get_file_recent [OF assms, of offset] by (auto simp: Let_def)
next
  case False
  then show ?thesis using get_file_cold [OF assms, of offset] by (auto simp: Let_def)
qed

text \<open>The schedules a delivery can meet when nothing fails: every read answers, every poll is ready.\<close>

definition good_schedule :: "nat \<Rightarrow> (io_error + nat) option list \<Rightarrow> task_event list \<Rightarrow> bool list \<Rightarrow> bool" where
  "good_schedule n joins es gots \<longleftrightarrow>
     (\<forall>j \<in> set joins. \<exists>k. j = Some (Inr k)) \<and> n \<le> length joins \<and>
     (\<forall>e \<in> set es. \<exists>k. e = TaskRead (Inr k)) \<and> n < length es \<and> (\<forall>g \<in> set gots. g) \<and> n < length gots"

lemma deliver_reader:
  assumes "good_schedule (length data) joins es gots"
    and "r = reader_new \<lparr>file_data = data, file_pos = start\<rparr> 65536"
  shows "deliver X E joins es gots (StreamBody (ReaderStream r)) cm = Some (drop start data, Ended)"
    and "deliver X E joins es gots (RangeBody n (ReaderStream r)) cm = Some (take n (drop start data), Ended)"
proof -
  have ok: "reader_ok r" and rest: "reader_rest r = drop start data" using assms(2) by simp_all
  have good: "reader_good e b" if "e \<in> set es" for e b using assms(1) that by (auto simp: good_schedule_def reader_good_def)
  have len: "length (reader_rest r) < length es" using rest assms(1) by (auto simp: good_schedule_def)
  from fr.run_body_complete [OF ok good len] rest
  show "deliver X E joins es gots (StreamBody (ReaderStream r)) cm = Some (drop start data, Ended)"
    by (auto simp: deliver_def)
  have "\<exists>b. run_body (truncate_poll reader_poll) es (n, r) = (truncated_rest reader_rest (n, r), Ended, b)"
    using ok good len by (intro frt.trunc.run_body_complete) (auto simp: truncated_rest_def)
  then show "deliver X E joins es gots (RangeBody n (ReaderStream r)) cm = Some (take n (drop start data), Ended)"
    using rest by (auto simp: deliver_def truncated_rest_def)
qed

lemma deliver_task:
  assumes "good_schedule (length data) joins es gots"
    and "t = \<lparr>vt_info = info, vt_size = length data, vt_offset = offset, vt_reader = reader_at data 0 65536\<rparr>"
  shows "deliver X E joins es gots (StreamBody (TaskStream t)) cm = Some (from_offset offset data, Ended)"
    and "deliver X E joins es gots (RangeBody n (TaskStream t)) cm = Some (take n (from_offset offset data), Ended)"
proof -
  obtain sent where "verify_loop (length data) offset joins (reader_at data 0 65536) 0 [] = Some (sent, Some data)"
    and ok: "all_sent sent" and rest: "sent_bytes sent = from_offset offset data"
    using verify_loop_complete [of joins data 0 65536 offset] assms(1) by (auto simp: good_schedule_def)
  then have "run_verify (extern.truncate X) E joins t cm =
      Some (sent, if x_sha1 (extern.truncate X) data \<noteq> fi_hash info then snd (remove_cache (extern.truncate X) E info cm) else cm)"
    by (simp add: run_verify_def assms(2))
  then obtain cm2 where run: "run_verify (extern.truncate X) E joins t cm = Some (sent, cm2)" by blast
  have len: "length (sent_bytes sent) < length gots" and good: "\<And>g b. g \<in> set gots \<Longrightarrow> g"
    using rest assms(1) by (auto simp: good_schedule_def)
  from ch.run_body_complete [OF ok good len] rest run
  show "deliver X E joins es gots (StreamBody (TaskStream t)) cm = Some (from_offset offset data, Ended)"
    by (auto simp: deliver_def)
  have "\<exists>b. run_body (truncate_poll channel_poll) gots (n, sent) = (truncated_rest sent_bytes (n, sent), Ended, b)"
    using ok good len by (intro cht.trunc.run_body_complete) (auto simp: truncated_rest_def)
  then show "deliver X E joins es gots (RangeBody n (TaskStream t)) cm = Some (take n (from_offset offset data), Ended)"
    using rest run by (auto simp: deliver_def truncated_rest_def)
qed

text \<open>
  C6.  A valid link to a cached file is answered with exactly what was asked for: status 200 and the
  whole file, or, for a single satisfiable range, status 206 with the bytes of that range, whether
  the file is streamed as it is or read and verified, and however the reads are chunked.
\<close>

theorem hath_serves_exactly:
  assumes "keystamp_ok X (clock E) c file_id (get_or ''keystamp'' (parse_additional additional) [])"
    and "from_file_id (x_dec X) file_id = Some info" "hh_if_none_match hs \<noteq> Some (etag_of X info)"
    and "the_range X hs (etag_of X info) (unat (fi_size info)) = rg"
    and "\<And>a b. rg = Some (a, b) \<Longrightarrow> a \<le> b \<and> b < unat (fi_size info)"
    and "io_ok E" "lookup (disk cm) (to_path (x_enc X) info (cache_dir cm)) = Some (File f)"
    and "length (f_data f) = unat (fi_size info)" "good_schedule (length (f_data f)) joins es gots"
  shows "\<exists>resp cm'. hath X E c file_id additional name hs cm = (Respond resp, cm') \<and>
    (case rg of
       None \<Rightarrow> h_status resp = 200 \<and> deliver X E joins es gots (h_body resp) cm' = Some (f_data f, Ended)
     | Some (a, b) \<Rightarrow> h_status resp = 206 \<and>
         deliver X E joins es gots (h_body resp) cm' = Some (take (b + 1 - a) (drop a (f_data f)), Ended))"
proof -
  obtain stream cm' where get: "get_file (extern.truncate X) E info (map_option fst rg) cm =
      (if map_option fst rg = None \<or> (map_option fst rg = Some 0 \<and> clock E - one_week \<le> f_mtime f)
       then Full stream else Partial stream, cm')"
    and stream: "stream = (if clock E - one_week \<le> f_mtime f
      then ReaderStream (reader_new \<lparr>file_data = f_data f, file_pos = (case map_option fst rg of None \<Rightarrow> 0 | Some o' \<Rightarrow> o')\<rparr> 65536)
      else TaskStream \<lparr>vt_info = info, vt_size = length (f_data f), vt_offset = map_option fst rg, vt_reader = reader_at (f_data f) 0 65536\<rparr>)"
    using get_file_result [of E cm "extern.truncate X" info f "map_option fst rg"] assms(6-8) by (auto simp: extern.truncate_def)
  note del = deliver_reader [OF assms(9) refl] deliver_task [OF assms(9) refl]
  show ?thesis
  proof (cases rg)
    case None
    with assms(1-4) get stream show ?thesis
      by (auto simp: hath_def Let_def hit_response_def del)
  next
    case (Some ab)
    obtain a b where ab: "ab = (a, b)" by (metis surj_pair)
    with Some assms(5) have le: "b - a + 1 = b + 1 - a" by force
    with Some ab assms(1-4) get stream show ?thesis
      by (auto simp: hath_def Let_def hit_response_def del)
  qed
qed

text \<open>A valid link of the sample client.\<close>

definition sample_id :: string where
  "sample_id = file_name hex_encode (sample_info\<lparr>fi_size := 3\<rparr>)"

definition sample_link :: string where
  "sample_link = ''keystamp=2000000000-'' @ hotlink_hash sample_route_ext ''2000000000'' sample_id ''key''"

lemma sample_link_ok:
  "keystamp_ok sample_route_ext (from_unix_time 2000000000) (rpc_new 1 ''key'' False 0 None) sample_id
     (get_or ''keystamp'' (parse_additional sample_link) [])"
proof -
  let ?h = "hotlink_hash sample_route_ext ''2000000000'' sample_id ''key''"
  have hex: "set ?h \<subseteq> set hex_chars" using hx.enc_chars by (simp add: hotlink_hash_def string_to_hash_def)
  then have sep: "CHR '';'' \<notin> set ?h" "CHR ''='' \<notin> set ?h" "CHR ''-'' \<notin> set ?h" by (auto simp: hex_chars_def)
  have "length ?h = 40" using sx.sha1_length by (simp add: hotlink_hash_def string_to_hash_def hx.enc_length)
  then have ne: "?h \<noteq> []" by auto
  have stamp: "get_or ''keystamp'' (parse_additional sample_link) [] = ''2000000000'' @ CHR ''-'' # ?h"
    using sep by (simp add: sample_link_def parse_additional_def get_or_def str_simps)
  have "split_on (CHR ''-'') (''2000000000'' @ CHR ''-'' # ?h) = [''2000000000'', ?h]"
    by (subst split_on_append_sep) (simp_all add: split_on_no_sep sep)
  with stamp ne sample_timestemp show ?thesis
    by (simp add: keystamp_ok_def Let_def parse_eval i64_sub_exact is_i64_def TTL_contains_def) (simp add: rpc_new_def)
qed

theorem hath_serves_exactly_witness:
  "\<exists>resp cm'. hath sample_route_ext sample_env (rpc_new 1 ''key'' False 0 None) sample_id sample_link ''n''
       \<lparr>hh_if_none_match = None, hh_range = Some ''bytes=1-2'', hh_if_range = None\<rparr>
       (sample_manager [(to_path hex_encode (sample_info\<lparr>fi_size := 3\<rparr>) ''c'', File \<lparr>f_data = [7, 8, 9], f_mtime = 0\<rparr>)] []) =
       (Respond resp, cm') \<and> h_status resp = 206 \<and>
     deliver sample_route_ext sample_env (replicate 3 (Some (Inr 1))) (replicate 4 (TaskRead (Inr 1))) (replicate 4 True) (h_body resp) cm' =
       Some ([8, 9], Ended)"
proof -
  let ?i = "sample_info\<lparr>fi_size := 3\<rparr>" and ?f = "\<lparr>f_data = [7, 8, 9], f_mtime = 0\<rparr>"
  let ?cm = "sample_manager [(to_path hex_encode ?i ''c'', File ?f)] []"
  let ?hs = "\<lparr>hh_if_none_match = None, hh_range = Some ''bytes=1-2'', hh_if_range = None\<rparr>"
  have wf: "wf_info ?i" by (simp add: wf_info_def sample_info_def proper_type_def file_type_from_def)
  have id: "from_file_id (x_dec sample_route_ext) sample_id = Some ?i"
    using hx.file_name_roundtrip [OF wf] by (simp add: sample_id_def stored_info_def sample_info_def)
  have rg: "the_range sample_route_ext ?hs (etag_of sample_route_ext ?i) (unat (fi_size ?i)) = Some (1, 2)"
    by (simp add: the_range_def)
  have l: "lookup (disk ?cm) (to_path (x_enc sample_route_ext) ?i (cache_dir ?cm)) = Some (File ?f)" by (simp add: sample_manager_def)
  have gs: "good_schedule (length (f_data ?f)) (replicate 3 (Some (Inr 1))) (replicate 4 (TaskRead (Inr 1))) (replicate 4 True)"
    by (simp add: good_schedule_def)
  have link: "keystamp_ok sample_route_ext (clock sample_env) (rpc_new 1 ''key'' False 0 None) sample_id
      (get_or ''keystamp'' (parse_additional sample_link) [])" using sample_link_ok by simp
  have sz: "length (f_data ?f) = unat (fi_size ?i)" by simp
  from hath_serves_exactly [OF link id _ rg _ _ l sz gs, of "''n''"] show ?thesis by simp
qed



text \<open>
  C5.  Commands need authority: unless the caller is a known server, the command carries the hash of
  all its fields under the client's key and is at most five minutes off the server clock, it is
  answered 403 and no command is issued.
\<close>

theorem servercmd_needs_authority:
  assumes "is_i64 time" "0 \<le> T" "T < 2 ^ 62" "T = get_timestemp X now c"
    and "\<not> is_vaild_rpc_server ip c \<or> 300 < \<bar>T - time\<bar> \<or>
      hash \<noteq> string_to_hash (x_sha1 X) (x_enc X) (''hentai@home-servercmd-'' @ command @ ''-'' @ additional @ ''-'' @
        show_int (client_id c) @ ''-'' @ show_int time @ ''-'' @ client_key c)"
  shows "servercmd X now c ip command additional time hash threads = (forbidden, [])"
proof -
  have "\<not> MAX_KEY_TIME_DRIFT_contains (i64_sub T time)" if "300 < \<bar>T - time\<bar>"
  proof -
    have "\<not> \<bar>i64_sub T time\<bar> \<le> 300" using i64_sub_window [OF assms(1-3), of 300] that by fastforce
    then show ?thesis unfolding MAX_KEY_TIME_DRIFT_contains_def by linarith
  qed
  with assms(4,5) show ?thesis by (auto simp: servercmd_def)
qed

theorem servercmd_needs_authority_witness:
  "servercmd sample_route_ext (from_unix_time 2000000000) (rpc_new 1 ''key'' False 0 None) ''10.0.0.1'' ''refresh_settings'' [] 2000000000 ''00'' []
     = (forbidden, [])"
  using sample_timestemp
  by (intro servercmd_needs_authority [of _ 2000000000]) (simp_all add: is_i64_def is_vaild_rpc_server_def rpc_new_def)

text \<open>
  The proxy test ignores the test time it was given: the time in the URLs it requests is that of the
  command, so the answer and the URLs are the same for every valid \<^verbatim>\<open>testtime\<close>.
\<close>

theorem proxy_test_ignores_testtime:
  assumes "parse_uint 64 t1 = Some n1" "parse_uint 64 t2 = Some n2" "n1 \<noteq> 0" "n2 \<noteq> 0"
  shows "threaded_proxy_test (insert_map ''testtime'' t1 add) time threads =
    threaded_proxy_test (insert_map ''testtime'' t2 add) time threads"
  using assms by (simp add: threaded_proxy_test_def get_or_def Let_def)

theorem proxy_test_ignores_testtime_witness:
  "threaded_proxy_test (insert_map ''testtime'' ''5'' [(''hostname'', ''h'')]) 7 [] = threaded_proxy_test (insert_map ''testtime'' ''6'' [(''hostname'', ''h'')]) 7 []"
  by (rule proxy_test_ignores_testtime [of _ 5 _ 6]) (simp_all add: parse_eval)

text \<open>
  A speed test response carries exactly the number of bytes it announces.
\<close>

theorem speedtest_body_length:
  assumes "length buffer = BUFFER_SIZE" "n < length es"
  shows "\<exists>d r. run_body random_poll es \<lparr>rnd_buffer = buffer, rnd_size = n, rnd_filled = 0\<rparr> = (d, Ended, r) \<and> length d = n"
proof -
  let ?r = "\<lparr>rnd_buffer = buffer, rnd_size = n, rnd_filled = 0\<rparr>"
  have ok: "random_ok ?r" using assms(1) by (simp add: random_ok_def)
  with rnd.run_body_complete [of ?r es] random_rest_length [of ?r] assms(2) show ?thesis by fastforce
qed

theorem speedtest_body_length_witness:
  "\<exists>d r. run_body random_poll (replicate 20001 ()) \<lparr>rnd_buffer = replicate BUFFER_SIZE 7, rnd_size = 20000, rnd_filled = 0\<rparr> = (d, Ended, r) \<and>
     length d = 20000"
  by (rule speedtest_body_length) simp_all

end
