(* ===== verification/Server.thy ===== *)
theory Server
  imports FloodControl Route
begin

text \<open>
  \<^verbatim>\<open>src/server/\<close>: the certificate store, the cached date header, the accept loop with its flood control and
  its shutdown, and the way an HTTP/3 stream sends a response.  Sockets, TLS and QUIC are third-party;
  what they deliver arrives as events.
\<close>

section \<open>cert.rs\<close>

record parsed_cert =
  pc_certs :: "bytes list"
  pc_key :: bytes

text \<open>A parsed PKCS12 file, as \<^verbatim>\<open>p12\<close> presents it.\<close>

record pfx =
  pfx_keys :: "string \<Rightarrow> bytes list option"
  pfx_certs :: "string \<Rightarrow> bytes list option"

definition from_p12 :: "(bytes \<Rightarrow> pfx option) \<Rightarrow> bytes \<Rightarrow> string \<Rightarrow> parsed_cert option" where
  "from_p12 parse p12 password =
     (case parse p12 of
        None \<Rightarrow> None
      | Some p \<Rightarrow>
          (case pfx_keys p password of
             None \<Rightarrow> None
           | Some keys \<Rightarrow>
               if keys = [] then None
               else (case pfx_certs p password of
                       None \<Rightarrow> None
                     | Some certs \<Rightarrow> Some \<lparr>pc_certs = certs, pc_key = last keys\<rparr>)))"

text \<open>\<open>certify\<close> is \<^verbatim>\<open>CertifiedKey::from_der\<close> with the provider; \<open>covers\<close> is \<^verbatim>\<open>verify_server_name\<close> on the
  parsed end entity certificate.\<close>

record 'k cert_store =
  cs_cert :: 'k
  cs_strict :: bool

definition cert_store_new :: "(parsed_cert \<Rightarrow> 'k option) \<Rightarrow> parsed_cert \<Rightarrow> bool \<Rightarrow> 'k cert_store option" where
  "cert_store_new certify cert strict = map_option (\<lambda>k. \<lparr>cs_cert = k, cs_strict = strict\<rparr>) (certify cert)"

definition cert_update :: "(parsed_cert \<Rightarrow> 'k option) \<Rightarrow> parsed_cert \<Rightarrow> 'k cert_store \<Rightarrow> bool \<times> 'k cert_store" where
  "cert_update certify cert s =
     (case certify cert of None \<Rightarrow> (False, s) | Some k \<Rightarrow> (True, s\<lparr>cs_cert := k\<rparr>))"

definition cert_resolve :: "('k \<Rightarrow> string \<Rightarrow> bool) \<Rightarrow> string option \<Rightarrow> 'k cert_store \<Rightarrow> 'k option" where
  "cert_resolve covers server_name s =
     (if cs_strict s
      then (case server_name of None \<Rightarrow> None | Some n \<Rightarrow> if covers (cs_cert s) n then Some (cs_cert s) else None)
      else Some (cs_cert s))"

section \<open>date_header.rs\<close>

text \<open>\<open>render\<close> formats a time, given in nanoseconds since the epoch, as an HTTP date.\<close>

record cached_date =
  cd_value :: string
  cd_next :: int

definition date_update :: "(int \<Rightarrow> string) \<Rightarrow> int \<Rightarrow> cached_date" where
  "date_update render now =
     (let nanos = (if 0 \<le> now then now mod 1000000000 else 0)
      in \<lparr>cd_value = render now, cd_next = now + 1000000000 - nanos\<rparr>)"

definition date_check :: "(int \<Rightarrow> string) \<Rightarrow> int \<Rightarrow> cached_date \<Rightarrow> cached_date" where
  "date_check render now c = (if now > cd_next c then date_update render now else c)"

definition update_and_header_value :: "(int \<Rightarrow> string) \<Rightarrow> int \<Rightarrow> cached_date \<Rightarrow> string \<times> cached_date" where
  "update_and_header_value render now c = (let c = date_check render now c in (cd_value c, c))"

section \<open>The accept loop\<close>

text \<open>The program counter: the check of the flag, the gap before the select is set up, the select with whether
  it was woken, and the end.\<close>

datatype accept_pc = Top | Checked | Waiting bool | Closed

record accept_state =
  al_flag :: bool
  al_pc :: accept_pc
  al_flood :: "flood_control option"
  al_handled :: "(ip_addr \<times> nat \<times> nat) list"
  al_refused :: "(ip_addr \<times> nat \<times> nat) list"

definition accept_start :: "nat option \<Rightarrow> accept_state" where
  "accept_start flood =
     \<lparr>al_flag = False, al_pc = Top, al_flood = map_option flood_new flood, al_handled = [], al_refused = []\<rparr>"

text \<open>A new connection: flood control, then either a reset or a task that serves it.\<close>

definition accept_conn :: "ip_addr \<times> nat \<times> nat \<Rightarrow> accept_state \<Rightarrow> accept_state" where
  "accept_conn c st =
     (case c of (addr, now, later) \<Rightarrow>
      let ip = to_canonical addr in
      (case al_flood st of
         None \<Rightarrow> st\<lparr>al_handled := al_handled st @ [(ip, now, later)]\<rparr>
       | Some fc \<Rightarrow>
           (case flood_hit now later ip fc of
              (True, fc) \<Rightarrow> st\<lparr>al_flood := Some fc, al_refused := al_refused st @ [(ip, now, later)]\<rparr>
            | (False, fc) \<Rightarrow> st\<lparr>al_flood := Some fc, al_handled := al_handled st @ [(ip, now, later)]\<rparr>)))"

text \<open>\<^verbatim>\<open>ServerHandle::shutdown\<close> is two steps of another thread: it stores the flag, and \<^verbatim>\<open>notify_waiters\<close>
  wakes a select that exists at that moment.\<close>

datatype accept_event = CheckFlag | Arm | Conn "ip_addr \<times> nat \<times> nat" | Wake | StoreFlag | NotifyWaiters

definition accept_step :: "accept_event \<Rightarrow> accept_state \<Rightarrow> accept_state" where
  "accept_step e st =
     (case (e, al_pc st) of
        (CheckFlag, Top) \<Rightarrow> st\<lparr>al_pc := (if al_flag st then Closed else Checked)\<rparr>
      | (Arm, Checked) \<Rightarrow> st\<lparr>al_pc := Waiting False\<rparr>
      | (Conn c, Waiting _) \<Rightarrow> accept_conn c (st\<lparr>al_pc := Top\<rparr>)
      | (Wake, Waiting True) \<Rightarrow> st\<lparr>al_pc := Closed\<rparr>
      | (StoreFlag, _) \<Rightarrow> st\<lparr>al_flag := True\<rparr>
      | (NotifyWaiters, Waiting _) \<Rightarrow> st\<lparr>al_pc := Waiting True\<rparr>
      | _ \<Rightarrow> st)"

section \<open>HTTP/3 responses\<close>

definition h3_headers :: "string \<Rightarrow> (string \<times> string) list \<Rightarrow> (string \<times> string) list" where
  "h3_headers date hs =
     (let hs = filter (\<lambda>(k, v). k \<noteq> ''Connection'') hs
      in if ''Date'' \<in> set (map fst hs) then hs else hs @ [(''Date'', date)])"

datatype h3_code = H3_EXCESSIVE_LOAD | H3_INTERNAL_ERROR | H3_REQUEST_CANCELLED

datatype h3_end = Complete | SendFailed | Reset h3_code

text \<open>The frames of the body, each with the answer of the stream to sending it; \<^const>\<open>None\<close> in place of a frame
  is the timeout.\<close>

fun h3_send_body :: "((io_error + frame) option \<times> bool) list \<Rightarrow> frame list \<times> h3_end" where
  "h3_send_body [] = ([], Complete)"
| "h3_send_body ((None, _) # rest) = ([], Reset H3_REQUEST_CANCELLED)"
| "h3_send_body ((Some (Inl err), _) # rest) = ([], Reset H3_INTERNAL_ERROR)"
| "h3_send_body ((Some (Inr f), ok) # rest) =
     (if ok then (case h3_send_body rest of (fs, e) \<Rightarrow> (f # fs, e)) else ([], SendFailed))"

text \<open>A request on an HTTP/3 connection: a blocked address gets neither a handler nor a response.\<close>

definition h3_request :: "nat \<Rightarrow> nat \<Rightarrow> ip_addr \<Rightarrow> flood_control option \<Rightarrow> h3_code option \<times> flood_control option" where
  "h3_request now later addr flood =
     (case flood of
        None \<Rightarrow> (None, None)
      | Some fc \<Rightarrow>
          (case flood_hit now later (to_canonical addr) fc of
             (blocked, fc) \<Rightarrow> (if blocked then Some H3_EXCESSIVE_LOAD else None, Some fc)))"

section \<open>Properties\<close>

subsection \<open>Date header\<close>

definition date_ok :: "(int \<Rightarrow> string) \<Rightarrow> int \<Rightarrow> cached_date \<Rightarrow> bool" where
  "date_ok render now c \<longleftrightarrow>
     (\<exists>t. 0 \<le> t \<and> t \<le> now \<and> cd_value c = render t \<and> cd_next c = (t div 1000000000 + 1) * 1000000000)"

lemma date_update_ok: "0 \<le> now \<Longrightarrow> date_ok render now (date_update render now)"
  using div_mult_mod_eq [of now 1000000000]
  by (auto simp: date_ok_def date_update_def Let_def algebra_simps intro!: exI [of _ now])

lemma date_check_ok: "date_ok render earlier c \<Longrightarrow> earlier \<le> now \<Longrightarrow> 0 \<le> now \<Longrightarrow> date_ok render now (date_check render now c)"
  by (cases "now > cd_next c") (simp add: date_check_def date_update_ok, force simp: date_check_def date_ok_def)

fun date_checks :: "(int \<Rightarrow> string) \<Rightarrow> int list \<Rightarrow> cached_date \<Rightarrow> cached_date" where
  "date_checks render [] c = c"
| "date_checks render (t # ts) c = date_checks render ts (date_check render t c)"

lemma date_checks_ok:
  "date_ok render t0 c \<Longrightarrow> sorted (t0 # ts) \<Longrightarrow> 0 \<le> t0 \<Longrightarrow> date_ok render (last (t0 # ts)) (date_checks render ts c)"
proof (induction ts arbitrary: t0 c)
  case (Cons t ts)
  then have "date_ok render t (date_check render t c)" by (auto intro: date_check_ok)
  with Cons.IH [of t "date_check render t c"] Cons.prems show ?case by auto
qed simp

text \<open>
  The date of a response is at most one second old: as long as the clock does not go back, the
  cached header is the date of an instant of the current second, or of the second that ended at this
  very instant.
\<close>

theorem date_header_fresh:
  assumes "sorted (t0 # ts @ [now])" "0 \<le> t0"
  shows "\<exists>t. fst (update_and_header_value render now (date_checks render ts (date_update render t0))) = render t \<and>
    0 \<le> t \<and> t \<le> now \<and> now \<le> (t div 1000000000 + 1) * 1000000000"
proof -
  let ?c = "date_checks render (ts @ [now]) (date_update render t0)"
  have app: "date_checks render (as @ [b]) c = date_check render b (date_checks render as c)" for as b c
    by (induction as arbitrary: c) auto
  from date_checks_ok [OF date_update_ok [OF assms(2)], of "ts @ [now]"] assms obtain t where
    t: "0 \<le> t" "t \<le> now" "cd_value ?c = render t" "cd_next ?c = (t div 1000000000 + 1) * 1000000000"
    by (auto simp: date_ok_def)
  moreover have "now \<le> cd_next ?c"
  proof -
    have "0 \<le> now" using t by simp
    then have "now \<le> cd_next (date_update render now)"
      using pos_mod_bound [of 1000000000 now] by (simp add: date_update_def Let_def)
    then show ?thesis by (simp add: app date_check_def)
  qed
  ultimately show ?thesis by (auto simp: update_and_header_value_def app Let_def)
qed

theorem date_header_fresh_witness:
  "\<exists>t. fst (update_and_header_value (\<lambda>t. show_int (t div 1000000000)) 2500000000 (date_checks (\<lambda>t. show_int (t div 1000000000)) [1700000000] (date_update (\<lambda>t. show_int (t div 1000000000)) 1500000000)))
     = show_int (t div 1000000000) \<and> 2500000000 \<le> (t div 1000000000 + 1) * (1000000000 :: int)"
  using date_header_fresh [of 1500000000 "[1700000000]" 2500000000 "\<lambda>t. show_int (t div 1000000000)"] by auto

subsection \<open>Shutdown of the accept loop\<close>

definition accepted :: "accept_state \<Rightarrow> nat" where
  "accepted st = length (al_handled st) + length (al_refused st)"

definition may_accept :: "accept_state \<Rightarrow> nat" where
  "may_accept st = (case al_pc st of Checked \<Rightarrow> 1 | Waiting _ \<Rightarrow> 1 | _ \<Rightarrow> 0)"

lemma accept_conn_frame:
  "al_flag (accept_conn c st) = al_flag st" "al_pc (accept_conn c st) = al_pc st" "accepted (accept_conn c st) = accepted st + 1"
  by (auto simp: accept_conn_def accepted_def Let_def split: prod.split option.split bool.split)

lemma accept_step_after_flag:
  assumes "al_flag st"
  shows "al_flag (accept_step e st) \<and> accepted (accept_step e st) + may_accept (accept_step e st) \<le> accepted st + may_accept st"
proof (cases e)
  case (Conn c)
  with assms show ?thesis
    by (cases "al_pc st") (simp_all add: accept_step_def accept_conn_frame may_accept_def accepted_def [of "st\<lparr>al_pc := Top\<rparr>"] accepted_def [of st])
qed (use assms in \<open>auto simp: accept_step_def may_accept_def accepted_def split: accept_pc.split bool.split\<close>)

lemma accept_run_after_flag:
  "al_flag st \<Longrightarrow> accepted (fold accept_step es st) + may_accept (fold accept_step es st) \<le> accepted st + may_accept st"
proof (induction es arbitrary: st)
  case (Cons e es)
  from accept_step_after_flag [OF Cons.prems, of e] Cons.IH [of "accept_step e st"] show ?case by simp
qed simp

text \<open>
  After the shutdown flag is set the loop takes at most one more connection, however its own
  steps and those of the shutdown interleave.
\<close>

theorem shutdown_accepts_at_most_one_more:
  assumes "al_flag st"
  shows "accepted (fold accept_step es st) \<le> accepted st + 1"
  using accept_run_after_flag [OF assms, of es] by (auto simp: may_accept_def split: accept_pc.splits)

theorem shutdown_accepts_at_most_one_more_witness:
  "accepted (fold accept_step [Arm, Conn (V4 1, 5, 5), CheckFlag, Arm, Conn (V4 2, 6, 6)]
     (fold accept_step [CheckFlag, StoreFlag] (accept_start None))) \<le> 1"
proof -
  let ?st = "fold accept_step [CheckFlag, StoreFlag] (accept_start None)"
  have "al_flag ?st" "accepted ?st = 0" by (simp_all add: accept_step_def accept_start_def accepted_def)
  with shutdown_accepts_at_most_one_more [of ?st "[Arm, Conn (V4 1, 5, 5), CheckFlag, Arm, Conn (V4 2, 6, 6)]"] show ?thesis by simp
qed

text \<open>
  A shutdown can go unnoticed: when it happens between the check of the flag and the set-up of the
  select, the notification wakes nobody, and from then on nothing but a new connection moves the loop.
\<close>

theorem shutdown_can_be_missed:
  assumes "set es \<subseteq> {CheckFlag, Arm, Wake}"
  shows "let st = fold accept_step [CheckFlag, StoreFlag, NotifyWaiters, Arm] (accept_start flood)
    in al_flag st \<and> fold accept_step es st = st \<and> al_pc st = Waiting False"
proof -
  let ?st = "fold accept_step [CheckFlag, StoreFlag, NotifyWaiters, Arm] (accept_start flood)"
  have st: "al_flag ?st" "al_pc ?st = Waiting False" by (simp_all add: accept_step_def accept_start_def)
  then have "accept_step e ?st = ?st" if "e \<in> {CheckFlag, Arm, Wake}" for e
    using that by (auto simp: accept_step_def [of e])
  with assms have "fold accept_step es ?st = ?st" by (induction es) auto
  with st show ?thesis by (simp add: Let_def)
qed

theorem shutdown_can_be_missed_witness:
  "al_pc (fold accept_step [Wake, CheckFlag, Wake] (fold accept_step [CheckFlag, StoreFlag, NotifyWaiters, Arm] (accept_start None))) = Waiting False"
  using shutdown_can_be_missed [of "[Wake, CheckFlag, Wake]" None] by (simp add: Let_def)

subsection \<open>Flood control in the accept loop\<close>

definition canonical :: "ip_addr \<times> nat \<times> nat \<Rightarrow> ip_addr \<times> nat \<times> nat" where
  "canonical c = (to_canonical (fst c), snd c)"

definition accept_rounds :: "(ip_addr \<times> nat \<times> nat) list \<Rightarrow> accept_event list" where
  "accept_rounds cs = concat (map (\<lambda>c. [CheckFlag, Arm, Conn c]) cs)"

lemma accept_rounds_flood:
  "al_pc st = Top \<Longrightarrow> \<not> al_flag st \<Longrightarrow> al_flood st = Some fc \<Longrightarrow>
   al_handled (fold accept_step (accept_rounds cs) st) =
     al_handled st @ map fst (filter (\<lambda>p. \<not> snd p) (zip (map canonical cs) (fst (flood_run (map canonical cs) fc))))"
proof (induction cs arbitrary: st fc)
  case Nil
  then show ?case by (simp add: accept_rounds_def)
next
  case (Cons c cs)
  obtain addr now later where c: "c = (addr, now, later)" by (metis surj_pair)
  obtain r fc' where hit: "flood_hit now later (to_canonical addr) fc = (r, fc')" by fastforce
  let ?st = "accept_conn c (st\<lparr>al_pc := Top\<rparr>)"
  have st: "fold accept_step (accept_rounds (c # cs)) st = fold accept_step (accept_rounds cs) ?st"
    using Cons.prems by (simp add: accept_step_def accept_rounds_def)
  have "al_pc ?st = Top" "\<not> al_flag ?st" using Cons.prems by (simp_all add: accept_conn_frame)
  moreover have "al_flood ?st = Some fc'"
    "al_handled ?st = al_handled st @ (if r then [] else [(to_canonical addr, now, later)])"
    using Cons.prems hit by (auto simp: accept_conn_def c Let_def split: bool.split)
  ultimately show ?case
    unfolding st using Cons.IH [of ?st fc'] hit by (simp add: c canonical_def split_beta Let_def)
qed

text \<open>Of a burst of one address the flood control lets nine hits through.\<close>

lemma burst_served:
  assumes "ticks t0 es" "sorted (times_of ip es)" "\<forall>t \<in> set (times_of ip es). t1 \<le> t \<and> t < t1 + secs 1"
  shows "length (filter (\<lambda>c. fst c = ip) (map fst (filter (\<lambda>p. \<not> snd p) (zip es (fst (flood_run es (flood_new t0))))))) =
    min 9 (length (times_of ip es))"
proof -
  let ?rs = "fst (flood_run es (flood_new t0))"
  have "length (filter (\<lambda>c. fst c = ip) (map fst (filter (\<lambda>p. \<not> snd p) (zip es rs)))) = length (filter Not (results_of ip es rs))" for es rs
    by (induction es rs rule: list_induct2') (auto simp: results_of_def)
  moreover have "results_of ip es ?rs = map (\<lambda>k. 9 \<le> k) [0..<length (times_of ip es)]"
    using bucket_seq_burst [of 0 "times_of ip es" t1 0 0] assms by (simp add: flood_observed empty_bucket_def)
  moreover have "length (filter Not (map (\<lambda>k. 9 \<le> k) [0..<n])) = min 9 n" for n :: nat
    by (induction n) auto
  ultimately show ?thesis by simp
qed



end
