(* ===== verification/Middleware.thy ===== *)
theory Middleware
  imports Route
begin

text \<open>
  \<^verbatim>\<open>src/middleware/\<close>: the connection counter with its overload notification, the request logger that
  counts the bytes of a body while it passes them on, and the header layer.
\<close>

section \<open>connection_counter.rs\<close>

text \<open>A request is in the inner service, then its response body is sent, then it is gone.  The counter
  is given back by the scope guard in the first phase and by the finalizer of the body in the second.\<close>

datatype req_phase = InService | InBody | Gone

record conn_state =
  cs_counter :: u64
  cs_channel :: "command list"
  cs_requests :: "req_phase list"

text \<open>\<^verbatim>\<open>(max_connection as f64 * 0.8).ceil() as u64\<close>; the floating point product is within half a unit in
  the last place of four fifths, so that its ceiling is this one for every limit below \<open>2 ^ 50\<close>.\<close>

definition overload_threshold :: "u64 \<Rightarrow> nat" where
  "overload_threshold max_conn = (4 * unat max_conn + 4) div 5"

text \<open>\<^verbatim>\<open>try_send\<close> on the command channel, which holds one command.\<close>

definition try_send :: "command \<Rightarrow> command list \<Rightarrow> command list" where
  "try_send c ch = (if ch = [] then [c] else ch)"

definition conn_call :: "u64 \<Rightarrow> conn_state \<Rightarrow> conn_state" where
  "conn_call max_conn st =
     st\<lparr>cs_counter := cs_counter st + 1,
        cs_channel := (if unat (cs_counter st) > overload_threshold max_conn then try_send Overload (cs_channel st) else cs_channel st),
        cs_requests := cs_requests st @ [InService]\<rparr>"

datatype conn_event = Call u64 | ServiceOk nat | ServiceErr nat | DropFuture nat | DropBody nat | Recv

definition leave :: "nat \<Rightarrow> req_phase \<Rightarrow> conn_state \<Rightarrow> conn_state" where
  "leave i phase st =
     (if i < length (cs_requests st) \<and> cs_requests st ! i = phase
      then st\<lparr>cs_counter := cs_counter st - 1, cs_requests := (cs_requests st)[i := Gone]\<rparr> else st)"

definition conn_step :: "conn_event \<Rightarrow> conn_state \<Rightarrow> conn_state" where
  "conn_step e st =
     (case e of
        Call max_conn \<Rightarrow> conn_call max_conn st
      | ServiceOk i \<Rightarrow>
          if i < length (cs_requests st) \<and> cs_requests st ! i = InService
          then st\<lparr>cs_requests := (cs_requests st)[i := InBody]\<rparr> else st
      | ServiceErr i \<Rightarrow> leave i InService st
      | DropFuture i \<Rightarrow> leave i InService st
      | DropBody i \<Rightarrow> leave i InBody st
      | Recv \<Rightarrow> st\<lparr>cs_channel := drop 1 (cs_channel st)\<rparr>)"

definition conn_new :: conn_state where
  "conn_new = \<lparr>cs_counter = 0, cs_channel = [], cs_requests = []\<rparr>"

definition live_requests :: "conn_state \<Rightarrow> nat" where
  "live_requests st = length (filter (\<lambda>p. p \<noteq> Gone) (cs_requests st))"

definition conn_inv :: "conn_state \<Rightarrow> bool" where
  "conn_inv st \<longleftrightarrow> cs_counter st = of_nat (live_requests st) \<and> length (cs_channel st) \<le> 1"

lemma live_update:
  assumes "i < length ps" "ps ! i \<noteq> Gone"
  shows "length (filter (\<lambda>p. p \<noteq> Gone) (ps[i := Gone])) + 1 = length (filter (\<lambda>p. p \<noteq> Gone) ps)"
    and "p \<noteq> Gone \<Longrightarrow> length (filter (\<lambda>p. p \<noteq> Gone) (ps[i := p])) = length (filter (\<lambda>p. p \<noteq> Gone) ps)"
proof -
  have ps: "ps = take i ps @ ps ! i # drop (Suc i) ps" using assms(1) by (rule id_take_nth_drop)
  have up: "ps[i := q] = take i ps @ q # drop (Suc i) ps" for q using assms(1) by (rule upd_conv_take_nth_drop)
  show "length (filter (\<lambda>p. p \<noteq> Gone) (ps[i := Gone])) + 1 = length (filter (\<lambda>p. p \<noteq> Gone) ps)"
    using assms(2) by (subst (2) ps) (simp add: up)
  show "length (filter (\<lambda>p. p \<noteq> Gone) (ps[i := p])) = length (filter (\<lambda>p. p \<noteq> Gone) ps)" if "p \<noteq> Gone"
    using assms(2) that by (subst (2) ps) (simp add: up)
qed

lemma conn_inv_leave: "conn_inv st \<Longrightarrow> phase \<noteq> Gone \<Longrightarrow> conn_inv (leave i phase st)"
proof -
  assume inv: "conn_inv st" and ph: "phase \<noteq> Gone"
  show ?thesis
  proof (cases "i < length (cs_requests st) \<and> cs_requests st ! i = phase")
    case True
    with ph have "live_requests (leave i phase st) + 1 = live_requests st"
      using live_update(1) [of i "cs_requests st"] by (simp add: live_requests_def leave_def)
    then have "of_nat (live_requests st) - (1 :: u64) = of_nat (live_requests (leave i phase st))"
      by (metis add_diff_cancel_right' of_nat_1 of_nat_add)
    moreover have "cs_counter (leave i phase st) = cs_counter st - 1" "cs_channel (leave i phase st) = cs_channel st"
      using True by (simp_all add: leave_def)
    ultimately show ?thesis using inv by (simp only: conn_inv_def)
  qed (use inv in \<open>auto simp: leave_def\<close>)
qed

lemma conn_inv_step: "conn_inv st \<Longrightarrow> conn_inv (conn_step e st)"
proof (cases e)
  case (Call m)
  assume "conn_inv st"
  with Call show ?thesis by (auto simp: conn_step_def conn_call_def conn_inv_def live_requests_def try_send_def)
next
  case (ServiceOk i)
  assume inv: "conn_inv st"
  show ?thesis
  proof (cases "i < length (cs_requests st) \<and> cs_requests st ! i = InService")
    case True
    then have "live_requests (st\<lparr>cs_requests := (cs_requests st)[i := InBody]\<rparr>) = live_requests st"
      using live_update(2) [of i "cs_requests st" InBody] by (simp add: live_requests_def)
    with inv True ServiceOk show ?thesis by (simp add: conn_step_def conn_inv_def)
  qed (use inv ServiceOk in \<open>auto simp: conn_step_def\<close>)
next
  case Recv
  assume "conn_inv st"
  with Recv show ?thesis by (auto simp: conn_step_def conn_inv_def live_requests_def)
qed (simp_all add: conn_step_def conn_inv_leave)

lemma conn_inv_new: "conn_inv conn_new"
  by (simp add: conn_new_def conn_inv_def live_requests_def)

interpretation conns: stateful "\<lambda>st. st = conn_new" "\<lambda>st st'. \<exists>e. st' = conn_step e st" conn_inv
  by unfold_locales (auto simp: conn_inv_new conn_inv_step)

section \<open>logger.rs\<close>

text \<open>The line logged for a request, the announced size, and \<^verbatim>\<open>LoggerFinalizer::poll_frame\<close>.\<close>

definition request_line :: "string \<Rightarrow> string \<Rightarrow> string option \<Rightarrow> string \<Rightarrow> string" where
  "request_line method path query version =
     (case query of
        None \<Rightarrow> method @ '' '' @ path @ '' '' @ version
      | Some q \<Rightarrow> method @ '' '' @ path @ ''?'' @ q @ '' '' @ version)"

definition announced_size :: "bool \<Rightarrow> string option \<Rightarrow> u64" where
  "announced_size is_head content_length =
     (if is_head then 0
      else (case Option.bind content_length parse_u64 of Some n \<Rightarrow> n | None \<Rightarrow> 0))"

definition logger_poll :: "('e \<Rightarrow> 'b \<Rightarrow> frame_poll \<times> 'b) \<Rightarrow> 'e \<Rightarrow> u64 \<times> 'b \<Rightarrow> frame_poll \<times> u64 \<times> 'b" where
  "logger_poll poll_inner e this =
     (case this of (sz, body) \<Rightarrow>
      (case poll_inner e body of
         (Ready (Some (Inr (Data d))), body) \<Rightarrow> (Ready (Some (Inr (Data d))), sz + of_nat (length d), body)
       | (p, body) \<Rightarrow> (p, sz, body)))"

text \<open>A logged body keeps the contract of the body it wraps.\<close>

locale logged = live_body

sublocale logged \<subseteq> logd: live_body "logger_poll poll" "\<lambda>this. ok (snd this)" "\<lambda>this. rest (snd this)" "\<lambda>e this. good e (snd this)"
proof unfold_locales
  fix e p b b'
  assume ok: "ok (snd b)" and p: "logger_poll poll e b = (p, b')"
  obtain q c where q: "poll e (snd b) = (q, c)" by (metis surj_pair)
  with p have b': "p = q" "snd b' = c"
    by (auto simp: logger_poll_def split: prod.splits poll.splits option.splits sum.splits frame.splits)
  show "ok (snd b')" using poll_ok [OF ok q] b' by simp
  from poll_rest [OF ok q] b' show "poll_law (\<lambda>this. rest (snd this)) b p b'"
    by (simp add: poll_law_def split: poll.splits option.splits sum.splits frame.splits)
  show "p = Ready None \<or> (\<exists>d. p = Ready (Some (Inr (Data d))) \<and> d \<noteq> [])" if "good e (snd b)"
    using progress [OF ok that q] b' by simp
qed

interpretation lfr: logged reader_poll reader_ok reader_rest reader_good ..

section \<open>mod.rs\<close>

definition default_headers :: "string \<Rightarrow> http_response \<Rightarrow> http_response" where
  "default_headers server r = r\<lparr>h_headers := filter (\<lambda>(k, v). k \<noteq> ''Server'') (h_headers r) @ [(''Server'', server)]\<rparr>"

section \<open>Properties\<close>

text \<open>
  The connection counter is exact: after any sequence of requests, responses, errors and
  cancellations it is the number of requests being served or sent, so that no way of ending a request
  leaks a count, and the overload command is queued at most once.
\<close>

theorem connection_counter_exact:
  "cs_counter (fold conn_step es conn_new) = of_nat (live_requests (fold conn_step es conn_new)) \<and>
   length (cs_channel (fold conn_step es conn_new)) \<le> 1"
proof -
  have "conn_inv st \<Longrightarrow> conn_inv (fold conn_step es st)" for st
    by (induction es arbitrary: st) (auto intro: conn_inv_step)
  moreover have "conn_inv conn_new" by (rule conns.init_inv) simp
  ultimately show ?thesis by (simp add: conn_inv_def)
qed

text \<open>
  C35.  The request logger is transparent and counts right: polling through it delivers what the inner body
  delivers and ends as it ends, and the size it reports is the number of bytes delivered.
\<close>

theorem logger_body_counts:
  "run_body (logger_poll poll) es (sz, b) =
     (case run_body poll es b of (d, s, b') \<Rightarrow> (d, s, sz + of_nat (length d), b'))"
proof (induction es arbitrary: sz b)
  case (Cons e es)
  then show ?case
    by (simp add: logger_poll_def add.assoc split: prod.split poll.split option.split sum.split frame.split)
qed simp

end
