(* ===== verification/LogFiles.thy ===== *)
theory LogFiles
  imports Prelude "HOL-Library.Sublist"
begin

text \<open>
  \<^verbatim>\<open>src/logger.rs\<close>: the level filter of \<^verbatim>\<open>LoggerWorker::log\<close>, the worker with its two log files, their
  rotation and the console, and the way the queue is drained at shutdown.  A file is the list of its
  lines.  Whether a rename or the creation of a file succeeds is an argument; a failure there is an
  \<^verbatim>\<open>unwrap\<close> that ends the worker.
\<close>

section \<open>Levels and configuration\<close>

datatype level = Error | Warn | Info | Debug | Trace

fun level_num :: "level \<Rightarrow> nat" where
  "level_num Error = 1" | "level_num Warn = 2" | "level_num Info = 3" | "level_num Debug = 4" | "level_num Trace = 5"

record logger_config =
  write_info :: bool
  flush_each :: bool
  console_level :: u8

definition default_config :: logger_config where
  "default_config = \<lparr>write_info = True, flush_each = False, console_level = 0\<rparr>"

text \<open>\<^verbatim>\<open>LevelFilter\<close> as the number of its most verbose level; \<^verbatim>\<open>Off\<close> is 0.\<close>

definition console_filter :: "u8 \<Rightarrow> nat" where
  "console_filter l = (if l = 0 then level_num Debug else if l = 1 then level_num Info
     else if l = 2 then level_num Warn else if l = 3 then level_num Error else 0)"

record log_message =
  lm_level :: level
  lm_text :: string

section \<open>A rotated file\<close>

record log_file =
  lf_count :: u32
  lf_cur :: "string list"
  lf_old :: "string list"

record rotation =
  rot_exists :: bool
  rot_renamed :: bool
  rot_created :: bool

text \<open>\<^verbatim>\<open>rotate_log\<close> followed by \<^verbatim>\<open>File::create\<close>: a file that is not there is not renamed, and creating
  truncates.\<close>

definition rotate_log :: "rotation \<Rightarrow> log_file \<Rightarrow> log_file option" where
  "rotate_log r f =
     (if rot_exists r
      then (if rot_renamed r \<and> rot_created r then Some (f\<lparr>lf_old := lf_cur f, lf_cur := []\<rparr>) else None)
      else if rot_created r then Some (f\<lparr>lf_cur := []\<rparr>) else None)"

definition write_line :: "rotation \<Rightarrow> string \<Rightarrow> log_file \<Rightarrow> log_file option" where
  "write_line r msg f =
     (let f = f\<lparr>lf_count := lf_count f + 1\<rparr> in
      map_option (\<lambda>f. f\<lparr>lf_cur := lf_cur f @ [msg]\<rparr>)
        (if lf_count f > 100000 then map_option (\<lambda>f. f\<lparr>lf_count := 0\<rparr>) (rotate_log r f) else Some f))"

section \<open>The worker\<close>

record log_worker =
  lw_config :: logger_config
  lw_queue :: "log_message list"
  lw_closed :: bool
  lw_out :: log_file
  lw_err :: log_file
  lw_stdout :: "string list"
  lw_stderr :: "string list"
  lw_ended :: bool

text \<open>\<^verbatim>\<open>Log::log\<close>: the message goes to the queue unless it is too verbose or the queue is closed.\<close>

definition log_send :: "level \<Rightarrow> string \<Rightarrow> log_worker \<Rightarrow> log_worker" where
  "log_send lvl msg w =
     (if level_num lvl \<le> level_num Debug \<and> \<not> lw_closed w \<and> \<not> lw_ended w
      then w\<lparr>lw_queue := lw_queue w @ [\<lparr>lm_level = lvl, lm_text = msg\<rparr>]\<rparr> else w)"

definition handle_message :: "rotation \<Rightarrow> log_message \<Rightarrow> log_worker \<Rightarrow> log_worker" where
  "handle_message r m w =
     (let shown = level_num (lm_level m) \<le> console_filter (console_level (lw_config w)) in
      if level_num (lm_level m) \<le> level_num Warn
      then
        let w = (if shown then w\<lparr>lw_stderr := lw_stderr w @ [lm_text m]\<rparr> else w) in
        (case write_line r (lm_text m) (lw_err w) of None \<Rightarrow> w\<lparr>lw_ended := True\<rparr> | Some f \<Rightarrow> w\<lparr>lw_err := f\<rparr>)
      else
        let w = (if shown then w\<lparr>lw_stdout := lw_stdout w @ [lm_text m]\<rparr> else w) in
        if write_info (lw_config w)
        then (case write_line r (lm_text m) (lw_out w) of None \<Rightarrow> w\<lparr>lw_ended := True\<rparr> | Some f \<Rightarrow> w\<lparr>lw_out := f\<rparr>)
        else w)"

text \<open>One turn of the loop: a message, the end of a closed queue, or the notification to shut down.\<close>

datatype log_event = Log level string | Recv rotation | Shutdown | Configure logger_config

definition log_step :: "log_event \<Rightarrow> log_worker \<Rightarrow> log_worker" where
  "log_step e w =
     (case e of
        Log lvl msg \<Rightarrow> log_send lvl msg w
      | Configure c \<Rightarrow> w\<lparr>lw_config := c\<rparr>
      | Shutdown \<Rightarrow> if lw_ended w then w else w\<lparr>lw_closed := True\<rparr>
      | Recv r \<Rightarrow>
          if lw_ended w then w
          else (case lw_queue w of
                  [] \<Rightarrow> if lw_closed w then w\<lparr>lw_ended := True\<rparr> else w
                | m # ms \<Rightarrow> handle_message r m (w\<lparr>lw_queue := ms\<rparr>)))"

text \<open>The start of the worker rotates both files and creates them.\<close>

definition log_start :: "rotation \<Rightarrow> rotation \<Rightarrow> string list \<times> string list \<Rightarrow> string list \<times> string list \<Rightarrow> log_worker" where
  "log_start r_out r_err out_files err_files =
     (let f = (\<lambda>r files. rotate_log r \<lparr>lf_count = 0, lf_cur = fst files, lf_old = snd files\<rparr>);
          empty = \<lparr>lf_count = 0, lf_cur = [], lf_old = []\<rparr>;
          w = \<lparr>lw_config = default_config, lw_queue = [], lw_closed = False, lw_out = empty, lw_err = empty,
               lw_stdout = [], lw_stderr = [], lw_ended = False\<rparr>
      in (case (f r_out out_files, f r_err err_files) of
            (Some out, Some err) \<Rightarrow> w\<lparr>lw_out := out, lw_err := err\<rparr>
          | _ \<Rightarrow> w\<lparr>lw_ended := True\<rparr>))"

section \<open>Rotation keeps the end of the log\<close>

text \<open>What a file promises about the lines \<open>written\<close> to it since the start: all of them as long as it was
  not rotated, then a suffix of them that is cut only at the start of the rotated file.\<close>

definition log_kept :: "string list \<Rightarrow> log_file \<Rightarrow> bool" where
  "log_kept written f \<longleftrightarrow>
     unat (lf_count f) \<le> 100000 \<and>
     (lf_cur f = written \<and> unat (lf_count f) = length written \<or>
      suffix (lf_old f @ lf_cur f) written \<and> 100000 \<le> length (lf_old f) \<and> length (lf_cur f) = unat (lf_count f) + 1)"

text \<open>The rotation at the start may find no file to rename; later the worker's own file is there.\<close>

definition start_ok :: "rotation \<Rightarrow> bool" where
  "start_ok r \<longleftrightarrow> rot_created r \<and> (rot_exists r \<longrightarrow> rot_renamed r)"

definition rotation_ok :: "rotation \<Rightarrow> bool" where
  "rotation_ok r \<longleftrightarrow> rot_exists r \<and> rot_renamed r \<and> rot_created r"

lemma unat_count_inc: "unat (n :: u32) \<le> 100000 \<Longrightarrow> unat (n + 1) = unat n + 1"
proof -
  assume n: "unat n \<le> 100000"
  have "unat (n + 1) = unat n + unat (1 :: u32)"
    by (rule unat_add_lem [THEN iffD1]) (use n in simp)
  then show ?thesis by simp
qed

lemma suffix_snoc: "suffix xs ys \<Longrightarrow> suffix (xs @ [y]) (ys @ [y])"
  by (auto simp: suffix_def)

lemma log_kept_write:
  assumes "log_kept written f" "rotation_ok r"
  obtains f' where "write_line r msg f = Some f'" "log_kept (written @ [msg]) f'"
proof -
  let ?n = "lf_count f"
  have n: "unat ?n \<le> 100000" using assms(1) by (simp add: log_kept_def)
  then have inc: "unat (?n + 1) = unat ?n + 1" by (rule unat_count_inc)
  show thesis
  proof (cases "?n + 1 > 100000")
    case True
    then have full: "unat ?n = 100000" using n inc by (simp add: word_less_nat_alt)
    have "suffix (lf_cur f) written" "100000 \<le> length (lf_cur f)"
      using assms(1) full by (auto simp: log_kept_def suffix_appendD)
    with True assms(2) that [of "f\<lparr>lf_count := 0, lf_old := lf_cur f, lf_cur := [msg]\<rparr>"] show thesis
      by (simp add: write_line_def rotate_log_def rotation_ok_def log_kept_def suffix_snoc)
  next
    case False
    then have "unat ?n + 1 \<le> 100000" using inc by (simp add: word_less_nat_alt)
    with False assms(1) inc that [of "f\<lparr>lf_count := ?n + 1, lf_cur := lf_cur f @ [msg]\<rparr>"] show thesis
      by (auto simp: write_line_def log_kept_def dest: suffix_snoc [of _ _ msg])
  qed
qed

lemma log_kept_recent:
  assumes "log_kept written f"
  shows "suffix (drop (length written - 100000) written) (lf_old f @ lf_cur f)" and "length (lf_cur f) \<le> 100001"
proof -
  show "length (lf_cur f) \<le> 100001" using assms by (auto simp: log_kept_def)
  show "suffix (drop (length written - 100000) written) (lf_old f @ lf_cur f)"
  proof (cases "lf_cur f = written \<and> unat (lf_count f) = length written")
    case True
    then show ?thesis by (auto intro: suffix_appendI suffix_drop)
  next
    case False
    with assms obtain pre where w: "written = pre @ lf_old f @ lf_cur f" and l: "100000 \<le> length (lf_old f)"
      by (auto simp: log_kept_def suffix_def)
    have "length pre \<le> length written - 100000" using w l by simp
    then have "drop (length written - 100000) written = drop (length written - 100000 - length pre) (lf_old f @ lf_cur f)"
      unfolding w by (subst drop_append) simp
    then show ?thesis by (simp only: suffix_drop)
  qed
qed

section \<open>The worker loses nothing\<close>

definition is_err :: "log_message \<Rightarrow> bool" where
  "is_err m \<longleftrightarrow> level_num (lm_level m) \<le> level_num Warn"

text \<open>The messages the queue took in so far, beside the worker.\<close>

definition admitted :: "log_event \<Rightarrow> log_worker \<Rightarrow> log_message list" where
  "admitted e w = drop (length (lw_queue w)) (case e of Log lvl msg \<Rightarrow> lw_queue (log_send lvl msg w) | _ \<Rightarrow> [])"

fun log_run :: "log_event list \<Rightarrow> log_message list \<times> log_worker \<Rightarrow> log_message list \<times> log_worker" where
  "log_run [] s = s"
| "log_run (e # es) s = log_run es (fst s @ admitted e (snd s), log_step e (snd s))"

definition worker_inv :: "log_message list \<times> log_worker \<Rightarrow> bool" where
  "worker_inv s \<longleftrightarrow>
     (\<exists>handled. fst s = handled @ lw_queue (snd s) \<and> log_kept (map lm_text (filter is_err handled)) (lw_err (snd s)) \<and>
        (lw_ended (snd s) \<longrightarrow> lw_queue (snd s) = [] \<and> lw_closed (snd s)))"

fun event_ok :: "log_event \<Rightarrow> bool" where
  "event_ok (Recv r) \<longleftrightarrow> rotation_ok r"
| "event_ok _ \<longleftrightarrow> True"

lemma write_line_ok: "rotation_ok r \<Longrightarrow> write_line r msg f \<noteq> None"
  by (simp add: write_line_def rotate_log_def rotation_ok_def Let_def)

lemma handle_message_frame:
  assumes "rotation_ok r"
  shows "lw_queue (handle_message r m w) = lw_queue w" "lw_closed (handle_message r m w) = lw_closed w"
    "lw_ended (handle_message r m w) = lw_ended w" "lw_config (handle_message r m w) = lw_config w"
    "\<not> is_err m \<Longrightarrow> lw_err (handle_message r m w) = lw_err w"
  using write_line_ok [OF assms, of "lm_text m" "lw_out w"] write_line_ok [OF assms, of "lm_text m" "lw_err w"]
  by (auto simp: handle_message_def Let_def is_err_def)

lemma handle_message_err:
  "is_err m \<Longrightarrow> write_line r (lm_text m) (lw_err w) = Some f \<Longrightarrow> lw_err (handle_message r m w) = f"
  by (simp add: handle_message_def is_err_def Let_def)

lemma handle_message_kept:
  assumes "log_kept (map lm_text (filter is_err handled)) (lw_err w)" "rotation_ok r"
  shows "log_kept (map lm_text (filter is_err (handled @ [m]))) (lw_err (handle_message r m w))"
proof (cases "is_err m")
  case True
  obtain f where "write_line r (lm_text m) (lw_err w) = Some f" "log_kept (map lm_text (filter is_err handled) @ [lm_text m]) f"
    using log_kept_write [OF assms] by blast
  with True show ?thesis by (simp add: handle_message_err)
next
  case False
  with assms show ?thesis by (simp add: handle_message_frame)
qed

lemma worker_inv_step:
  assumes "worker_inv (acc, w)" "event_ok e"
  shows "worker_inv (acc @ admitted e w, log_step e w)"
proof -
  from assms(1) obtain handled where h: "acc = handled @ lw_queue w" "log_kept (map lm_text (filter is_err handled)) (lw_err w)"
    and e: "lw_ended w \<Longrightarrow> lw_queue w = [] \<and> lw_closed w" by (auto simp: worker_inv_def)
  show ?thesis
  proof (cases e)
    case (Recv r)
    show ?thesis
    proof (cases "lw_ended w \<or> lw_queue w = []")
      case True
      with h e Recv show ?thesis by (auto simp: worker_inv_def log_step_def admitted_def)
    next
      case False
      then obtain m ms where q: "lw_queue w = m # ms" "\<not> lw_ended w" by (cases "lw_queue w") auto
      let ?w = "w\<lparr>lw_queue := ms\<rparr>"
      have r: "rotation_ok r" using assms(2) Recv by simp
      have "log_kept (map lm_text (filter is_err (handled @ [m]))) (lw_err (handle_message r m ?w))"
        using h(2) r by (intro handle_message_kept) simp_all
      with h(1) q Recv show ?thesis
        by (auto simp: worker_inv_def log_step_def admitted_def handle_message_frame [OF r] intro!: exI [of _ "handled @ [m]"])
    qed
  next
    case (Log lvl msg)
    with h e show ?thesis by (auto simp: worker_inv_def log_step_def admitted_def log_send_def)
  next
    case Shutdown
    with h e show ?thesis by (auto simp: worker_inv_def log_step_def admitted_def)
  next
    case (Configure c)
    with h e show ?thesis by (auto simp: worker_inv_def log_step_def admitted_def)
  qed
qed

lemma worker_inv_run: "list_all event_ok es \<Longrightarrow> worker_inv s \<Longrightarrow> worker_inv (log_run es s)"
proof (induction es arbitrary: s)
  case (Cons e es)
  from Cons.prems worker_inv_step [of "fst s" "snd s" e] have "worker_inv (fst s @ admitted e (snd s), log_step e (snd s))" by simp
  with Cons show ?case by simp
qed simp

section \<open>Properties\<close>


definition good_rotation :: rotation where
  "good_rotation = \<lparr>rot_exists = True, rot_renamed = True, rot_created = True\<rparr>"


end
