(* ===== verification/Gallery.thy ===== *)
theory Gallery
  imports CacheFile Disk Rpc
begin

text \<open>
  \<^verbatim>\<open>src/gallery_downloader.rs\<close>: parsing the gallery metadata the server sends and the name of the
  download directory.  Panics of the code (an index into a line with too few fields) are a branch of the
  result.  Strings are sequences of
  UTF-8 bytes; the grapheme boundaries of a title are a parameter.
\<close>

section \<open>Patterns\<close>

definition filename_char :: "char \<Rightarrow> bool" where
  "filename_char c \<longleftrightarrow>
     (let n = (of_char c :: nat) in
      (97 \<le> n \<and> n \<le> 122) \<or> (65 \<le> n \<and> n \<le> 90) \<or> (48 \<le> n \<and> n \<le> 57) \<or> c = CHR ''.'' \<or> c = CHR ''_'' \<or> c = CHR ''-'')"

definition allow_filetype :: "string \<Rightarrow> bool" where
  "allow_filetype s \<longleftrightarrow> s \<in> {''jpg'', ''gif'', ''png'', ''webp''}"

definition allow_filename :: "string \<Rightarrow> bool" where
  "allow_filename s \<longleftrightarrow> 1 \<le> length s \<and> length s \<le> 250 \<and> list_all filename_char s"

definition valid_minxres :: "string \<Rightarrow> bool" where
  "valid_minxres s \<longleftrightarrow> s = ''org'' \<or> (s \<noteq> [] \<and> list_all is_digit s)"

definition valid_dlhash :: "string \<Rightarrow> bool" where
  "valid_dlhash s \<longleftrightarrow> length s = 40 \<and> set s \<subseteq> set hex_chars"

definition title_forbidden :: "char \<Rightarrow> bool" where
  "title_forbidden c \<longleftrightarrow> c \<in> set ''*<>:|?/'' \<or> c = CHR 0x22 \<or> c = CHR 0x5C"

definition is_space :: "char \<Rightarrow> bool" where
  "is_space c \<longleftrightarrow> c \<in> {CHR 0x09, CHR 0x0A, CHR 0x0B, CHR 0x0C, CHR 0x0D, CHR 0x20}"

function squeeze_spaces :: "string \<Rightarrow> string" where
  "squeeze_spaces [] = []"
| "squeeze_spaces (c # cs) =
     (if is_space c then CHR '' '' # squeeze_spaces (dropWhile is_space cs) else c # squeeze_spaces cs)"
  by pat_completeness auto

termination squeeze_spaces
  by (relation "measure length") (auto simp: le_imp_less_Suc length_dropWhile_le)

definition trim_spaces :: "string \<Rightarrow> string" where
  "trim_spaces s = rev (dropWhile is_space (rev (dropWhile is_space s)))"

definition clean_title :: "string \<Rightarrow> string" where
  "clean_title s = trim_spaces (squeeze_spaces (filter (\<lambda>c. \<not> title_forbidden c) s))"

text \<open>\<^verbatim>\<open>Path::components\<close> on Unix, and \<^verbatim>\<open>is_safe_path\<close>.\<close>

datatype path_component = RootDir | CurDir | ParentDir | Normal string

definition components :: "string \<Rightarrow> path_component list" where
  "components s =
     (let parts = split_on (CHR ''/'') s in
      (if starts_with s ''/'' then [RootDir] else if hd parts = ''.'' then [CurDir] else []) @
      map (\<lambda>p. if p = ''..'' then ParentDir else Normal p) (filter (\<lambda>p. p \<noteq> [] \<and> p \<noteq> ''.'') parts))"

definition is_safe_path :: "string \<Rightarrow> bool" where
  "is_safe_path name \<longleftrightarrow> (case components name of [Normal _] \<Rightarrow> True | _ \<Rightarrow> False)"

section \<open>Metadata\<close>

record gallery_file =
  gf_page :: nat
  gf_fileindex :: nat
  gf_xres :: string
  gf_hash :: "bytes option"
  gf_filetype :: string
  gf_filename :: string

record gallery_meta =
  gm_gid :: int
  gm_filecount :: nat
  gm_minxres :: string
  gm_xres_title :: string
  gm_title :: string
  gm_information :: string
  gm_files :: "gallery_file list"

record parser_state = gallery_meta +
  ps_state :: nat
  ps_hash_body :: string
  ps_dl_hash :: string

datatype gallery_error = NumberError | InvalidFiletype | InvalidFilename | DlHashMismatch | IndexPanic

definition field :: "nat \<Rightarrow> string list \<Rightarrow> gallery_error + string" where
  "field i fs = (if i < length fs then Inr (fs ! i) else Inl IndexPanic)"

definition number :: "'n option \<Rightarrow> gallery_error + 'n" where
  "number n = (case n of Some n \<Rightarrow> Inr n | None \<Rightarrow> Inl NumberError)"

definition bind_res :: "'e + 'a \<Rightarrow> ('a \<Rightarrow> 'e + 'b) \<Rightarrow> 'e + 'b" where
  "bind_res r f = (case r of Inl e \<Rightarrow> Inl e | Inr a \<Rightarrow> f a)"

definition parse_meta_line :: "string \<Rightarrow> parser_state \<Rightarrow> gallery_error + parser_state" where
  "parse_meta_line s st =
     (let split = splitn 2 (CHR '' '') s; key = hd split; val = field 1 split in
      if key = ''GID'' then bind_res val (\<lambda>v. bind_res (number (parse_sint 32 v)) (\<lambda>n. Inr (st\<lparr>gm_gid := n\<rparr>)))
      else if key = ''FILECOUNT'' then bind_res val (\<lambda>v. bind_res (number (parse_uint 64 v)) (\<lambda>n. Inr (st\<lparr>gm_filecount := n\<rparr>)))
      else if key = ''MINXRES'' then bind_res val (\<lambda>v. Inr (if valid_minxres v then st\<lparr>gm_minxres := v\<rparr> else st))
      else if key = ''DLHASH'' then bind_res val (\<lambda>v. Inr (if valid_dlhash v then st\<lparr>ps_dl_hash := v\<rparr> else st))
      else if key = ''TITLE''
      then bind_res val (\<lambda>v. Inr (st\<lparr>gm_title := clean_title v,
             gm_xres_title := (if gm_minxres st = ''org'' then [] else ''-'' @ gm_minxres st @ ''x'')\<rparr>))
      else Inr st)"

definition parse_file_line :: "(string \<Rightarrow> bytes option) \<Rightarrow> string \<Rightarrow> gallery_error + gallery_file" where
  "parse_file_line dec s =
     (let split = splitn 6 (CHR '' '') s in
      bind_res (number (parse_uint 64 (hd split))) (\<lambda>page.
      bind_res (field 1 split) (\<lambda>f1. bind_res (number (parse_uint 64 f1)) (\<lambda>fileindex.
      bind_res (field 2 split) (\<lambda>xres.
      bind_res (field 3 split) (\<lambda>sha1hash.
      bind_res (field 4 split) (\<lambda>filetype.
      if \<not> allow_filetype filetype then Inl InvalidFiletype
      else bind_res (field 5 split) (\<lambda>filename.
        if \<not> is_safe_path filename \<or> \<not> allow_filename filename then Inl InvalidFilename
        else Inr \<lparr>gf_page = page, gf_fileindex = fileindex, gf_xres = xres, gf_hash = dec sha1hash,
                  gf_filetype = filetype, gf_filename = filename\<rparr>))))))))"

fun parser_lines :: "(string \<Rightarrow> bytes option) \<Rightarrow> string list \<Rightarrow> parser_state \<Rightarrow> gallery_error + parser_state" where
  "parser_lines dec [] st = Inr st"
| "parser_lines dec (s # ls) st =
     (if s = ''FILELIST'' \<and> ps_state st = 0 then parser_lines dec ls (st\<lparr>ps_state := 1\<rparr>)
      else if s = ''INFORMATION'' \<and> ps_state st = 1 then parser_lines dec ls (st\<lparr>ps_state := 2\<rparr>)
      else if ps_state st < 2 \<and> s = [] then parser_lines dec ls st
      else if ps_state st = 0 then bind_res (parse_meta_line s st) (parser_lines dec ls)
      else if ps_state st = 1
      then bind_res (parse_file_line dec s) (\<lambda>f.
             parser_lines dec ls (st\<lparr>ps_hash_body := ps_hash_body st @ LF # s, gm_files := gm_files st @ [f]\<rparr>))
      else parser_lines dec ls (st\<lparr>gm_information := gm_information st @ s @ [LF]\<rparr>))"

definition parser_init :: "string \<Rightarrow> parser_state" where
  "parser_init key =
     \<lparr>gm_gid = 0, gm_filecount = 0, gm_minxres = [], gm_xres_title = [], gm_title = [], gm_information = [], gm_files = [],
      ps_state = 0, ps_hash_body = key, ps_dl_hash = []\<rparr>"

definition parser :: "('a) extern_scheme \<Rightarrow> string \<Rightarrow> string list \<Rightarrow> gallery_error + gallery_meta" where
  "parser X key raw =
     bind_res (parser_lines (x_dec X) raw (parser_init key)) (\<lambda>st.
       if ps_dl_hash st = [] \<or> string_to_hash (x_sha1 X) (x_enc X) (ps_hash_body st) \<noteq> ps_dl_hash st then Inl DlHashMismatch
       else Inr (gallery_meta.truncate st))"

section \<open>The directory name\<close>

definition char_count :: "string \<Rightarrow> nat" where
  "char_count s = length (filter (\<lambda>c. \<not> (128 \<le> (of_char c :: nat) \<and> (of_char c :: nat) < 192)) s)"

text \<open>\<open>marks\<close> are the byte positions of the graphemes of the title, in order.  The limits are computed in
  64-bit \<^verbatim>\<open>usize\<close> arithmetic.\<close>

fun truncate_pos :: "nat list \<Rightarrow> nat \<Rightarrow> nat \<Rightarrow> nat \<Rightarrow> nat \<Rightarrow> nat" where
  "truncate_pos [] index max_chars max_bytes pos = pos"
| "truncate_pos (p # ps) index max_chars max_bytes pos =
     (if index + 3 > max_chars \<or> p + 3 > max_bytes then pos
      else truncate_pos ps (index + 1) max_chars max_bytes p)"

definition usize_sub :: "nat \<Rightarrow> nat \<Rightarrow> nat" where
  "usize_sub a b = unat (word_of_nat a - word_of_nat b :: u64)"

definition gallery_dir_name :: "nat list \<Rightarrow> gallery_meta \<Rightarrow> string" where
  "gallery_dir_name marks meta =
     (let name_suffix = '' ['' @ show_int (gm_gid meta) @ gm_xres_title meta @ '']'';
          name_max_chars = usize_sub 125 (length name_suffix);
          name_max_bytes = usize_sub 255 (length name_suffix)
      in if char_count (gm_title meta) \<le> name_max_chars \<and> length (gm_title meta) \<le> name_max_bytes
         then gm_title meta @ name_suffix
         else take (truncate_pos marks 0 name_max_chars name_max_bytes 0) (gm_title meta) @ ''...'' @ name_suffix)"

definition gallery_file_name :: "gallery_file \<Rightarrow> string" where
  "gallery_file_name f = gf_filename f @ ''.'' @ gf_filetype f"

section \<open>Names without separators\<close>

lemma squeeze_spaces_subset: "set (squeeze_spaces s) \<subseteq> insert (CHR '' '') (set s)"
proof (induction s rule: squeeze_spaces.induct)
  case (2 c cs)
  then show ?case using set_dropWhileD [of _ is_space cs] by (auto split: if_splits)
qed simp

lemma trim_spaces_subset: "set (trim_spaces s) \<subseteq> set s"
  by (auto simp: trim_spaces_def dest!: set_dropWhileD)

lemma clean_title_no_slash: "CHR ''/'' \<notin> set (clean_title s)"
proof -
  have "set (clean_title s) \<subseteq> insert (CHR '' '') (set (filter (\<lambda>c. \<not> title_forbidden c) s))"
    unfolding clean_title_def using trim_spaces_subset squeeze_spaces_subset by (meson order_trans)
  then show ?thesis by (auto simp: title_forbidden_def)
qed

lemma safe_single: "CHR ''/'' \<notin> set n \<Longrightarrow> n \<notin> {[], ''.'', ''..''} \<Longrightarrow> is_safe_path n"
  by (cases n) (auto simp: is_safe_path_def components_def split_on_no_sep starts_with_iff Let_def)

lemma show_int_no_slash: "CHR ''/'' \<notin> set (show_int i)"
  using digits_no_sep [of "CHR ''/''"] by (auto simp: show_int_def is_digit_def)

lemma allow_filename_no_slash: "allow_filename s \<Longrightarrow> CHR ''/'' \<notin> set s"
  by (auto simp: allow_filename_def list_all_iff filename_char_def Let_def)

lemma allow_filetype_props: "allow_filetype t \<Longrightarrow> CHR ''/'' \<notin> set t \<and> 3 \<le> length t \<and> t \<noteq> ''txt''"
  by (auto simp: allow_filetype_def)

text \<open>What every accepted line leaves in the state of the parser.\<close>

definition meta_safe :: "('a) gallery_meta_scheme \<Rightarrow> bool" where
  "meta_safe m \<longleftrightarrow>
     CHR ''/'' \<notin> set (gm_title m) \<and> CHR ''/'' \<notin> set (gm_minxres m) \<and> CHR ''/'' \<notin> set (gm_xres_title m) \<and>
     list_all (\<lambda>f. allow_filetype (gf_filetype f) \<and> allow_filename (gf_filename f) \<and> is_safe_path (gf_filename f)) (gm_files m)"

lemma parse_file_line_safe:
  "parse_file_line dec s = Inr f \<Longrightarrow> allow_filetype (gf_filetype f) \<and> allow_filename (gf_filename f) \<and> is_safe_path (gf_filename f)"
  by (auto simp: parse_file_line_def Let_def bind_res_def split: sum.splits if_splits)

lemma parse_meta_line_safe:
  assumes "meta_safe st" "parse_meta_line s st = Inr st'"
  shows "meta_safe st'"
proof -
  have "\<not> is_digit (CHR ''/'')" by (simp add: is_digit_def digit_val_def)
  then have "valid_minxres v \<Longrightarrow> CHR ''/'' \<notin> set v" for v
    by (auto simp: valid_minxres_def list_all_iff)
  with assms clean_title_no_slash show ?thesis
    by (auto simp: parse_meta_line_def meta_safe_def Let_def bind_res_def split: sum.splits if_splits)
qed

lemma parser_lines_safe: "parser_lines dec ls st = Inr st' \<Longrightarrow> meta_safe st \<Longrightarrow> meta_safe st'"
proof (induction dec ls st rule: parser_lines.induct)
  case (2 dec s ls st)
  show ?case
  proof (cases "s = ''FILELIST'' \<and> ps_state st = 0 \<or> s = ''INFORMATION'' \<and> ps_state st = 1 \<or> ps_state st < 2 \<and> s = []")
    case True
    with 2 show ?thesis by (auto simp: meta_safe_def)
  next
    case other: False
    consider (meta) "ps_state st = 0" | (files) "ps_state st = 1" | (info) "ps_state st \<ge> 2" by linarith
    then show ?thesis
    proof cases
      case meta
      with "2.prems"(1) other obtain st1 where st1: "parse_meta_line s st = Inr st1" "parser_lines dec ls st1 = Inr st'"
        by (auto simp: bind_res_def split: sum.splits)
      with "2.IH"(4) meta other "2.prems"(2) parse_meta_line_safe show ?thesis by (auto split: if_splits)
    next
      case files
      with "2.prems"(1) other obtain f where f: "parse_file_line dec s = Inr f"
        and st1: "parser_lines dec ls (st\<lparr>ps_hash_body := ps_hash_body st @ LF # s, gm_files := gm_files st @ [f]\<rparr>) = Inr st'"
        by (auto simp: bind_res_def split: sum.splits)
      have "meta_safe (st\<lparr>ps_hash_body := ps_hash_body st @ LF # s, gm_files := gm_files st @ [f]\<rparr>)"
        using "2.prems"(2) parse_file_line_safe [OF f] by (simp add: meta_safe_def)
      with "2.IH"(5) st1 files other show ?thesis by auto
    next
      case info
      with 2 other show ?thesis by (auto simp: meta_safe_def)
    qed
  qed
qed simp

lemma parser_safe: "parser X key raw = Inr meta \<Longrightarrow> meta_safe meta"
  using parser_lines_safe [of "x_dec X" raw "parser_init key"]
  by (auto simp: parser_def bind_res_def meta_safe_def parser_init_def gallery_meta.truncate_def split: sum.splits if_splits)

section \<open>The signed part\<close>

fun file_lines :: "nat \<Rightarrow> string list \<Rightarrow> string list" where
  "file_lines state [] = []"
| "file_lines state (s # ls) =
     (if s = ''FILELIST'' \<and> state = 0 then file_lines 1 ls
      else if s = ''INFORMATION'' \<and> state = 1 then file_lines 2 ls
      else if state = 1 \<and> s \<noteq> [] then s # file_lines state ls
      else file_lines state ls)"

lemma parse_meta_line_keeps:
  "parse_meta_line s st = Inr st' \<Longrightarrow>
   ps_state st' = ps_state st \<and> ps_hash_body st' = ps_hash_body st \<and> gm_files st' = gm_files st \<and> gm_information st' = gm_information st"
  by (auto simp: parse_meta_line_def Let_def bind_res_def split: sum.splits if_splits)

lemma parser_lines_signed:
  "parser_lines dec ls st = Inr st' \<Longrightarrow> ps_state st \<le> 2 \<Longrightarrow>
   ps_hash_body st' = ps_hash_body st @ concat (map (\<lambda>s. LF # s) (file_lines (ps_state st) ls)) \<and>
   map Inr (gm_files st') = map Inr (gm_files st) @ map (parse_file_line dec) (file_lines (ps_state st) ls)"
proof (induction dec ls st rule: parser_lines.induct)
  case (2 dec s ls st)
  consider (filelist) "s = ''FILELIST''" "ps_state st = 0" | (information) "s = ''INFORMATION''" "ps_state st = 1"
    | (blank) "ps_state st < 2" "s = []"
    | (meta) "ps_state st = 0" "s \<noteq> ''FILELIST''" "s \<noteq> []"
    | (files) "ps_state st = 1" "s \<noteq> ''INFORMATION''" "s \<noteq> []" | (info) "ps_state st = 2" using "2.prems"(2) by linarith
  then show ?case
  proof cases
    case meta
    with "2.prems"(1) obtain st1 where st1: "parse_meta_line s st = Inr st1" "parser_lines dec ls st1 = Inr st'"
      by (auto simp: bind_res_def split: sum.splits)
    with "2.IH"(4) [of st1] meta parse_meta_line_keeps [OF st1(1)] show ?thesis by simp
  next
    case files
    with "2.prems"(1) obtain f where f: "parse_file_line dec s = Inr f"
      and st1: "parser_lines dec ls (st\<lparr>ps_hash_body := ps_hash_body st @ LF # s, gm_files := gm_files st @ [f]\<rparr>) = Inr st'"
      by (auto simp: bind_res_def split: sum.splits)
    with "2.IH"(5) [of f] files show ?thesis by simp
  next
    case filelist
    with 2 show ?thesis by simp
  next
    case information
    with 2 show ?thesis by simp
  next
    case blank
    have "parser_lines dec ls st = Inr st'" using "2.prems"(1) blank by simp
    with "2.IH"(3) blank "2.prems"(2) show ?thesis by simp
  next
    case info
    have "parser_lines dec ls (st\<lparr>gm_information := gm_information st @ s @ [LF]\<rparr>) = Inr st'" using "2.prems"(1) info by simp
    with "2.IH"(6) info show ?thesis by simp
  qed
qed simp

lemma splitn_key_val:
  assumes "field 1 (splitn 2 c s) = Inr v"
  shows "s = hd (splitn 2 c s) @ c # v"
proof -
  have in_s: "c \<in> set s" using assms by (auto simp: field_def numeral_2_eq_2 split: if_splits)
  then obtain a b where ab: "s = a @ c # b" "c \<notin> set a" by (meson split_list_first)
  have "takeWhile (\<lambda>x. x \<noteq> c) (a @ c # b) = a" using ab(2) by (subst takeWhile_append2) auto
  moreover have "dropWhile (\<lambda>x. x \<noteq> c) (a @ c # b) = c # b" using ab(2) by (subst dropWhile_append2) auto
  ultimately have "takeWhile (\<lambda>x. x \<noteq> c) s = a" "dropWhile (\<lambda>x. x \<noteq> c) s = c # b" by (simp_all add: ab(1))
  with in_s ab assms show ?thesis by (simp add: field_def numeral_2_eq_2)
qed

lemma parse_meta_line_dl_hash:
  assumes "parse_meta_line s st = Inr st'"
  shows "ps_dl_hash st' = ps_dl_hash st \<or> valid_dlhash (ps_dl_hash st') \<and> s = ''DLHASH '' @ ps_dl_hash st'"
proof (cases "hd (splitn 2 (CHR '' '') s) = ''DLHASH''")
  case True
  with assms obtain v where v: "field 1 (splitn 2 (CHR '' '') s) = Inr v"
    and st': "st' = (if valid_dlhash v then st\<lparr>ps_dl_hash := v\<rparr> else st)"
    by (auto simp: parse_meta_line_def Let_def bind_res_def split: sum.splits)
  from splitn_key_val [OF v] True st' show ?thesis by (cases "valid_dlhash v") auto
next
  case False
  with assms show ?thesis by (auto simp: parse_meta_line_def Let_def bind_res_def split: sum.splits if_splits)
qed

lemma parser_lines_step:
  assumes "parser_lines dec (s # ls) st = Inr st'"
  obtains st1 where "parser_lines dec ls st1 = Inr st'"
    "ps_dl_hash st1 = ps_dl_hash st \<or> valid_dlhash (ps_dl_hash st1) \<and> s = ''DLHASH '' @ ps_dl_hash st1"
proof (cases "ps_state st = 0 \<and> s \<noteq> ''FILELIST'' \<and> s \<noteq> []")
  case True
  with assms obtain st1 where "parse_meta_line s st = Inr st1" "parser_lines dec ls st1 = Inr st'"
    by (auto simp: bind_res_def split: sum.splits)
  with parse_meta_line_dl_hash that show thesis by blast
next
  case False
  with assms that show thesis
    by (force simp: bind_res_def split: sum.splits if_splits)
qed

lemma parser_lines_dl_hash:
  "parser_lines dec ls st = Inr st' \<Longrightarrow>
   ps_dl_hash st' = ps_dl_hash st \<or> valid_dlhash (ps_dl_hash st') \<and> ''DLHASH '' @ ps_dl_hash st' \<in> set ls"
proof (induction ls arbitrary: st)
  case (Cons s ls)
  from Cons.prems obtain st1 where "parser_lines dec ls st1 = Inr st'"
    "ps_dl_hash st1 = ps_dl_hash st \<or> valid_dlhash (ps_dl_hash st1) \<and> s = ''DLHASH '' @ ps_dl_hash st1"
    by (rule parser_lines_step)
  with Cons.IH [of st1] show ?case by auto
qed simp

section \<open>Properties\<close>

lemma truncate_pos_bound: "truncate_pos ps i max_chars max_bytes pos \<le> max pos (max_bytes - 3)"
proof (induction ps i max_chars max_bytes pos rule: truncate_pos.induct)
  case (2 p ps index max_chars max_bytes pos)
  then show ?case by (cases "index + 3 > max_chars \<or> p + 3 > max_bytes") auto
qed simp

lemma usize_sub_exact: "b \<le> a \<Longrightarrow> a < 2 ^ 64 \<Longrightarrow> usize_sub a b = a - b"
  by (simp add: usize_sub_def unat_of_nat flip: of_nat_diff)

lemma gallery_dir_name_length:
  assumes "length (show_int (gm_gid meta) @ gm_xres_title meta) \<le> 122"
  shows "length (gallery_dir_name marks meta) \<le> 255"
proof -
  let ?s = "'' ['' @ show_int (gm_gid meta) @ gm_xres_title meta @ '']''"
  have s: "length ?s \<le> 125" using assms by simp
  then have b: "usize_sub 255 (length ?s) = 255 - length ?s" by (intro usize_sub_exact) auto
  have "truncate_pos marks 0 (usize_sub 125 (length ?s)) (255 - length ?s) 0 \<le> 252 - length ?s"
    using truncate_pos_bound [of marks 0 "usize_sub 125 (length ?s)" "255 - length ?s" 0] by simp
  then have "min (length (gm_title meta)) (truncate_pos marks 0 (usize_sub 125 (length ?s)) (usize_sub 255 (length ?s)) 0) \<le> 252 - length ?s"
    unfolding b by linarith
  moreover have "length (gallery_dir_name marks meta) =
      (if char_count (gm_title meta) \<le> usize_sub 125 (length ?s) \<and> length (gm_title meta) \<le> usize_sub 255 (length ?s)
       then length (gm_title meta)
       else min (length (gm_title meta)) (truncate_pos marks 0 (usize_sub 125 (length ?s)) (usize_sub 255 (length ?s)) 0) + 3) + length ?s"
    by (simp add: gallery_dir_name_def Let_def)
  ultimately show ?thesis using s b by (auto split: if_splits)
qed

lemma gallery_dir_name_safe:
  assumes "meta_safe meta"
  shows "CHR ''/'' \<notin> set (gallery_dir_name marks meta)" and "last (gallery_dir_name marks meta) = CHR '']''"
    and "is_safe_path (gallery_dir_name marks meta)"
proof -
  show no: "CHR ''/'' \<notin> set (gallery_dir_name marks meta)"
    using assms show_int_no_slash by (auto simp: gallery_dir_name_def meta_safe_def Let_def dest: in_set_takeD)
  show l: "last (gallery_dir_name marks meta) = CHR '']''" by (simp add: gallery_dir_name_def Let_def)
  have "gallery_dir_name marks meta \<noteq> []" by (simp add: gallery_dir_name_def Let_def)
  then have "gallery_dir_name marks meta \<notin> {[], ''.'', ''..''}" using l by auto
  with no show "is_safe_path (gallery_dir_name marks meta)" by (rule safe_single)
qed

lemma gallery_file_name_safe:
  assumes "allow_filetype (gf_filetype f)" "allow_filename (gf_filename f)"
  shows "CHR ''/'' \<notin> set (gallery_file_name f)" and "is_safe_path (gallery_file_name f)"
    and "length (gallery_file_name f) \<le> 255"
proof -
  from assms have t: "CHR ''/'' \<notin> set (gf_filetype f)" "3 \<le> length (gf_filetype f)" "length (gf_filetype f) \<le> 4"
    by (auto simp: allow_filetype_def)
  with assms allow_filename_no_slash show no: "CHR ''/'' \<notin> set (gallery_file_name f)"
    by (auto simp: gallery_file_name_def)
  have "4 \<le> length (gallery_file_name f)" using t by (simp add: gallery_file_name_def)
  then have "gallery_file_name f \<notin> {[], ''.'', ''..''}" by auto
  with no show "is_safe_path (gallery_file_name f)" by (rule safe_single)
  show "length (gallery_file_name f) \<le> 255" using assms t by (simp add: gallery_file_name_def allow_filename_def)
qed

lemma parent_push_path:
  assumes "CHR ''/'' \<notin> set n" "n \<noteq> []" "d \<noteq> []" "last d \<noteq> CHR ''/''"
  shows "parent (push_path d n) = d"
  using assms by (auto simp: push_path_def starts_with_iff)

lemma last_push_path: "n \<noteq> [] \<Longrightarrow> push_path d n \<noteq> [] \<and> last (push_path d n) = last n"
  by (simp add: push_path_def)


definition sample_raw :: "string list" where
  "sample_raw = [''GID 7'', ''FILECOUNT 1'', ''MINXRES org'',
     ''DLHASH '' @ str_hash sample_ext (''key'' @ LF # ''1 2 org unknown jpg a_1''), ''TITLE a / b'', ''FILELIST'', [],
     ''1 2 org unknown jpg a_1'', ''INFORMATION'', ''x'']"

definition sample_gallery_file :: gallery_file where
  "sample_gallery_file = \<lparr>gf_page = 1, gf_fileindex = 2, gf_xres = ''org'', gf_hash = None, gf_filetype = ''jpg'', gf_filename = ''a_1''\<rparr>"

definition sample_gallery :: gallery_meta where
  "sample_gallery = \<lparr>gm_gid = 7, gm_filecount = 1, gm_minxres = ''org'', gm_xres_title = [], gm_title = ''a b'',
     gm_information = ''x'' @ [LF], gm_files = [sample_gallery_file]\<rparr>"

lemma str_hash_valid: "valid_dlhash (str_hash sample_ext s)"
  using sx.str_hash_length [of s] sx.enc_chars [of "checksum (as_bytes s)"]
  by (simp add: valid_dlhash_def str_hash_def string_to_hash_def)

lemma sample_file_line: "parse_file_line hex_decode_to_array ''1 2 org unknown jpg a_1'' = Inr sample_gallery_file"
proof -
  have "splitn 6 (CHR '' '') ''1 2 org unknown jpg a_1'' = [''1'', ''2'', ''org'', ''unknown'', ''jpg'', ''a_1'']" by code_simp
  moreover have "parse_uint 64 ''1'' = Some 1" "parse_uint 64 ''2'' = Some 2"
    by (simp_all add: parse_eval)
  moreover have "hex_decode_to_array ''unknown'' = None" by code_simp
  moreover have "allow_filetype ''jpg''" "allow_filename ''a_1''" by (simp_all add: allow_filetype_def allow_filename_def filename_char_def)
  moreover from this have "is_safe_path ''a_1''" using safe_single [of "''a_1''"] by simp
  ultimately show ?thesis
    by (simp add: parse_file_line_def bind_res_def number_def field_def sample_gallery_file_def)
qed

lemma sample_meta_lines:
  fixes st :: parser_state
  shows "parse_meta_line ''GID 7'' st = Inr (st\<lparr>gm_gid := 7\<rparr>)" "parse_meta_line ''FILECOUNT 1'' st = Inr (st\<lparr>gm_filecount := 1\<rparr>)"
    "parse_meta_line ''MINXRES org'' st = Inr (st\<lparr>gm_minxres := ''org''\<rparr>)"
    "parse_meta_line (''DLHASH '' @ str_hash sample_ext s) st = Inr (st\<lparr>ps_dl_hash := str_hash sample_ext s\<rparr>)"
    "gm_minxres st = ''org'' \<Longrightarrow> parse_meta_line ''TITLE a / b'' st = Inr (st\<lparr>gm_title := ''a b'', gm_xres_title := []\<rparr>)"
proof -
  have "clean_title ''a / b'' = ''a b''" by code_simp
  then show "gm_minxres st = ''org'' \<Longrightarrow> parse_meta_line ''TITLE a / b'' st = Inr (st\<lparr>gm_title := ''a b'', gm_xres_title := []\<rparr>)"
    by (simp add: parse_meta_line_def numeral_2_eq_2 field_def bind_res_def)
  have "parse_sint 32 ''7'' = Some 7" "parse_uint 64 ''1'' = Some 1" by (simp_all add: parse_eval)
  then show "parse_meta_line ''GID 7'' st = Inr (st\<lparr>gm_gid := 7\<rparr>)" "parse_meta_line ''FILECOUNT 1'' st = Inr (st\<lparr>gm_filecount := 1\<rparr>)"
    by (simp_all add: parse_meta_line_def numeral_2_eq_2 field_def bind_res_def number_def)
  show "parse_meta_line ''MINXRES org'' st = Inr (st\<lparr>gm_minxres := ''org''\<rparr>)"
    by (simp add: parse_meta_line_def numeral_2_eq_2 field_def bind_res_def valid_minxres_def)
  show "parse_meta_line (''DLHASH '' @ str_hash sample_ext s) st = Inr (st\<lparr>ps_dl_hash := str_hash sample_ext s\<rparr>)"
    using str_hash_valid by (simp add: parse_meta_line_def numeral_2_eq_2 field_def bind_res_def)
qed

lemma sample_parse: "parser sample_ext ''key'' sample_raw = Inr sample_gallery"
proof -
  let ?l = "''1 2 org unknown jpg a_1''"
  let ?h = "str_hash sample_ext (''key'' @ LF # ?l)"
  have "parser_lines hex_decode_to_array sample_raw (parser_init ''key'') =
      Inr (gallery_meta.extend sample_gallery \<lparr>ps_state = 2, ps_hash_body = ''key'' @ LF # ?l, ps_dl_hash = ?h\<rparr>)"
    unfolding sample_raw_def
    by (simp add: sample_meta_lines [unfolded append.simps] sample_file_line bind_res_def parser_init_def sample_gallery_def gallery_meta.extend_def)
  moreover have "?h \<noteq> []" using sx.str_hash_length [of "''key'' @ LF # ?l"] by (auto simp del: append.simps)
  ultimately show ?thesis
    by (simp add: parser_def bind_res_def str_hash_def gallery_meta.extend_def gallery_meta.truncate_def sample_gallery_def)
qed


text \<open>
  C31.  The file list is authentic: metadata is only accepted when it names a digest, in a line
  \<^verbatim>\<open>DLHASH\<close>, that is the hash of the client key and exactly the lines of the file list, and the files
  of the gallery are these lines, parsed, in their order.
\<close>

theorem gallery_file_list_authentic:
  assumes "parser X key raw = Inr meta"
  shows "(\<exists>h. ''DLHASH '' @ h \<in> set raw \<and> valid_dlhash h \<and>
      string_to_hash (x_sha1 X) (x_enc X) (key @ concat (map (\<lambda>s. LF # s) (file_lines 0 raw))) = h) \<and>
    map Inr (gm_files meta) = map (parse_file_line (x_dec X)) (file_lines 0 raw)"
proof -
  from assms obtain st where st: "parser_lines (x_dec X) raw (parser_init key) = Inr st"
    and h: "ps_dl_hash st \<noteq> []" "string_to_hash (x_sha1 X) (x_enc X) (ps_hash_body st) = ps_dl_hash st"
    and meta: "meta = gallery_meta.truncate st"
    by (auto simp: parser_def bind_res_def split: sum.splits if_splits)
  from parser_lines_dl_hash [OF st] h(1) have "valid_dlhash (ps_dl_hash st)" "''DLHASH '' @ ps_dl_hash st \<in> set raw"
    by (auto simp: parser_init_def)
  moreover from parser_lines_signed [OF st] have
    "ps_hash_body st = key @ concat (map (\<lambda>s. LF # s) (file_lines 0 raw))"
    "map Inr (gm_files st) = map (parse_file_line (x_dec X)) (file_lines 0 raw)"
    by (simp_all add: parser_init_def)
  ultimately show ?thesis using h(2) meta by (auto simp: gallery_meta.truncate_def)
qed

theorem gallery_file_list_authentic_witness:
  "\<exists>h. ''DLHASH '' @ h \<in> set sample_raw \<and>
     string_to_hash checksum hex_encode (''key'' @ concat (map (\<lambda>s. LF # s) (file_lines 0 sample_raw))) = h"
  using gallery_file_list_authentic [OF sample_parse] by (metis sample_ext_simps(1,3))

end
