(* ===== verification/GalleryRun.thy ===== *)
theory GalleryRun
  imports Gallery
begin

text \<open>
  \<^verbatim>\<open>src/gallery_downloader.rs\<close>, the download of one gallery: \<^verbatim>\<open>check_hash\<close>, the download task of a file with
  its three tries, and the rounds of \<^verbatim>\<open>run\<close>.  Up to four tasks run at the same time as the loop over the
  files; the scheduler is a sequence of events, each the next step of one of them together with what
  the disk and the network answer.  \<^verbatim>\<open>tokio::fs::File\<close> completes a write in the background and reports
  its failure at the next operation on the file, so a task carries the bytes whose write is not yet
  settled.
\<close>

section \<open>check_hash\<close>

text \<open>The answers of the reads: \<^const>\<open>None\<close> is an error, after which the loop reads again; \<^term>\<open>Some n\<close> is a
  read of at most \<open>n + 1\<close> bytes.  The result \<^const>\<open>None\<close> is a loop that is still running when the
  answers are used up.\<close>

fun hash_loop :: "nat option list \<Rightarrow> bytes \<Rightarrow> bytes \<Rightarrow> bytes option" where
  "hash_loop [] rest hashed = None"
| "hash_loop (None # reads) rest hashed = hash_loop reads rest hashed"
| "hash_loop (Some n # reads) rest hashed =
     (if rest = [] then Some hashed
      else let k = min (n + 1) (1024 * 1024) in hash_loop reads (drop k rest) (hashed @ take k rest))"

definition check_hash :: "('a) extern_scheme \<Rightarrow> io_env \<Rightarrow> nat option list \<Rightarrow> gallery_file \<Rightarrow> path \<Rightarrow> disk \<Rightarrow> bool option" where
  "check_hash X E reads f path d =
     (case fs_metadata E path d of
        Some (File nd) \<Rightarrow>
          (case gf_hash f of
             None \<Rightarrow> Some True
           | Some expected \<Rightarrow>
               if io_fails E OpOpen path then Some False
               else map_option (\<lambda>content. x_sha1 X content = expected) (hash_loop reads (f_data nd) []))
      | _ \<Rightarrow> Some False)"

section \<open>The task of one file\<close>

datatype phase = Creating | Requesting | Streaming bytes bytes

record gtask =
  tk_info :: gallery_file
  tk_host :: "string option"
  tk_retry :: nat
  tk_proxy :: bool
  tk_phase :: phase

datatype task_event = TCreate | TReply bool | TChunk bytes | TChunkErr | TEnd

text \<open>How a step of a task ends; \<open>GaveUp report\<close> is the end of the last try, with \<open>report\<close> for an error of
  the network or a wrong hash.\<close>

datatype task_result = Running gtask | Done | GaveUp bool

definition task_fail :: "bool \<Rightarrow> gtask \<Rightarrow> task_result" where
  "task_fail report t =
     (if tk_retry t < 2
      then Running (t\<lparr>tk_retry := tk_retry t + 1, tk_proxy := tk_proxy t \<and> tk_retry t \<noteq> 1, tk_phase := Creating\<rparr>)
      else GaveUp report)"

text \<open>The unsettled write reaches the file.\<close>

definition settle :: "io_env \<Rightarrow> path \<Rightarrow> bytes \<Rightarrow> disk \<Rightarrow> disk option" where
  "settle E path b d =
     (case lookup d path of
        Some (File nd) \<Rightarrow>
          if b = [] then Some d
          else if io_fails E OpWrite path then None
          else Some (insert_map path (File \<lparr>f_data = f_data nd @ b, f_mtime = clock E\<rparr>) d)
      | _ \<Rightarrow> None)"

definition settle_quietly :: "io_env \<Rightarrow> path \<Rightarrow> bytes \<Rightarrow> disk \<Rightarrow> disk" where
  "settle_quietly E path b d = (case settle E path b d of Some d' \<Rightarrow> d' | None \<Rightarrow> d)"

text \<open>One step of \<^verbatim>\<open>download\<close>.  The last write of an attempt is not flushed: its failure is lost.\<close>

definition step_task :: "('a) extern_scheme \<Rightarrow> io_env \<Rightarrow> path \<Rightarrow> task_event \<Rightarrow> gtask \<Rightarrow> disk \<Rightarrow> task_result \<times> disk" where
  "step_task X E path e t d =
     (case (tk_phase t, e) of
        (Creating, TCreate) \<Rightarrow>
          if io_fails E OpCreate path \<or> lookup d (parent path) \<noteq> Some Dir \<or> lookup d path = Some Dir
          then (task_fail False t, d)
          else (Running (t\<lparr>tk_phase := Requesting\<rparr>), insert_map path (File \<lparr>f_data = [], f_mtime = clock E\<rparr>) d)
      | (Requesting, TReply ok) \<Rightarrow> (if ok then Running (t\<lparr>tk_phase := Streaming [] []\<rparr>) else task_fail True t, d)
      | (Streaming hashed unsettled, TChunk b) \<Rightarrow>
          (case settle E path unsettled d of
             None \<Rightarrow> (task_fail False t, d)
           | Some d \<Rightarrow> (Running (t\<lparr>tk_phase := Streaming (hashed @ b) b\<rparr>), d))
      | (Streaming hashed unsettled, TChunkErr) \<Rightarrow> (task_fail True t, settle_quietly E path unsettled d)
      | (Streaming hashed unsettled, TEnd) \<Rightarrow>
          (if \<exists>expected \<in> set_option (gf_hash (tk_info t)). x_sha1 X hashed \<noteq> expected then task_fail True t else Done,
           settle_quietly E path unsettled d)
      | _ \<Rightarrow> (Running t, d))"

section \<open>The rounds\<close>

definition MAX_DOWNLOAD_TASK :: nat where
  "MAX_DOWNLOAD_TASK = 4"

datatype run_status = Downloading | Finished | Failed | Stopped | Panicked

record gallery_run =
  gr_disk :: disk
  gr_rpc :: rpc_state
  gr_downloaded :: "gallery_file list"
  gr_failures :: "string list"
  gr_retry :: nat
  gr_todo :: "gallery_file list"
  gr_waiting :: "gtask option"
  gr_tasks :: "gtask list"
  gr_status :: run_status

text \<open>\<^verbatim>\<open>HashSet::insert\<close> on a set kept as a list without duplicates.\<close>

definition add_new :: "'a \<Rightarrow> 'a list \<Rightarrow> 'a list" where
  "add_new x xs = (if x \<in> set xs then xs else xs @ [x])"

definition gallery_path :: "path \<Rightarrow> gallery_file \<Rightarrow> path" where
  "gallery_path dir f = push_path dir (gallery_file_name f)"

text \<open>The body of the loop over the files up to the wait for a free slot.  \<open>host\<close> is \<^verbatim>\<open>Url::parse\<close> followed by
  \<^verbatim>\<open>host_str\<close>: \<^const>\<open>None\<close> when the text is no URL.\<close>

definition next_file :: "('a) rpc_ext_scheme \<Rightarrow> (string \<Rightarrow> string option option) \<Rightarrow> bool \<Rightarrow> gallery_meta \<Rightarrow> path \<Rightarrow> io_env
    \<Rightarrow> nat option list \<Rightarrow> gallery_run \<Rightarrow> gallery_run" where
  "next_file X host has_proxy meta dir E reads st =
     (case gr_todo st of
        [] \<Rightarrow> st
      | f # fs \<Rightarrow>
          if gr_waiting st \<noteq> None then st
          else if \<not> running (rs_client (gr_rpc st)) then st\<lparr>gr_status := Stopped\<rparr>
          else if f \<in> set (gr_downloaded st) then st\<lparr>gr_todo := fs\<rparr>
          else (case check_hash X E reads f (gallery_path dir f) (gr_disk st) of
                  None \<Rightarrow> st
                | Some True \<Rightarrow> st\<lparr>gr_downloaded := add_new f (gr_downloaded st), gr_todo := fs\<rparr>
                | Some False \<Rightarrow>
                    (case dl_fetch X (gm_gid meta) (gf_page f) (gf_fileindex f) (gf_xres f) (word_of_nat (gr_retry st)) (gr_rpc st) of
                       (None, rpc) \<Rightarrow> st\<lparr>gr_rpc := rpc, gr_todo := fs\<rparr>
                     | (Some [], rpc) \<Rightarrow> st\<lparr>gr_rpc := rpc, gr_status := Panicked\<rparr>
                     | (Some (url # _), rpc) \<Rightarrow>
                         (case host url of
                            None \<Rightarrow> st\<lparr>gr_rpc := rpc, gr_todo := fs\<rparr>
                          | Some h \<Rightarrow>
                              st\<lparr>gr_rpc := rpc, gr_todo := fs,
                                 gr_waiting := Some \<lparr>tk_info = f, tk_host = h, tk_retry = 0,
                                   tk_proxy = (gr_retry st \<noteq> 0 \<and> has_proxy), tk_phase = Creating\<rparr>\<rparr>))))"

definition acquire :: "gallery_run \<Rightarrow> gallery_run" where
  "acquire st =
     (case gr_waiting st of
        Some t \<Rightarrow> if length (gr_tasks st) < MAX_DOWNLOAD_TASK then st\<lparr>gr_tasks := gr_tasks st @ [t], gr_waiting := None\<rparr> else st
      | None \<Rightarrow> st)"

definition remove_nth :: "nat \<Rightarrow> 'a list \<Rightarrow> 'a list" where
  "remove_nth i xs = take i xs @ drop (Suc i) xs"

definition run_task :: "('a) extern_scheme \<Rightarrow> path \<Rightarrow> io_env \<Rightarrow> nat \<Rightarrow> task_event \<Rightarrow> gallery_run \<Rightarrow> gallery_run" where
  "run_task X dir E i e st =
     (if i < length (gr_tasks st)
      then let t = gr_tasks st ! i in
        (case step_task X E (gallery_path dir (tk_info t)) e t (gr_disk st) of
           (Running t', d) \<Rightarrow> st\<lparr>gr_disk := d, gr_tasks := (gr_tasks st)[i := t']\<rparr>
         | (Done, d) \<Rightarrow>
             st\<lparr>gr_disk := d, gr_tasks := remove_nth i (gr_tasks st), gr_downloaded := add_new (tk_info t) (gr_downloaded st)\<rparr>
         | (GaveUp report, d) \<Rightarrow>
             st\<lparr>gr_disk := d, gr_tasks := remove_nth i (gr_tasks st),
                gr_failures := gr_failures st @
                  (case tk_host t of
                     Some h \<Rightarrow> if report then [h @ ''-'' @ show_nat (gf_fileindex (tk_info t)) @ ''-'' @ gf_xres (tk_info t)] else []
                   | None \<Rightarrow> [])\<rparr>)
      else st)"

text \<open>\<^verbatim>\<open>fs::write\<close>: a file that could be created but not written stays empty.\<close>

definition fs_write :: "io_env \<Rightarrow> path \<Rightarrow> bytes \<Rightarrow> disk \<Rightarrow> disk" where
  "fs_write E path b d =
     (if io_fails E OpCreate path \<or> lookup d (parent path) \<noteq> Some Dir \<or> lookup d path = Some Dir then d
      else insert_map path (File \<lparr>f_data = (if io_fails E OpWrite path then [] else b), f_mtime = clock E\<rparr>) d)"

text \<open>The end of a round, when every slot is free again.\<close>

definition end_round :: "('a) rpc_ext_scheme \<Rightarrow> gallery_meta \<Rightarrow> path \<Rightarrow> io_env \<Rightarrow> gallery_run \<Rightarrow> gallery_run" where
  "end_round X meta dir E st =
     (if gr_todo st \<noteq> [] \<or> gr_waiting st \<noteq> None \<or> gr_tasks st \<noteq> [] then st
      else if length (gr_downloaded st) = gm_filecount meta
      then st\<lparr>gr_disk := fs_write E (push_path dir ''galleryinfo.txt'') (as_bytes (gm_information meta)) (gr_disk st),
              gr_rpc := dl_fails X (gr_failures st) (gr_rpc st), gr_status := Finished\<rparr>
      else if gr_retry st + 1 < 10 then st\<lparr>gr_retry := gr_retry st + 1, gr_todo := gm_files meta\<rparr>
      else st\<lparr>gr_status := Failed\<rparr>)"

datatype gallery_event = NextFile "nat option list" | Acquire | Task nat task_event | EndRound | Shutdown

text \<open>Tasks are spawned and outlive the loop that started them.\<close>

definition gallery_step :: "('a) rpc_ext_scheme \<Rightarrow> (string \<Rightarrow> string option option) \<Rightarrow> bool \<Rightarrow> gallery_meta \<Rightarrow> path
    \<Rightarrow> io_env \<times> gallery_event \<Rightarrow> gallery_run \<Rightarrow> gallery_run" where
  "gallery_step X host has_proxy meta dir ev st =
     (case ev of (E, e) \<Rightarrow>
      (case e of
         Task i te \<Rightarrow> run_task X dir E i te st
       | Shutdown \<Rightarrow> st\<lparr>gr_rpc := upd_client (\<lambda>c. c\<lparr>running := False\<rparr>) (gr_rpc st)\<rparr>
       | NextFile reads \<Rightarrow> if gr_status st = Downloading then next_file X host has_proxy meta dir E reads st else st
       | Acquire \<Rightarrow> if gr_status st = Downloading then acquire st else st
       | EndRound \<Rightarrow> if gr_status st = Downloading then end_round X meta dir E st else st))"

definition gallery_start :: "gallery_meta \<Rightarrow> rpc_state \<Rightarrow> disk \<Rightarrow> gallery_run" where
  "gallery_start meta rpc d =
     \<lparr>gr_disk = d, gr_rpc = rpc, gr_downloaded = [], gr_failures = [], gr_retry = 0, gr_todo = gm_files meta,
      gr_waiting = None, gr_tasks = [], gr_status = Downloading\<rparr>"

text \<open>\<^verbatim>\<open>run\<close>: a schedule for each gallery the server hands out, with the environment its directory is made in
  and the graphemes of its title.  A schedule that ends before its gallery does leaves the rest undone.\<close>

definition make_gallery_dir :: "io_env \<Rightarrow> path \<Rightarrow> disk \<Rightarrow> disk option" where
  "make_gallery_dir E dir d = (if fs_metadata E dir d = None then fs_create_dir_all E dir d else Some d)"

fun run_galleries :: "('a) rpc_ext_scheme \<Rightarrow> (string \<Rightarrow> string option option) \<Rightarrow> bool \<Rightarrow> path
    \<Rightarrow> (io_env \<times> nat list \<times> (io_env \<times> gallery_event) list) list \<Rightarrow> string list option \<Rightarrow> rpc_state \<Rightarrow> disk \<Rightarrow> rpc_state \<times> disk" where
  "run_galleries X host has_proxy download_dir [] task rpc d = (rpc, d)"
| "run_galleries X host has_proxy download_dir ((E, marks, evs) # sched) task rpc d =
     (case map_option (parser X (client_key (rs_client rpc))) task of
        None \<Rightarrow> (rpc, d)
      | Some meta \<Rightarrow>
          if \<not> running (rs_client rpc) then (rpc, d)
          else (case meta of
                  Inl e \<Rightarrow> (rpc, d)
                | Inr meta \<Rightarrow>
                    let dir = push_path download_dir (gallery_dir_name marks meta) in
                    (case make_gallery_dir E dir d of
                       None \<Rightarrow> (rpc, d)
                     | Some d \<Rightarrow>
                         let st = fold (gallery_step X host has_proxy meta dir) evs (gallery_start meta rpc d) in
                         if gr_status st = Finished \<or> gr_status st = Failed
                         then (case fetch_queue X (Some (gm_gid meta, gm_minxres meta)) (gr_rpc st) of
                                 (task, rpc) \<Rightarrow> run_galleries X host has_proxy download_dir sched task rpc (gr_disk st))
                         else (gr_rpc st, gr_disk st))))"

definition gallery_downloader :: "('a) rpc_ext_scheme \<Rightarrow> (string \<Rightarrow> string option option) \<Rightarrow> bool \<Rightarrow> path
    \<Rightarrow> (io_env \<times> nat list \<times> (io_env \<times> gallery_event) list) list \<Rightarrow> rpc_state \<Rightarrow> disk \<Rightarrow> rpc_state \<times> disk" where
  "gallery_downloader X host has_proxy download_dir sched rpc d =
     (case fetch_queue X None rpc of (task, rpc) \<Rightarrow> run_galleries X host has_proxy download_dir sched task rpc d)"

section \<open>check_hash: reading to the end\<close>

lemma hash_loop_reads_all: "hash_loop reads rest hashed = Some h \<Longrightarrow> h = hashed @ rest"
  by (induction reads rest hashed rule: hash_loop.induct) (auto simp: Let_def split: if_splits)

lemma hash_loop_ends:
  "length rest < length (filter (\<lambda>r. r \<noteq> None) reads) \<Longrightarrow> hash_loop reads rest hashed = Some (hashed @ rest)"
proof (induction reads rest hashed rule: hash_loop.induct)
  case (3 n reads rest hashed)
  show ?case
  proof (cases "rest = []")
    case False
    then have "length (drop (min (n + 1) (1024 * 1024)) rest) < length (filter (\<lambda>r. r \<noteq> None) reads)"
      using "3.prems" by (cases rest) auto
    with 3(1) [OF False refl] False show ?thesis by (simp add: Let_def)
  qed simp
qed simp_all

lemma hash_loop_never_ends: "set reads \<subseteq> {None} \<Longrightarrow> hash_loop reads rest hashed = None"
  by (induction reads rest hashed rule: hash_loop.induct) auto

lemma check_hash_verified:
  assumes "check_hash X E reads f path d = Some True"
  obtains nd where "lookup d path = Some (File nd)" "\<forall>h \<in> set_option (gf_hash f). x_sha1 X (f_data nd) = h"
proof -
  from assms obtain nd where "lookup d path = Some (File nd)"
    and r: "gf_hash f = None \<or> (\<exists>h. gf_hash f = Some h \<and> map_option (\<lambda>c. x_sha1 X c = h) (hash_loop reads (f_data nd) []) = Some True)"
    by (auto simp: check_hash_def fs_metadata_def split: option.splits node.splits if_splits)
  with that [of nd] hash_loop_reads_all [of reads "f_data nd" "[]"] show thesis by auto
qed

section \<open>One task\<close>

definition file_verified :: "('a) extern_scheme \<Rightarrow> path \<Rightarrow> disk \<Rightarrow> gallery_file \<Rightarrow> bool" where
  "file_verified X dir d f \<longleftrightarrow>
     (case lookup d (gallery_path dir f) of
        Some (File nd) \<Rightarrow> (\<forall>h \<in> set_option (gf_hash f). x_sha1 X (f_data nd) = h)
      | _ \<Rightarrow> False)"

definition task_ok :: "path \<Rightarrow> disk \<Rightarrow> gtask \<Rightarrow> bool" where
  "task_ok dir d t \<longleftrightarrow>
     (case tk_phase t of
        Creating \<Rightarrow> True
      | Requesting \<Rightarrow> (case lookup d (gallery_path dir (tk_info t)) of Some (File nd) \<Rightarrow> f_data nd = [] | _ \<Rightarrow> False)
      | Streaming hashed unsettled \<Rightarrow>
          (case lookup d (gallery_path dir (tk_info t)) of Some (File nd) \<Rightarrow> f_data nd @ unsettled = hashed | _ \<Rightarrow> False))"

lemma task_ok_creating: "tk_phase t = Creating \<Longrightarrow> task_ok dir d t"
  by (simp add: task_ok_def)

lemma file_verified_cong:
  "lookup d' (gallery_path dir f) = lookup d (gallery_path dir f) \<Longrightarrow> file_verified X dir d' f = file_verified X dir d f"
  by (simp add: file_verified_def)

lemma task_ok_cong:
  "lookup d' (gallery_path dir (tk_info t)) = lookup d (gallery_path dir (tk_info t)) \<Longrightarrow> task_ok dir d' t = task_ok dir d t"
  by (simp add: task_ok_def split: phase.split)

lemma settle_frame: "settle E path b d = Some d' \<Longrightarrow> q \<noteq> path \<Longrightarrow> lookup d' q = lookup d q"
  by (auto simp: settle_def split: option.splits node.splits if_splits)

lemma settle_appends:
  "settle E path b d = Some d' \<Longrightarrow> lookup d path = Some (File nd) \<Longrightarrow>
   \<exists>nd'. lookup d' path = Some (File nd') \<and> f_data nd' = f_data nd @ b"
  by (auto simp: settle_def split: if_splits)

lemma step_task_frame:
  assumes "step_task X E path e t d = (r, d')" "q \<noteq> path"
  shows "lookup d' q = lookup d q"
  using assms
  by (auto simp: step_task_def settle_quietly_def settle_frame
      split: phase.splits task_event.splits option.splits if_splits)

lemma task_fail_running: "task_fail report t = Running t' \<Longrightarrow> tk_info t' = tk_info t \<and> tk_phase t' = Creating"
  by (auto simp: task_fail_def split: if_splits)

lemma task_fail_not_done: "task_fail report t \<noteq> Done"
  by (simp add: task_fail_def)

lemma step_task_running:
  assumes "step_task X E (gallery_path dir (tk_info t)) e t d = (Running t', d')" "task_ok dir d t"
  shows "tk_info t' = tk_info t \<and> task_ok dir d' t'"
  using assms
  by (auto simp: step_task_def task_ok_def settle_quietly_def dest!: task_fail_running settle_appends
      split: phase.splits task_event.splits option.splits if_splits node.splits)

lemma step_task_done:
  assumes "step_task X E (gallery_path dir (tk_info t)) e t d = (Done, d')" "task_ok dir d t"
    and "\<not> io_fails E OpWrite (gallery_path dir (tk_info t))"
  shows "file_verified X dir d' (tk_info t)"
proof -
  from assms(1) obtain hashed unsettled where ph: "tk_phase t = Streaming hashed unsettled" and e: "e = TEnd"
    and h: "\<forall>h \<in> set_option (gf_hash (tk_info t)). x_sha1 X hashed = h"
    and d': "d' = settle_quietly E (gallery_path dir (tk_info t)) unsettled d"
    using task_fail_not_done
    by (auto simp: step_task_def split: phase.splits task_event.splits option.splits if_splits)
  from ph assms(2) obtain nd where nd: "lookup d (gallery_path dir (tk_info t)) = Some (File nd)" "f_data nd @ unsettled = hashed"
    by (auto simp: task_ok_def split: option.splits node.splits)
  with assms(3) have "\<exists>nd'. lookup d' (gallery_path dir (tk_info t)) = Some (File nd') \<and> f_data nd' = hashed"
    by (auto simp: d' settle_quietly_def settle_def)
  with h show ?thesis by (auto simp: file_verified_def)
qed

section \<open>The invariant of a gallery\<close>

text \<open>The files of the gallery have different names.\<close>

definition names_distinct :: "gallery_meta \<Rightarrow> bool" where
  "names_distinct meta \<longleftrightarrow>
     distinct (map gallery_file_name (gm_files meta)) \<and> list_all (\<lambda>f. allow_filetype (gf_filetype f) \<and> allow_filename (gf_filename f)) (gm_files meta)"

definition active :: "gallery_run \<Rightarrow> gallery_file list" where
  "active st = map tk_info (gr_tasks st) @ (case gr_waiting st of None \<Rightarrow> [] | Some t \<Rightarrow> [tk_info t])"

definition gallery_inv :: "('a) extern_scheme \<Rightarrow> gallery_meta \<Rightarrow> path \<Rightarrow> gallery_run \<Rightarrow> bool" where
  "gallery_inv X meta dir st \<longleftrightarrow>
     distinct (active st) \<and> distinct (gr_todo st) \<and> distinct (gr_downloaded st) \<and>
     set (active st) \<union> set (gr_todo st) \<union> set (gr_downloaded st) \<subseteq> set (gm_files meta) \<and>
     set (active st) \<inter> (set (gr_todo st) \<union> set (gr_downloaded st)) = {} \<and>
     (\<forall>f \<in> set (gr_downloaded st). file_verified X dir (gr_disk st) f) \<and>
     (\<forall>t \<in> set (gr_tasks st). task_ok dir (gr_disk st) t) \<and>
     (\<forall>t \<in> set_option (gr_waiting st). tk_phase t = Creating)"

lemma file_name_relative: "allow_filetype (gf_filetype f) \<Longrightarrow> allow_filename (gf_filename f) \<Longrightarrow> \<not> starts_with (gallery_file_name f) ''/''"
  using gallery_file_name_safe(1) [of f] by (auto simp: starts_with_iff)

lemma gallery_path_inj:
  assumes "names_distinct meta" "f \<in> set (gm_files meta)" "g \<in> set (gm_files meta)" "gallery_path dir f = gallery_path dir g"
  shows "f = g"
proof -
  have "\<not> starts_with (gallery_file_name f) ''/''" "\<not> starts_with (gallery_file_name g) ''/''"
    using assms(1-3) file_name_relative by (auto simp: names_distinct_def list_all_iff)
  with assms(4) have "gallery_file_name f = gallery_file_name g"
    by (simp add: gallery_path_def push_path_def split: if_splits)
  with assms(1-3) show ?thesis by (auto simp: names_distinct_def distinct_map inj_on_def)
qed

lemma info_path_different:
  assumes "names_distinct meta" "f \<in> set (gm_files meta)"
  shows "push_path dir ''galleryinfo.txt'' \<noteq> gallery_path dir f"
proof
  assume eq: "push_path dir ''galleryinfo.txt'' = gallery_path dir f"
  have t: "allow_filetype (gf_filetype f)" "\<not> starts_with (gallery_file_name f) ''/''"
    using assms file_name_relative by (auto simp: names_distinct_def list_all_iff)
  with eq have "rev (gallery_file_name f) = rev ''galleryinfo.txt''"
    by (simp add: gallery_path_def push_path_def split: if_splits)
  then have "rev (gf_filetype f) @ rev (gf_filename f @ ''.'') = ''txt.ofniyrellag''" by (simp add: gallery_file_name_def)
  with t(1) show False by (auto simp: allow_filetype_def)
qed

lemma set_add_new [simp]: "set (add_new x xs) = insert x (set xs)"
  by (auto simp: add_new_def)

lemma distinct_add_new [simp]: "distinct (add_new x xs) = distinct xs"
  by (simp add: add_new_def)

lemma map_remove_nth: "map f (remove_nth i xs) = remove_nth i (map f xs)"
  by (simp add: remove_nth_def take_map drop_map)

lemma remove_nth_split: "i < length xs \<Longrightarrow> xs = take i xs @ xs ! i # drop (Suc i) xs"
  by (rule id_take_nth_drop)

lemma gallery_inv_next_file:
  assumes "gallery_inv X meta dir st"
  shows "gallery_inv X meta dir (next_file X host has_proxy meta dir E reads st)"
proof (cases "gr_todo st")
  case Nil
  with assms show ?thesis by (simp add: next_file_def)
next
  case (Cons f fs)
  have drop: "gallery_inv X meta dir (st\<lparr>gr_rpc := rpc, gr_todo := fs\<rparr>)" for rpc
    using assms Cons by (auto simp: gallery_inv_def active_def split: option.splits)
  have skip: "gallery_inv X meta dir (st\<lparr>gr_todo := fs\<rparr>)"
    using assms Cons by (auto simp: gallery_inv_def active_def split: option.splits)
  have found: "gallery_inv X meta dir (st\<lparr>gr_downloaded := add_new f (gr_downloaded st), gr_todo := fs\<rparr>)"
    if "check_hash X E reads f (gallery_path dir f) (gr_disk st) = Some True"
  proof -
    have "file_verified X dir (gr_disk st) f" by (rule check_hash_verified [OF that]) (simp add: file_verified_def)
    with assms Cons show ?thesis by (auto simp: gallery_inv_def active_def split: option.splits)
  qed
  have wait: "f \<notin> set (gr_downloaded st) \<Longrightarrow> gr_waiting st = None \<Longrightarrow>
    gallery_inv X meta dir (st\<lparr>gr_rpc := rpc, gr_todo := fs,
      gr_waiting := Some \<lparr>tk_info = f, tk_host = h, tk_retry = 0, tk_proxy = px, tk_phase = Creating\<rparr>\<rparr>)" for rpc h px
    using assms Cons by (auto simp: gallery_inv_def active_def)
  have other: "gallery_inv X meta dir (st\<lparr>gr_status := s\<rparr>)" "gallery_inv X meta dir (st\<lparr>gr_rpc := rpc, gr_status := s\<rparr>)" for s rpc
    using assms by (simp_all add: gallery_inv_def active_def)
  show ?thesis
  proof (cases "gr_waiting st = None \<and> running (rs_client (gr_rpc st)) \<and> f \<notin> set (gr_downloaded st)")
    case False
    then show ?thesis by (auto simp: next_file_def Cons assms skip other)
  next
    case go: True
    show ?thesis
    proof (cases "check_hash X E reads f (gallery_path dir f) (gr_disk st)")
      case None
      with go show ?thesis by (simp add: next_file_def Cons assms)
    next
      case (Some b)
      obtain res rpc where fetch: "dl_fetch X (gm_gid meta) (gf_page f) (gf_fileindex f) (gf_xres f) (word_of_nat (gr_retry st)) (gr_rpc st) = (res, rpc)"
        by fastforce
      show ?thesis
      proof (cases b)
        case True
        with go Some found show ?thesis by (simp add: next_file_def Cons)
      next
        case False
        with go Some fetch have "next_file X host has_proxy meta dir E reads st =
            (case res of
               None \<Rightarrow> st\<lparr>gr_rpc := rpc, gr_todo := fs\<rparr>
             | Some [] \<Rightarrow> st\<lparr>gr_rpc := rpc, gr_status := Panicked\<rparr>
             | Some (url # _) \<Rightarrow>
                 (case host url of
                    None \<Rightarrow> st\<lparr>gr_rpc := rpc, gr_todo := fs\<rparr>
                  | Some h \<Rightarrow> st\<lparr>gr_rpc := rpc, gr_todo := fs,
                      gr_waiting := Some \<lparr>tk_info = f, tk_host = h, tk_retry = 0, tk_proxy = (gr_retry st \<noteq> 0 \<and> has_proxy), tk_phase = Creating\<rparr>\<rparr>))"
          by (simp add: next_file_def Cons)
        with go drop wait other show ?thesis by (simp split: option.split list.split)
      qed
    qed
  qed
qed

lemma gallery_inv_acquire: "gallery_inv X meta dir st \<Longrightarrow> gallery_inv X meta dir (acquire st)"
  by (auto simp: acquire_def gallery_inv_def active_def task_ok_creating split: option.splits)

lemma gallery_inv_end_round:
  assumes "gallery_inv X meta dir st" "names_distinct meta"
  shows "gallery_inv X meta dir (end_round X meta dir E st)"
proof -
  let ?p = "push_path dir ''galleryinfo.txt''"
  have frame: "lookup (fs_write E ?p b d) (gallery_path dir f) = lookup d (gallery_path dir f)" if "f \<in> set (gm_files meta)" for b d f
    using info_path_different [OF assms(2) that, of dir] by (simp add: fs_write_def)
  have "set (gr_downloaded st) \<subseteq> set (gm_files meta)" using assms(1) by (simp add: gallery_inv_def)
  then have v: "file_verified X dir (fs_write E ?p b (gr_disk st)) f = file_verified X dir (gr_disk st) f"
    if "f \<in> set (gr_downloaded st)" for b f using that frame by (intro file_verified_cong) auto
  have "distinct (gm_files meta)" using assms(2) by (auto simp: names_distinct_def distinct_map)
  with assms(1) v show ?thesis by (auto simp: end_round_def gallery_inv_def active_def)
qed

text \<open>A step of one task does not touch what the invariant says of the other files.\<close>

lemma others_untouched:
  assumes "gallery_inv X meta dir st" "names_distinct meta" "i < length (gr_tasks st)"
    and "step_task X E (gallery_path dir (tk_info (gr_tasks st ! i))) e (gr_tasks st ! i) (gr_disk st) = (r, d)"
  shows "\<forall>f \<in> set (gr_downloaded st). file_verified X dir d f"
    and "\<forall>j < length (gr_tasks st). j \<noteq> i \<longrightarrow> task_ok dir d (gr_tasks st ! j)"
proof -
  let ?f = "tk_info (gr_tasks st ! i)"
  have act: "tk_info (gr_tasks st ! j) \<in> set (active st)" if "j < length (gr_tasks st)" for j
    using that by (simp add: active_def)
  have files: "set (active st) \<union> set (gr_downloaded st) \<subseteq> set (gm_files meta)" "set (active st) \<inter> set (gr_downloaded st) = {}"
    and dist: "distinct (map tk_info (gr_tasks st))"
    using assms(1) by (auto simp: gallery_inv_def, simp add: active_def)
  then have in_files: "?f \<in> set (gm_files meta)" "set (gr_downloaded st) \<subseteq> set (gm_files meta)" and "?f \<notin> set (gr_downloaded st)"
    and tasks: "\<And>j. j < length (gr_tasks st) \<Longrightarrow> tk_info (gr_tasks st ! j) \<in> set (gm_files meta)"
    using act assms(3) by auto
  then have frame: "lookup d (gallery_path dir g) = lookup (gr_disk st) (gallery_path dir g)" if "g \<in> set (gm_files meta)" "g \<noteq> ?f" for g
    using step_task_frame [OF assms(4)] gallery_path_inj [OF assms(2) that(1) in_files(1)] that(2) by blast
  show "\<forall>f \<in> set (gr_downloaded st). file_verified X dir d f"
  proof
    fix f assume f: "f \<in> set (gr_downloaded st)"
    with assms(1) have "file_verified X dir (gr_disk st) f" by (simp add: gallery_inv_def)
    with f in_files \<open>?f \<notin> _\<close> show "file_verified X dir d f" by (subst file_verified_cong [OF frame]) auto
  qed
  show "\<forall>j < length (gr_tasks st). j \<noteq> i \<longrightarrow> task_ok dir d (gr_tasks st ! j)"
  proof (intro allI impI)
    fix j assume j: "j < length (gr_tasks st)" "j \<noteq> i"
    with assms(1) have "task_ok dir (gr_disk st) (gr_tasks st ! j)" by (simp add: gallery_inv_def)
    moreover have "tk_info (gr_tasks st ! j) \<noteq> ?f"
      using dist j assms(3) nth_eq_iff_index_eq [OF dist, of j i] by simp
    ultimately show "task_ok dir d (gr_tasks st ! j)" by (subst task_ok_cong [OF frame]) (auto simp: tasks j)
  qed
qed

lemma in_remove_nth:
  assumes "x \<in> set (remove_nth i xs)"
  shows "\<exists>j < length xs. j \<noteq> i \<and> x = xs ! j"
proof -
  from assms consider "x \<in> set (take i xs)" | "x \<in> set (drop (Suc i) xs)" by (auto simp: remove_nth_def)
  then show ?thesis
  proof cases
    case 1
    then obtain j where "j < length xs" "j < i" "x = xs ! j" by (auto simp: in_set_conv_nth)
    then show ?thesis by blast
  next
    case 2
    then obtain j where "j < length xs - Suc i" "x = xs ! (Suc i + j)" by (auto simp: in_set_conv_nth)
    then show ?thesis by (intro exI [of _ "Suc i + j"]) simp
  qed
qed

lemma distinct_remove_nth:
  assumes "distinct xs" "i < length xs"
  shows "distinct (remove_nth i xs)" and "set (remove_nth i xs) = set xs - {xs ! i}"
proof -
  have "distinct (take i xs @ xs ! i # drop (Suc i) xs)" "set xs = set (take i xs @ xs ! i # drop (Suc i) xs)"
    using assms remove_nth_split [OF assms(2)] by metis+
  then show "distinct (remove_nth i xs)" and "set (remove_nth i xs) = set xs - {xs ! i}"
    by (auto simp: remove_nth_def)
qed

text \<open>The last write of a file is not lost.\<close>

fun last_write_ok :: "io_env \<times> gallery_event \<Rightarrow> bool" where
  "last_write_ok (E, Task i TEnd) \<longleftrightarrow> (\<forall>p. \<not> io_fails E OpWrite p)"
| "last_write_ok _ \<longleftrightarrow> True"

lemma gallery_inv_removed:
  assumes "gallery_inv X meta dir st" "i < length (gr_tasks st)"
    and "\<forall>f \<in> set (gr_downloaded st). file_verified X dir d f" "\<forall>j < length (gr_tasks st). j \<noteq> i \<longrightarrow> task_ok dir d (gr_tasks st ! j)"
  shows "gallery_inv X meta dir (st\<lparr>gr_disk := d, gr_tasks := remove_nth i (gr_tasks st), gr_failures := fs\<rparr>)"
    and "file_verified X dir d (tk_info (gr_tasks st ! i)) \<Longrightarrow>
      gallery_inv X meta dir (st\<lparr>gr_disk := d, gr_tasks := remove_nth i (gr_tasks st),
        gr_downloaded := add_new (tk_info (gr_tasks st ! i)) (gr_downloaded st)\<rparr>)"
proof -
  let ?ts = "gr_tasks st"
  have ok: "\<forall>t \<in> set (remove_nth i ?ts). task_ok dir d t" using in_remove_nth [of _ i ?ts] assms(4) by blast
  let ?st = "st\<lparr>gr_disk := d, gr_tasks := remove_nth i ?ts\<rparr>" and ?f = "tk_info (?ts ! i)"
  have "active ?st = remove_nth i (active st)"
    using assms(2) by (simp add: active_def remove_nth_def take_map drop_map)
  moreover have "i < length (active st)" "active st ! i = ?f" using assms(2) by (simp_all add: active_def nth_append)
  moreover have "distinct (active st)" using assms(1) by (simp add: gallery_inv_def)
  ultimately have act: "distinct (active ?st)" "set (active ?st) = set (active st) - {?f}" "?f \<in> set (active st)"
    using distinct_remove_nth [of "active st" i] by (auto simp: in_set_conv_nth)
  have same: "active (st\<lparr>gr_disk := d, gr_tasks := remove_nth i ?ts, gr_failures := fs\<rparr>) = active ?st"
    "active (st\<lparr>gr_disk := d, gr_tasks := remove_nth i ?ts, gr_downloaded := ds\<rparr>) = active ?st" for ds
    by (simp_all add: active_def)
  show "gallery_inv X meta dir (st\<lparr>gr_disk := d, gr_tasks := remove_nth i ?ts, gr_failures := fs\<rparr>)"
    using assms(1,3) ok act unfolding gallery_inv_def same by auto
  show "gallery_inv X meta dir (st\<lparr>gr_disk := d, gr_tasks := remove_nth i ?ts,
      gr_downloaded := add_new ?f (gr_downloaded st)\<rparr>)" if "file_verified X dir d ?f"
    using assms(1,3) ok act that unfolding gallery_inv_def same by auto
qed

lemma gallery_inv_run_task:
  assumes "gallery_inv X meta dir st" "names_distinct meta" "last_write_ok (E, Task i e)"
  shows "gallery_inv X meta dir (run_task X dir E i e st)"
proof (cases "i < length (gr_tasks st)")
  case i: True
  let ?t = "gr_tasks st ! i"
  obtain r d where step: "step_task X E (gallery_path dir (tk_info ?t)) e ?t (gr_disk st) = (r, d)" by fastforce
  note rest = others_untouched [OF assms(1,2) i step]
  have ok: "task_ok dir (gr_disk st) ?t" using assms(1) i by (simp add: gallery_inv_def)
  show ?thesis
  proof (cases r)
    case (Running t')
    with step_task_running [of X E dir ?t] step ok have t': "tk_info t' = tk_info ?t" "task_ok dir d t'" by auto
    have "active (st\<lparr>gr_disk := d, gr_tasks := (gr_tasks st)[i := t']\<rparr>) = active st"
      using t'(1) i by (simp add: active_def map_update list_update_same_conv)
    moreover have "\<forall>t \<in> set ((gr_tasks st)[i := t']). task_ok dir d t"
      using rest(2) t'(2) i by (auto simp: in_set_conv_nth nth_list_update)
    ultimately show ?thesis
      using assms(1) rest(1) i step Running by (simp add: run_task_def gallery_inv_def)
  next
    case Done
    then have "e = TEnd" using step task_fail_not_done by (auto simp: step_task_def split: phase.splits task_event.splits option.splits if_splits)
    with assms(3) step_task_done [of X E dir ?t e] step ok Done have "file_verified X dir d (tk_info ?t)" by simp
    with gallery_inv_removed(2) [OF assms(1) i rest] i step Done show ?thesis by (simp add: run_task_def)
  next
    case (GaveUp report)
    with gallery_inv_removed(1) [OF assms(1) i rest] i step show ?thesis by (simp add: run_task_def Let_def)
  qed
qed (simp add: run_task_def assms(1))

lemma gallery_inv_step:
  assumes "gallery_inv X meta dir st" "names_distinct meta" "last_write_ok ev"
  shows "gallery_inv X meta dir (gallery_step X host has_proxy meta dir ev st)"
proof (cases ev)
  case (Pair E e)
  have "gallery_inv X meta dir (st\<lparr>gr_rpc := rpc\<rparr>)" for rpc using assms(1) by (simp add: gallery_inv_def active_def)
  with assms Pair show ?thesis
    by (cases e) (simp_all add: gallery_step_def gallery_inv_next_file gallery_inv_acquire gallery_inv_end_round gallery_inv_run_task)
qed

lemma gallery_inv_run:
  "names_distinct meta \<Longrightarrow> list_all last_write_ok evs \<Longrightarrow> gallery_inv X meta dir st \<Longrightarrow>
   gallery_inv X meta dir (fold (gallery_step X host has_proxy meta dir) evs st)"
  by (induction evs arbitrary: st) (auto intro: gallery_inv_step)

definition round_inv :: "gallery_meta \<Rightarrow> gallery_run \<Rightarrow> bool" where
  "round_inv meta st \<longleftrightarrow>
     length (gr_tasks st) \<le> MAX_DOWNLOAD_TASK \<and> gr_retry st < 10 \<and>
     (gr_status st = Finished \<longrightarrow> gr_tasks st = [] \<and> gr_waiting st = None \<and> length (gr_downloaded st) = gm_filecount meta)"

lemma next_file_rounds: "gr_status st = Downloading \<Longrightarrow>
   gr_tasks (next_file X host px meta dir E reads st) = gr_tasks st \<and> gr_retry (next_file X host px meta dir E reads st) = gr_retry st \<and>
   gr_status (next_file X host px meta dir E reads st) \<in> {Downloading, Stopped, Panicked}"
  by (simp add: next_file_def split: list.split option.split prod.split bool.split)

lemma round_inv_step:
  assumes "round_inv meta st"
  shows "round_inv meta (gallery_step X host has_proxy meta dir ev st)"
proof (cases ev)
  case (Pair E e)
  show ?thesis
  proof (cases e)
    case (NextFile reads)
    with assms Pair next_file_rounds [of st X host has_proxy meta dir E reads] show ?thesis
      by (auto simp: gallery_step_def round_inv_def)
  next
    case Acquire
    with assms Pair show ?thesis by (auto simp: gallery_step_def round_inv_def acquire_def split: option.split)
  next
    case (Task i te)
    with assms Pair show ?thesis
      by (auto simp: gallery_step_def round_inv_def run_task_def Let_def remove_nth_def split: task_result.split prod.split)
  next
    case EndRound
    with assms Pair show ?thesis by (auto simp: gallery_step_def round_inv_def end_round_def)
  next
    case Shutdown
    with assms Pair show ?thesis by (simp add: gallery_step_def round_inv_def)
  qed
qed

lemma round_inv_run: "round_inv meta st \<Longrightarrow> round_inv meta (fold (gallery_step X host has_proxy meta dir) evs st)"
  by (induction evs arbitrary: st) (auto intro: round_inv_step)

section \<open>Properties\<close>


definition sample_gallery_disk :: disk where
  "sample_gallery_disk = [(''g'', Dir), (''g/a_1.jpg'', File \<lparr>f_data = [1], f_mtime = 0\<rparr>)]"

definition idle_rpc :: rpc_state where
  "idle_rpc = \<lparr>rs_client = (rpc_new 1 ''key'' False 0 None)\<lparr>running := True\<rparr>, rs_net = [], rs_sent = []\<rparr>"


text \<open>
  The last write of a gallery file is not checked: when the write that carries the end of a file
  fails after everything was received, the task still ends as done although the disk was not changed.
\<close>

theorem lost_write_counts_as_done:
  assumes "gf_hash (tk_info t) = Some (x_sha1 X content)" "tk_phase t = Streaming content b" "b \<noteq> []"
    and "io_fails E OpWrite path"
  shows "step_task X E path TEnd t d = (Done, d)"
  using assms by (simp add: step_task_def settle_quietly_def settle_def split: option.split node.split)

theorem lost_write_counts_as_done_witness:
  "step_task sample_ext (sample_env\<lparr>io_fails := (\<lambda>op p. op = OpWrite)\<rparr>) ''g/a_1.jpg'' TEnd
     \<lparr>tk_info = sample_gallery_file\<lparr>gf_hash := Some (checksum [5])\<rparr>, tk_host = None, tk_retry = 0, tk_proxy = False, tk_phase = Streaming [5] [5]\<rparr>
     [(''g/a_1.jpg'', File \<lparr>f_data = [], f_mtime = 0\<rparr>)] = (Done, [(''g/a_1.jpg'', File \<lparr>f_data = [], f_mtime = 0\<rparr>)])"
  by (rule lost_write_counts_as_done [of _ _ "[5]" "[5]"]) simp_all

end
