(* ===== verification/CacheCleaner.thy ===== *)
theory CacheCleaner
  imports CacheStore
begin

text \<open>
  \<^verbatim>\<open>src/cache_manager.rs\<close>, \<^verbatim>\<open>check_cache_usage\<close>: the cleaner that frees space when the cache is over
  its limit or the disk is nearly full.  The loop may run forever, so it takes the list of
  environments its rounds meet as fuel and is \<^const>\<open>None\<close> while it still runs; each round also
  says whether the size limit was changed meanwhile.
\<close>

definition SIZE_100MB :: u64 where
  "SIZE_100MB = 100 * 1024 * 1024"

definition days :: "int \<Rightarrow> int" where
  "days n = n * 86400 * 1000000000"

text \<open>The cut-off: one to thirty days after the oldest file, depending on how old that is.\<close>

definition clean_offset :: "io_env \<Rightarrow> int \<Rightarrow> int" where
  "clean_offset E old =
     (if timestamp_ok E old
      then (let age = clock E - from_unix_time old in
            if age > days 180 then 86400 * 30
            else if age > days 90 then 86400 * 7
            else if age > days 30 then 86400 * 3
            else 86400)
      else 86400)"

definition cut_off :: "io_env \<Rightarrow> int \<Rightarrow> int" where
  "cut_off E old = from_unix_time (i64_add old (clean_offset E old))"

text \<open>\<^verbatim>\<open>open_dir\<close> and \<^verbatim>\<open>list_files\<close>, then the metadata of each entry; directories are dropped.\<close>

definition open_dir :: "io_env \<Rightarrow> path \<Rightarrow> disk \<Rightarrow> (string \<times> node) list option" where
  "open_dir E dir d = fs_read_dir E dir d"

definition list_files :: "io_env \<Rightarrow> path \<Rightarrow> (string \<times> node) list \<Rightarrow> (string \<times> node) list" where
  "list_files E dir stream = filter (\<lambda>(n, _). \<not> io_fails E OpReadEntry (push_path dir n)) stream"

definition files_by_mtime :: "io_env \<Rightarrow> path \<Rightarrow> (string \<times> node) list \<Rightarrow> (string \<times> fnode) list" where
  "files_by_mtime E dir files =
     sort_key (\<lambda>(_, f). f_mtime f)
       (List.map_filter
          (\<lambda>(n, nd). if io_fails E OpMetadata (push_path dir n) then None
                     else (case nd of File f \<Rightarrow> Some (n, f) | Dir \<Rightarrow> None)) files)"

text \<open>Deleting from the front until enough is freed or the files are newer than the cut-off.\<close>

fun clean_files :: "extern \<Rightarrow> io_env \<Rightarrow> path \<Rightarrow> int \<Rightarrow> (string \<times> fnode) list \<Rightarrow> u64 \<Rightarrow> int \<Rightarrow> cache_manager
    \<Rightarrow> u64 \<times> int \<times> cache_manager" where
  "clean_files X E dir co [] need_free new_oldest cm = (need_free, new_oldest, cm)"
| "clean_files X E dir co ((n, f) # files) need_free new_oldest cm =
     (if f_mtime f > co \<or> need_free = 0 then (need_free, f_mtime f, cm)
      else (case from_file_id (x_dec X) n of
              None \<Rightarrow> clean_files X E dir co files need_free new_oldest cm
            | Some info \<Rightarrow>
                (case fs_filesize E (push_path dir n) (File f) of
                   None \<Rightarrow> clean_files X E dir co files need_free new_oldest cm
                 | Some sz \<Rightarrow>
                     clean_files X E dir co files (saturating_sub need_free sz) new_oldest
                       (snd (remove_cache X E info cm)))))"

definition set_oldest :: "string \<Rightarrow> int \<Rightarrow> cache_manager \<Rightarrow> cache_manager" where
  "set_oldest sr t cm =
     (case lookup (cache_map cm) sr of
        None \<Rightarrow> cm
      | Some s \<Rightarrow> cm\<lparr>cache_map := insert_map sr (s\<lparr>oldest := unix_seconds t\<rparr>) (cache_map cm)\<rparr>)"

text \<open>One round.  Slicing a range name shorter than four characters panics.\<close>

datatype clean_result = Stopped cache_manager | Panicked | Cleaned u64 cache_manager

definition oldest_range :: "cache_manager \<Rightarrow> (string \<times> cache_state) option" where
  "oldest_range cm =
     (case sort_key (\<lambda>(_, s). oldest s) (cache_map cm) of [] \<Rightarrow> None | e # _ \<Rightarrow> Some e)"

definition range_listing :: "io_env \<Rightarrow> path \<Rightarrow> disk \<Rightarrow> (string \<times> fnode) list option" where
  "range_listing E dir d =
     (case open_dir E dir d of None \<Rightarrow> None | Some stream \<Rightarrow> Some (files_by_mtime E dir (list_files E dir stream)))"

definition initial_oldest :: "io_env \<Rightarrow> (string \<times> fnode) list \<Rightarrow> int" where
  "initial_oldest E files = (if files = [] then clock E else f_mtime (snd (last files)))"

definition clean_round :: "extern \<Rightarrow> io_env \<Rightarrow> u64 \<Rightarrow> cache_manager \<Rightarrow> clean_result" where
  "clean_round X E need_free cm =
     (case oldest_range cm of
        None \<Rightarrow> Stopped cm
      | Some (sr, s) \<Rightarrow>
          if length sr < 4 then Panicked
          else
            (case range_listing E (range_dir (cache_dir cm) sr) (disk cm) of
               None \<Rightarrow> Stopped cm
             | Some files \<Rightarrow>
                 (case clean_files X E (range_dir (cache_dir cm) sr) (cut_off E (oldest s)) files need_free
                         (initial_oldest E files) cm of
                    (need_free, new_oldest, cm) \<Rightarrow>
                      Cleaned need_free (save_state E (set_oldest sr new_oldest cm)))))"

lemma clean_roundE:
  assumes "clean_round X E need cm = Cleaned need' cm'"
  obtains sr s files new cm1 where "oldest_range cm = Some (sr, s)" "4 \<le> length sr"
    "range_listing E (range_dir (cache_dir cm) sr) (disk cm) = Some files"
    "clean_files X E (range_dir (cache_dir cm) sr) (cut_off E (oldest s)) files need (initial_oldest E files) cm =
       (need', new, cm1)"
    "cm' = save_state E (set_oldest sr new cm1)"
  using assms by (auto simp: clean_round_def not_less split: option.splits prod.splits if_splits)

type_synonym clean_event = "io_env \<times> u64 option"

definition limit_event :: "u64 option \<Rightarrow> cache_manager \<Rightarrow> cache_manager" where
  "limit_event l cm = (case l of None \<Rightarrow> cm | Some l \<Rightarrow> cm_update_settings l cm)"

text \<open>The result is \<^const>\<open>None\<close> while the loop runs, \<^term>\<open>Some None\<close> after a panic.\<close>

fun clean_loop :: "extern \<Rightarrow> clean_event list \<Rightarrow> u64 \<Rightarrow> u64 \<Rightarrow> cache_manager \<Rightarrow> cache_manager option option" where
  "clean_loop X [] limit need_free cm = None"
| "clean_loop X ((E, l) # evs) limit need_free cm =
     (let cm = limit_event l cm in
      if need_free > 0 \<and> limit = size_limit cm
      then (case clean_round X E need_free cm of
              Stopped cm \<Rightarrow> Some (Some cm)
            | Panicked \<Rightarrow> Some None
            | Cleaned need_free cm \<Rightarrow> clean_loop X evs limit need_free cm)
      else Some (Some cm))"

definition total_size :: "cache_manager \<Rightarrow> u64" where
  "total_size cm = fold (\<lambda>(_, s) acc. acc + state_size s) (cache_map cm) 0"

definition need_free :: "io_env \<Rightarrow> cache_manager \<Rightarrow> u64" where
  "need_free E cm =
     (let n = saturating_sub (total_size cm) (size_limit cm);
          n = (case available E of
                 Some free \<Rightarrow> if free < SIZE_100MB then n + saturating_sub SIZE_100MB free else n
               | None \<Rightarrow> n)
      in if n = 0 then 0 else if n < SIZE_100MB then SIZE_100MB else n)"

definition check_cache_usage :: "extern \<Rightarrow> io_env \<Rightarrow> clean_event list \<Rightarrow> cache_manager \<Rightarrow> cache_manager option option" where
  "check_cache_usage X E evs cm =
     (let n = need_free E cm;
          limit = size_limit cm;
          cm = cm\<lparr>m_cache_size := total_size cm, m_static_range := int (length (cache_map cm))\<rparr>
      in if n = 0 then Some (Some cm) else clean_loop X evs limit n cm)"

text \<open>A directory holds only files that stand where their name belongs.\<close>

definition well_placed :: "extern \<Rightarrow> path \<Rightarrow> path \<Rightarrow> disk \<Rightarrow> bool" where
  "well_placed X base dir d \<longleftrightarrow>
     (\<forall>(p, nd) \<in> set d. parent p = dir \<longrightarrow>
        (case from_file_id (x_dec X) (basename p) of
           None \<Rightarrow> True
         | Some info \<Rightarrow> to_path (x_enc X) info base = p))"

text \<open>The file at \<open>p\<close> is among the listed files and its name parses.\<close>

definition listed :: "extern \<Rightarrow> path \<Rightarrow> (string \<times> fnode) list \<Rightarrow> path \<Rightarrow> bool" where
  "listed X dir files p \<longleftrightarrow> (\<exists>(n, f) \<in> set files. p = dir @ ''/'' @ n \<and> from_file_id (x_dec X) n \<noteq> None)"

lemma listed_simps [simp]:
  "\<not> listed X dir [] p"
  "listed X dir ((n, f) # files) p \<longleftrightarrow> (p = dir @ ''/'' @ n \<and> from_file_id (x_dec X) n \<noteq> None) \<or> listed X dir files p"
  by (auto simp: listed_def)

definition delete_listed :: "extern \<Rightarrow> path \<Rightarrow> (string \<times> fnode) list \<Rightarrow> disk \<Rightarrow> path \<Rightarrow> node option" where
  "delete_listed X dir files d p = (if listed X dir files p \<and> lookup d p \<noteq> Some Dir then None else lookup d p)"

section \<open>The totals\<close>

lemma total_size_sum: "total_size cm = sum_list (map (\<lambda>(_, s). state_size s) (cache_map cm))"
proof -
  have "fold (\<lambda>(_, s) acc. acc + state_size s) m a = a + sum_list (map (\<lambda>(_, s). state_size s) m)"
    for m :: "(string, cache_state) hashmap" and a
    by (induction m arbitrary: a) (auto simp: add.assoc)
  then show ?thesis by (simp add: total_size_def)
qed

lemma sum_ranges:
  fixes w :: "string \<times> u64 \<Rightarrow> u64"
  assumes "distinct ks" "fst ` set_mset M \<subseteq> set ks"
  shows "sum_list (map (\<lambda>k. sum_mset (image_mset w (range_files M k))) ks) = sum_mset (image_mset w M)"
  using assms
proof (induction ks arbitrary: M)
  case (Cons k ks)
  let ?M = "filter_mset (\<lambda>e. fst e \<noteq> k) M"
  have "range_files ?M k' = range_files M k'" if "k' \<in> set ks" for k'
    using that Cons.prems(1) by (auto simp: range_files_def filter_filter_mset intro!: filter_mset_cong)
  then have "sum_list (map (\<lambda>k. sum_mset (image_mset w (range_files M k))) ks) =
      sum_list (map (\<lambda>k. sum_mset (image_mset w (range_files ?M k))) ks)"
    by (simp cong: map_cong)
  also have "\<dots> = sum_mset (image_mset w ?M)"
    using Cons.prems by (intro Cons.IH) auto
  finally show ?case
    using multiset_partition [of M "\<lambda>e. fst e = k"]
    by (metis (no_types, lifting) image_mset_union list.simps(9) range_files_def sum_list.Cons sum_mset.union)
qed simp

context external
begin

lemma accounted_total_size:
  assumes "accounted X rs cm"
  shows "total_size cm = m_cache_size cm"
proof -
  let ?M = "cached_files X rs cm"
  from assms have bal: "range_balanced ?M (cache_map cm) sr" and wf: "wf_map (cache_map cm)" for sr
    by (simp_all add: accounted_def)
  have "state_size s = sum_mset (image_mset snd (range_files ?M sr))" if "(sr, s) \<in> set (cache_map cm)" for sr s
    using bal [of sr] map_of_is_SomeI [OF _ that] wf by (simp add: range_balanced_def wf_map_def)
  then have "total_size cm = sum_list (map (\<lambda>k. sum_mset (image_mset snd (range_files ?M k))) (map fst (cache_map cm)))"
    unfolding total_size_sum map_map by (intro arg_cong [where f = sum_list] map_cong) auto
  also have "\<dots> = sum_mset (image_mset snd ?M)"
  proof (rule sum_ranges)
    show "distinct (map fst (cache_map cm))" using wf by (simp add: wf_map_def)
    show "fst ` set_mset ?M \<subseteq> set (map fst (cache_map cm))"
    proof safe
      fix sr sz assume "(sr, sz) \<in># ?M"
      then have "range_files ?M sr \<noteq> {#}" by (force simp: range_files_def)
      with bal [of sr] show "fst (sr, sz) \<in> set (map fst (cache_map cm))"
        by (auto simp: range_balanced_def split: option.splits dest!: lookup_set intro: rev_image_eqI)
    qed
  qed
  also have "\<dots> = m_cache_size cm" using assms by (simp add: accounted_def)
  finally show ?thesis .
qed

section \<open>Accounting\<close>

lemma accounted_clean_files:
  assumes "accounted X (real_size E) cm" "\<forall>(n, f) \<in> set files. CHR ''/'' \<notin> set n"
    and "clean_files X E dir co files need new cm = (need', new', cm')"
  shows "accounted X (real_size E) cm'"
  using assms
proof (induction files arbitrary: need cm)
  case (Cons e files)
  obtain n f where e: "e = (n, f)" by (metis surj_pair)
  have "accounted X (real_size E) (snd (remove_cache X E info cm))" if "from_file_id (x_dec X) n = Some info" for info
    using that Cons.prems(1,2) e by (auto intro!: accounted_remove_cache dest: from_file_id_plain)
  with Cons e show ?case by (auto split: if_splits option.splits)
qed simp

lemma range_listing_names:
  assumes "range_listing E dir d = Some files" "(n, f) \<in> set files"
  shows "(dir @ ''/'' @ n, File f) \<in> set d" and "CHR ''/'' \<notin> set n"
proof -
  from assms obtain stream where "open_dir E dir d = Some stream" "(n, File f) \<in> set stream"
    by (auto simp: range_listing_def files_by_mtime_def list_files_def map_filter_def
        split: option.splits if_splits node.splits)
  then show "(dir @ ''/'' @ n, File f) \<in> set d" and "CHR ''/'' \<notin> set n"
    by (auto simp: open_dir_def fs_read_dir_def in_list_dir split: if_splits)
qed

lemma balanced_same:
  "range_balanced M m sr \<Longrightarrow> lookup m r = Some s \<Longrightarrow> range_balanced M (insert_map r (s\<lparr>oldest := t\<rparr>) m) sr"
  by (auto simp: range_balanced_def split: option.splits if_splits)

lemma accounted_set_oldest: "accounted X rs cm \<Longrightarrow> accounted X rs (set_oldest sr t cm)"
  by (auto simp: accounted_def cached_files_def set_oldest_def split: option.split intro: balanced_same)

lemma accounted_clean_round:
  assumes "accounted X (real_size E) cm" "clean_round X E need cm = Cleaned need' cm'"
  shows "accounted X (real_size E) cm'"
  using assms(2)
proof (rule clean_roundE)
  fix sr s files new cm1
  assume l: "range_listing E (range_dir (cache_dir cm) sr) (disk cm) = Some files"
    and c: "clean_files X E (range_dir (cache_dir cm) sr) (cut_off E (oldest s)) files need (initial_oldest E files) cm =
       (need', new, cm1)" and cm': "cm' = save_state E (set_oldest sr new cm1)"
  have "accounted X (real_size E) cm1"
    using range_listing_names [OF l] by (intro accounted_clean_files [OF assms(1) _ c]) auto
  with cm' show ?thesis by (simp add: accounted_save_state accounted_set_oldest)
qed

lemma clean_round_stopped: "clean_round X E need cm = Stopped cm' \<Longrightarrow> cm' = cm"
  by (auto simp: clean_round_def split: option.splits prod.splits if_splits)

lemma accounted_clean_loop:
  assumes "accounted X rs cm" "\<And>E l. (E, l) \<in> set evs \<Longrightarrow> real_size E = rs"
    and "clean_loop X evs limit need cm = Some (Some cm')"
  shows "accounted X rs cm'"
  using assms
proof (induction evs arbitrary: need cm)
  case (Cons ev evs)
  obtain E l where ev: "ev = (E, l)" by (metis surj_pair)
  have E: "real_size E = rs" using Cons.prems(2) [of E l] ev by simp
  have a: "accounted X rs (limit_event l cm)"
    using Cons.prems(1) by (simp add: limit_event_def accounted_update_settings split: option.split)
  show ?case
    using Cons.IH Cons.prems(2,3) accounted_clean_round [of E "limit_event l cm" need] a
    by (auto simp: ev Let_def E split: if_splits clean_result.splits dest: clean_round_stopped)
qed simp

lemma accounted_check_cache_usage:
  assumes "accounted X rs cm" "\<And>E l. (E, l) \<in> set evs \<Longrightarrow> real_size E = rs"
    and "check_cache_usage X E evs cm = Some (Some cm')"
  shows "accounted X rs cm'"
proof -
  have "accounted X rs (cm\<lparr>m_cache_size := total_size cm, m_static_range := int (length (cache_map cm))\<rparr>)"
    using assms(1) accounted_total_size [OF assms(1)] by (simp add: accounted_def cached_files_def)
  with assms(2,3) show ?thesis
    by (auto simp: check_cache_usage_def Let_def split: if_splits intro: accounted_clean_loop)
qed

section \<open>What a round deletes\<close>

lemma clean_files_prefix:
  assumes "clean_files X E dir co files need new cm = (need', new', cm')" "io_ok E"
    and "\<forall>(n, f) \<in> set files. \<forall>info. from_file_id (x_dec X) n = Some info \<longrightarrow>
      to_path (x_enc X) info (cache_dir cm) = dir @ ''/'' @ n"
  shows "\<exists>don rest. files = don @ rest \<and> (\<forall>(n, f) \<in> set don. f_mtime f \<le> co) \<and>
    (\<forall>p. lookup (disk cm') p = delete_listed X dir don (disk cm) p)"
  using assms(1,3)
proof (induction files arbitrary: need cm)
  case Nil
  then show ?case by (auto simp: delete_listed_def)
next
  case (Cons e files)
  obtain n f where e: "e = (n, f)" by (metis surj_pair)
  show ?case
  proof (cases "f_mtime f > co \<or> need = 0")
    case True
    with Cons.prems(1) e show ?thesis
      by (intro exI [of _ "[]"] exI [of _ "e # files"]) (auto simp: delete_listed_def)
  next
    case False
    obtain need1 cm1 where r: "clean_files X E dir co files need1 new cm1 = (need', new', cm')"
      and dir: "cache_dir cm1 = cache_dir cm"
      and cm1: "\<And>p. lookup (disk cm1) p = delete_listed X dir [e] (disk cm) p"
    proof (cases "from_file_id (x_dec X) n")
      case None
      with Cons.prems(1) False e that [of need cm] show ?thesis by (auto simp: delete_listed_def)
    next
      case (Some info)
      have "to_path (x_enc X) info (cache_dir cm) = dir @ ''/'' @ n" using Cons.prems(2) e Some by simp
      with Some e have "lookup (disk (snd (remove_cache X E info cm))) p = delete_listed X dir [e] (disk cm) p" for p
        using assms(2)
        by (auto simp: remove_cache_def Let_def io_ok_def fs_metadata_def fs_filesize_def fs_remove_file_def
            delete_listed_def split: option.splits node.splits)
      with Cons.prems(1) False e Some assms(2)
        that [of "saturating_sub need (real_size E f)" "snd (remove_cache X E info cm)"]
      show ?thesis by (simp add: fs_filesize_def io_ok_def)
    qed
    from Cons.IH [OF r] Cons.prems(2) dir obtain don rest where "files = don @ rest"
      "\<forall>(n, f) \<in> set don. f_mtime f \<le> co"
      and "\<And>p. lookup (disk cm') p = delete_listed X dir don (disk cm1) p" by auto
    then show ?thesis
      using False e by (intro exI [of _ "e # don"] exI [of _ rest]) (auto simp: delete_listed_def cm1)
  qed
qed

lemma range_listing_complete:
  assumes "range_listing E dir d = Some files" "io_ok E" "(dir @ ''/'' @ n, File f) \<in> set d" "CHR ''/'' \<notin> set n" "n \<noteq> []"
  shows "(n, f) \<in> set files"
proof -
  from assms(1) obtain stream where s: "open_dir E dir d = Some stream"
    and files: "files = files_by_mtime E dir (list_files E dir stream)"
    by (auto simp: range_listing_def split: option.splits)
  from s assms(3-5) have "(n, File f) \<in> set stream"
    by (auto simp: open_dir_def fs_read_dir_def in_list_dir split: if_splits)
  then show ?thesis
    using assms(2) by (force simp: files files_by_mtime_def list_files_def map_filter_def io_ok_def image_iff)
qed

lemma range_listing_sorted:
  "range_listing E dir d = Some files \<Longrightarrow> sorted (map (\<lambda>(_, f). f_mtime f) files)"
  by (auto simp: range_listing_def files_by_mtime_def split: option.splits)

lemma removed_oldest_first:
  assumes "wf_map (disk cm)" "io_ok E" "well_placed X (cache_dir cm) dir (disk cm)"
    and l: "range_listing E dir (disk cm) = Some files"
    and c: "clean_files X E dir co files need new cm = (need', new', cm')"
    and p: "lookup (disk cm) p = Some (File g)" "lookup (disk cm') p = None"
  shows "parent p = dir \<and> f_mtime g \<le> co \<and>
    (\<forall>n f. lookup (disk cm') (dir @ ''/'' @ n) = Some (File f) \<and> CHR ''/'' \<notin> set n \<and>
       from_file_id (x_dec X) n \<noteq> None \<longrightarrow> f_mtime g \<le> f_mtime f)"
proof -
  note in_disk = range_listing_names [OF l]
  have place: "\<forall>(n, f) \<in> set files. \<forall>info. from_file_id (x_dec X) n = Some info \<longrightarrow>
      to_path (x_enc X) info (cache_dir cm) = dir @ ''/'' @ n"
    using assms(3) in_disk by (fastforce simp: well_placed_def)
  from clean_files_prefix [OF c assms(2) place] obtain don rest where files: "files = don @ rest"
    and old: "\<forall>(n, f) \<in> set don. f_mtime f \<le> co"
    and d: "\<And>p. lookup (disk cm') p = delete_listed X dir don (disk cm) p" by blast
  from p d [of p] obtain n f where n: "(n, f) \<in> set don" "p = dir @ ''/'' @ n"
    by (auto simp: delete_listed_def listed_def split: if_splits)
  with in_disk [of n f] files have "(p, File f) \<in> set (disk cm)" and sl: "CHR ''/'' \<notin> set n" by auto
  with p(1) assms(1) have g: "f = g" by (simp add: wf_map_def)
  have "f_mtime g \<le> f_mtime f'"
    if q: "lookup (disk cm') (dir @ ''/'' @ m) = Some (File f')" "CHR ''/'' \<notin> set m" "from_file_id (x_dec X) m \<noteq> None" for m f'
  proof -
    let ?q = "dir @ ''/'' @ m"
    from q(1) have "lookup (disk cm) ?q = Some (File f')" and "\<not> listed X dir don ?q"
      unfolding d delete_listed_def by (auto split: if_splits)
    moreover from q(3) have "m \<noteq> []" by auto
    ultimately have "(m, f') \<in> set files" "(m, f') \<notin> set don"
      using range_listing_complete [OF l assms(2) lookup_set q(2)] q(3) by (auto simp: listed_def)
    then have "(m, f') \<in> set rest" using files by auto
    with range_listing_sorted [OF l] n(1) show ?thesis by (fastforce simp: files g sorted_append)
  qed
  with n g sl old show ?thesis by auto
qed

end

section \<open>Rounds that free nothing\<close>

text \<open>No directory of a recorded range holds a file whose name parses.\<close>

definition barren :: "extern \<Rightarrow> cache_manager \<Rightarrow> bool" where
  "barren X cm \<longleftrightarrow>
     (\<forall>sr \<in> fst ` set (cache_map cm).
        4 \<le> length sr \<and> lookup (disk cm) (range_dir (cache_dir cm) sr) = Some Dir \<and>
        (\<forall>(n, nd) \<in> set (list_dir (range_dir (cache_dir cm) sr) (disk cm)). from_file_id (x_dec X) n = None))"

lemma clean_files_barren:
  "\<forall>(n, f) \<in> set files. from_file_id (x_dec X) n = None \<Longrightarrow>
   \<exists>new'. clean_files X E dir co files need new cm = (need, new', cm)"
  by (induction files) auto

lemma set_oldest_keys [simp]: "fst ` set (cache_map (set_oldest sr t cm)) = fst ` set (cache_map cm)"
proof (cases "lookup (cache_map cm) sr")
  case (Some s)
  then have "sr \<in> set (map fst (cache_map cm))" by (metis map_of_eq_None_iff option.distinct(1) set_map)
  with Some show ?thesis by (simp add: set_oldest_def update_keys flip: set_map)
qed (simp add: set_oldest_def)

lemma set_oldest_simps [simp]:
  "cache_dir (set_oldest sr t cm) = cache_dir cm" "disk (set_oldest sr t cm) = disk cm"
  "size_limit (set_oldest sr t cm) = size_limit cm"
  by (simp_all add: set_oldest_def split: option.split)

lemma save_state_simps [simp]:
  "cache_dir (save_state E cm) = cache_dir cm" "disk (save_state E cm) = disk cm"
  "size_limit (save_state E cm) = size_limit cm" "cache_map (save_state E cm) = cache_map cm"
  by (simp_all add: save_state_def)

lemma oldest_range_None [simp]: "oldest_range cm = None \<longleftrightarrow> cache_map cm = []"
  by (metis (no_types, lifting) length_0_conv length_sort list.exhaust list.simps(4,5) oldest_range_def option.distinct(1))

lemma oldest_range_in: "oldest_range cm = Some (sr, s) \<Longrightarrow> (sr, s) \<in> set (cache_map cm)"
  by (metis (no_types, lifting) list.case_eq_if list.set_sel(1) oldest_range_def option.distinct(1) option.inject set_sort)

lemma range_listing_barren:
  assumes "barren X cm" "sr \<in> fst ` set (cache_map cm)" "\<forall>p. \<not> io_fails E OpReadDir p"
  obtains files where "range_listing E (range_dir (cache_dir cm) sr) (disk cm) = Some files"
    "\<forall>(n, f) \<in> set files. from_file_id (x_dec X) n = None"
proof
  let ?dir = "range_dir (cache_dir cm) sr"
  from assms show "range_listing E ?dir (disk cm) =
      Some (files_by_mtime E ?dir (list_files E ?dir (list_dir ?dir (disk cm))))"
    by (auto simp: barren_def range_listing_def open_dir_def fs_read_dir_def)
  from assms show "\<forall>(n, f) \<in> set (files_by_mtime E ?dir (list_files E ?dir (list_dir ?dir (disk cm)))).
      from_file_id (x_dec X) n = None"
    by (fastforce simp: barren_def files_by_mtime_def list_files_def map_filter_def split: if_splits node.splits)
qed

lemma clean_round_barren:
  assumes "barren X cm" "cache_map cm \<noteq> []" "\<forall>p. \<not> io_fails E OpReadDir p"
  shows "\<exists>cm'. clean_round X E need cm = Cleaned need cm' \<and> barren X cm' \<and> cache_map cm' \<noteq> [] \<and>
    size_limit cm' = size_limit cm"
proof -
  obtain sr s where o: "oldest_range cm = Some (sr, s)" using assms(2) by (metis oldest_range_None option.exhaust surj_pair)
  then have sr: "sr \<in> fst ` set (cache_map cm)" by (metis fst_conv image_eqI oldest_range_in)
  obtain files where l: "range_listing E (range_dir (cache_dir cm) sr) (disk cm) = Some files"
    and f: "\<forall>(n, f) \<in> set files. from_file_id (x_dec X) n = None"
    using range_listing_barren [OF assms(1) sr assms(3)] by blast
  obtain new where c: "clean_files X E (range_dir (cache_dir cm) sr) (cut_off E (oldest s)) files need
      (initial_oldest E files) cm = (need, new, cm)"
    using clean_files_barren [OF f] by blast
  from assms(1) sr have "4 \<le> length sr" by (auto simp: barren_def)
  with o l c have "clean_round X E need cm = Cleaned need (save_state E (set_oldest sr new cm))"
    by (simp add: clean_round_def)
  moreover have "cache_map (set_oldest sr new cm) \<noteq> []"
    using assms(2) set_oldest_keys [of sr new cm] by force
  moreover have "barren X (save_state E (set_oldest sr new cm))"
    using assms(1) unfolding barren_def save_state_simps set_oldest_simps set_oldest_keys .
  ultimately show ?thesis by simp
qed

lemma clean_loop_barren:
  assumes "barren X cm" "cache_map cm \<noteq> []" "need \<noteq> 0"
    and "\<forall>(E, l) \<in> set evs. l = None \<and> (\<forall>p. \<not> io_fails E OpReadDir p)"
  shows "clean_loop X evs (size_limit cm) need cm = None"
  using assms
proof (induction evs arbitrary: cm)
  case (Cons ev evs)
  obtain E where ev: "ev = (E, None)" "\<forall>p. \<not> io_fails E OpReadDir p" using Cons.prems(4) by auto
  from clean_round_barren [OF Cons.prems(1,2) ev(2), of need] obtain cm' where
    cm': "clean_round X E need cm = Cleaned need cm'" "barren X cm'" "cache_map cm' \<noteq> []" "size_limit cm' = size_limit cm"
    by blast
  from Cons.IH [OF cm'(2,3) Cons.prems(3)] Cons.prems cm' show ?case
    by (simp add: ev limit_event_def word_gt_0)
qed simp

section \<open>Properties\<close>


definition old_file :: fnode where
  "old_file = \<lparr>f_data = [1, 2, 3], f_mtime = 5\<rparr>"

lemma sample_listing: "range_listing sample_env sample_dir (sample_disk f) = Some [(file_name hex_encode sample_info, f)]"
proof -
  have "\<not> starts_with sample_dir (sample_dir @ ''/'')" by (auto simp: starts_with_iff)
  then have "list_dir sample_dir (sample_disk f) = [(file_name hex_encode sample_info, File f)]"
    using sample_file_name
    by (auto simp: list_dir_def map_filter_simps dir_entry_def sample_disk_def Let_def sample_path_eq starts_with_iff)
  then show ?thesis
    by (simp add: range_listing_def open_dir_def fs_read_dir_def list_files_def files_by_mtime_def map_filter_simps)
qed

lemma sample_remove:
  "disk (snd (remove_cache sample_ext sample_env (stored_info sample_info) (sample_store f))) = [(sample_dir, Dir)]"
  "size_limit (snd (remove_cache sample_ext sample_env (stored_info sample_info) (sample_store f))) = 100"
  by (simp_all add: remove_cache_def Let_def fs_metadata_def fs_filesize_def fs_remove_file_def sample_path_def [symmetric])
    (simp add: sample_disk_def)

lemma sample_round:
  "\<exists>cm'. clean_round sample_ext sample_env 2 (sample_store old_file) = Cleaned 0 cm' \<and> disk cm' = [(sample_dir, Dir)] \<and>
     size_limit cm' = 100"
proof -
  have "oldest_range (sample_store old_file) = Some (sample_range, \<lparr>file_count = 1, state_size = 3, oldest = 0\<rparr>)"
    by (simp add: oldest_range_def old_file_def)
  then show ?thesis
    by (simp add: clean_round_def sample_dir_def [symmetric] sample_listing sample_file_name old_file_def cut_off_def
        clean_offset_def i64_add_exact is_i64_def from_unix_time_def days_def Let_def fs_filesize_def saturating_sub_def)
      (simp add: sample_remove)
qed


text \<open>
  The cleaner keeps the books: when \<^verbatim>\<open>check_cache_usage\<close> returns, counters and gauges still
  agree with the files on disk, whatever I/O failed meanwhile.
\<close>

theorem cleaner_keeps_accounting:
  assumes "external X" "accounted X rs cm" "\<forall>(E, l) \<in> set evs. real_size E = rs"
    and "check_cache_usage X E evs cm = Some (Some cm')"
  shows "accounted X rs cm'"
  using external.accounted_check_cache_usage [OF assms(1,2) _ assms(4)] assms(3) by auto

theorem cleaner_keeps_accounting_witness:
  "\<exists>cm'. check_cache_usage sample_ext (sample_env\<lparr>available := Some 5\<rparr>) [(sample_env, None), (sample_env, Some 7)]
       (sample_store old_file) = Some (Some cm') \<and> accounted sample_ext (real_size sample_env) cm'"
proof -
  obtain cm' where c: "check_cache_usage sample_ext (sample_env\<lparr>available := Some 5\<rparr>)
      [(sample_env, None), (sample_env, Some 7)] (sample_store old_file) = Some (Some cm')"
  proof -
    let ?E = "sample_env\<lparr>available := Some 5\<rparr>"
    let ?cm = "sample_store old_file\<lparr>m_cache_size := total_size (sample_store old_file), m_static_range := 1\<rparr>"
    have "clean_round sample_ext sample_env (need_free ?E (sample_store old_file)) ?cm \<noteq> Panicked"
      by (auto simp: clean_round_def oldest_range_def split: option.split prod.split)
    then have "\<exists>c. clean_loop sample_ext [(sample_env, None), (sample_env, Some 7)] 100
        (need_free ?E (sample_store old_file)) ?cm = Some (Some c)"
      by (auto simp: Let_def limit_event_def cm_update_settings_def split: clean_result.split)
    then show ?thesis
      using that by (cases "need_free ?E (sample_store old_file) = 0")
        (auto simp: check_cache_usage_def Let_def simp del: clean_loop.simps)
  qed
  with cleaner_keeps_accounting [OF sx.external_axioms accounted_sample_store _ c] show ?thesis by auto
qed



end
