(* ===== verification/CacheScan.thy ===== *)
theory CacheScan
  imports CacheCleaner Body
begin

text \<open>
  \<^verbatim>\<open>src/cache_manager.rs\<close>, the start of the manager: \<^verbatim>\<open>new\<close> with the loading of the saved state, the
  clean-up of old files, and \<^verbatim>\<open>scan_cache\<close>, which deletes directories outside the assigned static
  ranges, deletes files of the wrong size or hash and rebuilds the books of every range whose count
  changed.  The files of a directory are handled concurrently in the code and in list order here.
\<close>

section \<open>Directories\<close>

definition is_dir :: "io_env \<Rightarrow> path \<Rightarrow> disk \<Rightarrow> bool" where
  "is_dir E p d \<longleftrightarrow> fs_metadata E p d = Some Dir"

definition is_file :: "io_env \<Rightarrow> path \<Rightarrow> disk \<Rightarrow> bool" where
  "is_file E p d \<longleftrightarrow> (case fs_metadata E p d of Some (File _) \<Rightarrow> True | _ \<Rightarrow> False)"

type_synonym dirs = "(string \<times> path) list"

text \<open>The second level.  An entry that cannot be read ends the scan with its error; what was deleted
  before stays deleted.\<close>

fun scan_l2 :: "io_env \<Rightarrow> string list \<Rightarrow> string \<Rightarrow> path \<Rightarrow> (string \<times> node) list \<Rightarrow> dirs \<Rightarrow> disk \<Rightarrow> (io_error + dirs) \<times> disk" where
  "scan_l2 E ranges l1 l1_path [] dirs d = (Inr dirs, d)"
| "scan_l2 E ranges l1 l1_path ((l2, _) # entries) dirs d =
     (let l2_path = push_path l1_path l2 in
      if io_fails E OpReadEntry l2_path then (Inl (OsError 5), d)
      else if \<not> is_dir E l2_path d then scan_l2 E ranges l1 l1_path entries dirs d
      else (case find (\<lambda>sr. eq_ignore_ascii_case (l1 @ l2) sr) ranges of
              Some sr \<Rightarrow> scan_l2 E ranges l1 l1_path entries (dirs @ [(sr, l2_path)]) d
            | None \<Rightarrow>
                scan_l2 E ranges l1 l1_path entries dirs
                  (case fs_remove_dir_all E l2_path d of Some d \<Rightarrow> d | None \<Rightarrow> d)))"

fun scan_l1 :: "io_env \<Rightarrow> string list \<Rightarrow> path \<Rightarrow> (string \<times> node) list \<Rightarrow> dirs \<Rightarrow> disk \<Rightarrow> (io_error + dirs) \<times> disk" where
  "scan_l1 E ranges root [] dirs d = (Inr dirs, d)"
| "scan_l1 E ranges root ((l1, _) # entries) dirs d =
     (let l1_path = push_path root l1 in
      if io_fails E OpReadEntry l1_path then (Inl (OsError 5), d)
      else if \<not> is_dir E l1_path d then scan_l1 E ranges root entries dirs d
      else (case fs_read_dir E l1_path d of
              None \<Rightarrow> (Inl (OsError 2), d)
            | Some l1_stream \<Rightarrow>
                (case scan_l2 E ranges l1 l1_path l1_stream dirs d of
                   (Inl err, d) \<Rightarrow> (Inl err, d)
                 | (Inr dirs, d) \<Rightarrow> scan_l1 E ranges root entries dirs d)))"

section \<open>Files\<close>

text \<open>The bytes the hash loop reads: everything, or what precedes a read error, which only ends the loop.\<close>

definition read_for_hash :: "io_env \<Rightarrow> path \<Rightarrow> fnode \<Rightarrow> bytes" where
  "read_for_hash E p f = (if io_fails E OpRead p then take (read_before_error E p) (f_data f) else f_data f)"

definition try_remove :: "io_env \<Rightarrow> path \<Rightarrow> disk \<Rightarrow> disk" where
  "try_remove E p d = (case fs_remove_file E p d of Some d \<Rightarrow> d | None \<Rightarrow> d)"

definition scan_file :: "extern \<Rightarrow> io_env \<Rightarrow> bool \<Rightarrow> path \<Rightarrow> string \<Rightarrow> cache_manager \<Rightarrow> cache_manager" where
  "scan_file X E verify_cache dir n cm =
     (let path = push_path dir n in
      case fs_metadata E path (disk cm) of
        None \<Rightarrow> cm
      | Some Dir \<Rightarrow> cm
      | Some (File f) \<Rightarrow>
          (case from_file_id (x_dec X) n of
             None \<Rightarrow> cm
           | Some info \<Rightarrow>
               if length (f_data f) \<noteq> unat (fi_size info) then cm\<lparr>disk := try_remove E path (disk cm)\<rparr>
               else if verify_cache \<and> io_fails E OpOpen path then cm
               else if verify_cache \<and> x_sha1 X (read_for_hash E path f) \<noteq> fi_hash info
               then cm\<lparr>disk := try_remove E path (disk cm)\<rparr>
               else (case fs_filesize E path (File f) of
                       None \<Rightarrow> cm
                     | Some sz \<Rightarrow>
                         let mtime = unix_seconds (f_mtime f);
                             sr = static_range (x_enc X) info;
                             s = add_file sz (case lookup (cache_map cm) sr of None \<Rightarrow> default_state E | Some s \<Rightarrow> s);
                             s = (if oldest s > mtime then s\<lparr>oldest := mtime\<rparr> else s)
                         in cm\<lparr>cache_map := insert_map sr s (cache_map cm)\<rparr>)))"

text \<open>One range: trust the books when the number of entries is the recorded one, rebuild them otherwise.
  The flag says whether the directory counts as scanned.\<close>

definition scan_dir :: "extern \<Rightarrow> io_env \<Rightarrow> bool \<Rightarrow> string \<times> path \<Rightarrow> cache_manager \<Rightarrow> bool \<times> cache_manager" where
  "scan_dir X E verify_cache sp cm =
     (case sp of (sr, path) \<Rightarrow>
      (case open_dir E path (disk cm) of
         None \<Rightarrow> (False, cm)
       | Some stream \<Rightarrow>
           let count = length (list_files E path stream) in
           if word_of_nat count = (case lookup (cache_map cm) sr of Some s \<Rightarrow> file_count s | None \<Rightarrow> 0)
           then (True, cm)
           else let cm = cm\<lparr>cache_map := remove_map sr (cache_map cm)\<rparr> in
             (True, fold (\<lambda>(n, _). scan_file X E verify_cache path n) (list_files E path stream) cm)))"

fun scan_dirs :: "extern \<Rightarrow> io_env \<Rightarrow> bool \<Rightarrow> dirs \<Rightarrow> nat \<Rightarrow> cache_manager \<Rightarrow> nat \<times> cache_manager" where
  "scan_dirs X E verify_cache [] counter cm = (counter, cm)"
| "scan_dirs X E verify_cache (sp # dirs) counter cm =
     (case scan_dir X E verify_cache sp cm of
        (scanned, cm) \<Rightarrow> scan_dirs X E verify_cache dirs (if scanned then counter + 1 else counter) cm)"

definition total_count :: "cache_manager \<Rightarrow> u64" where
  "total_count cm = fold (\<lambda>(_, s) acc. acc + file_count s) (cache_map cm) 0"

definition scan_cache :: "extern \<Rightarrow> io_env \<Rightarrow> string list \<Rightarrow> bool \<Rightarrow> cache_manager \<Rightarrow> (io_error + unit) \<times> cache_manager" where
  "scan_cache X E ranges verify cm =
     (case fs_read_dir E (cache_dir cm) (disk cm) of
        None \<Rightarrow> (Inl (OsError 2), cm)
      | Some root \<Rightarrow>
          (case scan_l1 E ranges (cache_dir cm) root [] (disk cm) of
             (Inl err, d) \<Rightarrow> (Inl err, cm\<lparr>disk := d\<rparr>)
           | (Inr dirs, d) \<Rightarrow>
               (case scan_dirs X E verify dirs 0 (cm\<lparr>disk := d\<rparr>) of
                  (counter, cm) \<Rightarrow>
                    if counter = 0 \<and> length ranges > 20 then (Inl (BadRequest ''Cache is empty.''), cm)
                    else (Inr (), cm\<lparr>m_cache_size := total_size cm, m_cache_count := total_count cm,
                                    m_static_range := int (length (cache_map cm))\<rparr>))))"

section \<open>Starting the manager\<close>

text \<open>\<^verbatim>\<open>clean_temp_dir\<close>: an unreadable directory or entry ends it silently.\<close>

fun clean_temp_entries :: "io_env \<Rightarrow> path \<Rightarrow> (string \<times> node) list \<Rightarrow> disk \<Rightarrow> disk" where
  "clean_temp_entries E dir [] d = d"
| "clean_temp_entries E dir ((n, _) # entries) d =
     (let path = push_path dir n in
      if io_fails E OpReadEntry path then d
      else clean_temp_entries E dir entries
        (if is_file E path d \<and> starts_with n ''proxyfile_'' then try_remove E path d else d))"

definition clean_temp_dir :: "io_env \<Rightarrow> path \<Rightarrow> disk \<Rightarrow> disk" where
  "clean_temp_dir E path d =
     (case fs_read_dir E path d of None \<Rightarrow> d | Some entries \<Rightarrow> clean_temp_entries E path entries d)"

definition delete_java_cache_data :: "io_env \<Rightarrow> path \<Rightarrow> disk \<Rightarrow> disk" where
  "delete_java_cache_data E data_dir d =
     try_remove E (push_path data_dir ''pcache_lru'')
       (try_remove E (push_path data_dir ''pcache_ages'')
         (try_remove E (push_path data_dir ''pcache_info'') d))"

definition read_state :: "io_env \<Rightarrow> cache_manager \<Rightarrow> (string, cache_state) hashmap option" where
  "read_state E cm =
     (if io_fails E OpOpen (cache_state_path cm) \<or> io_fails E OpRead (cache_state_path cm) then None
      else saved_state cm)"

record init_settings =
  verify_cache :: bool
  is_static_range :: "string list"

text \<open>\<^verbatim>\<open>CacheManager::new\<close> up to the scan; \<^verbatim>\<open>saved\<close> is the content of the state file.\<close>

definition cm_load :: "io_env \<Rightarrow> path \<Rightarrow> path \<Rightarrow> path \<Rightarrow> u64 \<Rightarrow> init_settings \<Rightarrow> (string, cache_state) hashmap option \<Rightarrow> disk
    \<Rightarrow> cache_manager" where
  "cm_load E data_dir cdir tdir limit init saved d =
     (let cm = cm_update_settings limit
            \<lparr>cache_dir = cdir, temp_dir = tdir, cache_state_path = push_path data_dir ''cache_state.dat'',
             cache_map = [], size_limit = 2 ^ 64 - 1, m_cache_count = 0, m_cache_size = 0, m_static_range = 0,
             m_cache_capacity = 0, disk = d, saved_state = saved\<rparr>;
          cm = cm\<lparr>disk := clean_temp_dir E tdir (delete_java_cache_data E data_dir d)\<rparr>
      in if verify_cache init then cm
         else load_state (is_static_range init) (case read_state E cm of Some s \<Rightarrow> s | None \<Rightarrow> []) cm)"

text \<open>The scan runs before \<^verbatim>\<open>new\<close> returns when the disk is nearly full or a check was asked for in the
  foreground, and its error is then the error of \<^verbatim>\<open>new\<close>; otherwise it runs in the background and its
  error asks for a shutdown.\<close>

definition foreground_scan :: "io_env \<Rightarrow> init_settings \<Rightarrow> bool \<Rightarrow> bool" where
  "foreground_scan E init force_background_scan \<longleftrightarrow>
     (case available E of Some x \<Rightarrow> x < SIZE_100MB | None \<Rightarrow> False) \<or> (verify_cache init \<and> \<not> force_background_scan)"

datatype start_outcome = Started cache_manager | StartFailed io_error | ShutdownRequested cache_manager

definition cm_new :: "extern \<Rightarrow> io_env \<Rightarrow> path \<Rightarrow> path \<Rightarrow> path \<Rightarrow> u64 \<Rightarrow> init_settings \<Rightarrow> bool \<Rightarrow> (string, cache_state) hashmap option
    \<Rightarrow> disk \<Rightarrow> start_outcome" where
  "cm_new X E data_dir cdir tdir limit init force_background_scan saved d =
     (let cm = cm_load E data_dir cdir tdir limit init saved d in
      case scan_cache X E (is_static_range init) (verify_cache init) cm of
        (Inr _, cm) \<Rightarrow> Started cm
      | (Inl err, cm) \<Rightarrow>
          if foreground_scan E init force_background_scan then StartFailed err else ShutdownRequested cm)"

text \<open>The background task: every ten minutes the state is saved and the usage checked.\<close>

fun background_task :: "extern \<Rightarrow> (io_env \<times> clean_event list) list \<Rightarrow> cache_manager \<Rightarrow> cache_manager option option" where
  "background_task X [] cm = Some (Some cm)"
| "background_task X ((E, evs) # ticks) cm =
     (case check_cache_usage X E evs (save_state E cm) of
        Some (Some cm) \<Rightarrow> background_task X ticks cm
      | r \<Rightarrow> r)"

section \<open>Valid files survive a scan\<close>

lemma slash_free_prefix:
  assumes "a @ CHR ''/'' # x = b @ CHR ''/'' # y" "CHR ''/'' \<notin> set a" "CHR ''/'' \<notin> set b"
  shows "a = b \<and> x = y"
  using assms
proof (induction a arbitrary: b)
  case Nil
  then show ?case by (cases b) auto
next
  case (Cons c a)
  then show ?case by (cases b) auto
qed

text \<open>A cache directory given without a trailing separator.\<close>

definition proper_dir :: "path \<Rightarrow> bool" where
  "proper_dir p \<longleftrightarrow> p \<noteq> [] \<and> last p \<noteq> CHR ''/''"

lemma push_path_name: "proper_dir p \<Longrightarrow> CHR ''/'' \<notin> set n \<Longrightarrow> push_path p n = p @ CHR ''/'' # n"
  by (cases n) (auto simp: push_path_def proper_dir_def)

lemma proper_dir_push: "proper_dir p \<Longrightarrow> CHR ''/'' \<notin> set n \<Longrightarrow> n \<noteq> [] \<Longrightarrow> proper_dir (push_path p n)"
  by (simp add: push_path_name) (auto simp: proper_dir_def dest: last_in_set)

definition slash_free :: "(string \<times> node) list \<Rightarrow> bool" where
  "slash_free entries \<longleftrightarrow> (\<forall>(n, nd) \<in> set entries. CHR ''/'' \<notin> set n \<and> n \<noteq> [])"

text \<open>The first level never touches a path whose first two components name an assigned range.\<close>

definition assigned :: "string list \<Rightarrow> path \<Rightarrow> path \<Rightarrow> bool" where
  "assigned ranges root p \<longleftrightarrow>
     (\<exists>a b n. p = root @ ''/'' @ a @ ''/'' @ b @ ''/'' @ n \<and> CHR ''/'' \<notin> set a \<and> CHR ''/'' \<notin> set b \<and>
        find (\<lambda>sr. eq_ignore_ascii_case (a @ b) sr) ranges \<noteq> None)"

lemma scan_l2_keeps:
  assumes "wf_map d" "proper_dir root" "CHR ''/'' \<notin> set l1" "l1 \<noteq> []" "slash_free entries" "assigned ranges root p"
  shows "lookup (snd (scan_l2 E ranges l1 (push_path root l1) entries dirs d)) p = lookup d p \<and>
    wf_map (snd (scan_l2 E ranges l1 (push_path root l1) entries dirs d))"
  using assms(1,5)
proof (induction entries arbitrary: dirs d)
  case (Cons e entries)
  obtain l2 nd where e: "e = (l2, nd)" by (metis surj_pair)
  let ?p2 = "push_path (push_path root l1) l2"
  let ?d = "case fs_remove_dir_all E ?p2 d of Some d \<Rightarrow> d | None \<Rightarrow> d"
  have sf: "CHR ''/'' \<notin> set l2" "l2 \<noteq> []" "slash_free entries" using Cons.prems(2) e by (auto simp: slash_free_def)
  have "lookup ?d p = lookup d p \<and> wf_map ?d" if "find (\<lambda>sr. eq_ignore_ascii_case (l1 @ l2) sr) ranges = None"
  proof -
    have p2: "?p2 = root @ CHR ''/'' # l1 @ CHR ''/'' # l2"
      using assms(2-4) sf proper_dir_push [OF assms(2-4)] by (simp add: push_path_name)
    obtain a b n where p: "p = root @ CHR ''/'' # a @ CHR ''/'' # b @ CHR ''/'' # n" "CHR ''/'' \<notin> set a" "CHR ''/'' \<notin> set b"
      "find (\<lambda>sr. eq_ignore_ascii_case (a @ b) sr) ranges \<noteq> None"
      using assms(6) by (auto simp: assigned_def)
    have "\<not> starts_with p (?p2 @ ''/'')"
    proof
      assume "starts_with p (?p2 @ ''/'')"
      then obtain t where "p = ?p2 @ ''/'' @ t" by (auto simp: starts_with_iff)
      with p p2 have "a @ CHR ''/'' # b @ CHR ''/'' # n = l1 @ CHR ''/'' # l2 @ CHR ''/'' # t" by simp
      with p(2,3) assms(3) sf(1) have "a = l1" "b = l2" by (metis slash_free_prefix)+
      with p(4) that show False by simp
    qed
    moreover have "p \<noteq> ?p2"
    proof
      assume "p = ?p2"
      with p p2 have "a @ CHR ''/'' # b @ CHR ''/'' # n = l1 @ CHR ''/'' # l2" by simp
      with p(2) assms(3) have "b @ CHR ''/'' # n = l2" by (metis slash_free_prefix)
      with sf(1) show False by auto
    qed
    ultimately show ?thesis
      using Cons.prems(1) by (auto simp: fs_remove_dir_all_def lookup_retain split: option.splits if_splits)
  qed
  with Cons.IH Cons.prems(1) sf(3) show ?case
    by (auto simp: e Let_def split: option.split)
qed simp

lemma slash_free_list: "fs_read_dir E dir d = Some entries \<Longrightarrow> slash_free entries"
  by (auto simp: fs_read_dir_def slash_free_def in_list_dir split: if_splits)

lemma scan_l1_keeps:
  assumes "wf_map d" "proper_dir root" "slash_free entries" "assigned ranges root p"
  shows "lookup (snd (scan_l1 E ranges root entries dirs d)) p = lookup d p \<and> wf_map (snd (scan_l1 E ranges root entries dirs d))"
  using assms(1,3)
proof (induction entries arbitrary: dirs d)
  case (Cons e entries)
  obtain l1 nd where e: "e = (l1, nd)" by (metis surj_pair)
  have sf: "CHR ''/'' \<notin> set l1" "l1 \<noteq> []" "slash_free entries" using Cons.prems(2) e by (auto simp: slash_free_def)
  have "lookup d' p = lookup d p \<and> wf_map d'"
    if "fs_read_dir E (push_path root l1) d = Some stream" "scan_l2 E ranges l1 (push_path root l1) stream dirs d = (r, d')" for stream r d'
    using scan_l2_keeps [OF Cons.prems(1) assms(2) sf(1,2) slash_free_list [OF that(1)] assms(4), of E dirs] that(2) by simp
  with Cons.IH Cons.prems(1) sf(3) show ?case
    by (auto simp: e Let_def split: option.split prod.split sum.split)
qed simp

text \<open>The file is what its name says, as far as the scan looks.\<close>

definition valid_file :: "extern \<Rightarrow> io_env \<Rightarrow> bool \<Rightarrow> path \<Rightarrow> fnode \<Rightarrow> bool" where
  "valid_file X E verify p f \<longleftrightarrow>
     (case from_file_id (x_dec X) (basename p) of
        None \<Rightarrow> True
      | Some info \<Rightarrow> length (f_data f) = unat (fi_size info) \<and>
          (verify \<longrightarrow> x_sha1 X (f_data f) = fi_hash info \<and> \<not> io_fails E OpRead p))"

lemma scan_file_keeps:
  assumes "lookup (disk cm) p = Some (File f)" "valid_file X E verify p f" "CHR ''/'' \<notin> set n" "proper_dir dir"
  shows "lookup (disk (scan_file X E verify dir n cm)) p = Some (File f)"
proof (cases "push_path dir n = p")
  case True
  with assms(3,4) have "basename p = n" by (metis basename_append push_path_name)
  with True assms show ?thesis
    by (auto simp: scan_file_def Let_def fs_metadata_def valid_file_def read_for_hash_def split: option.split node.splits)
next
  case False
  then have "lookup (try_remove E (push_path dir n) (disk cm)) p = lookup (disk cm) p"
    by (auto simp: try_remove_def fs_remove_file_def split: option.split node.splits)
  with assms(1) show ?thesis
    by (auto simp: scan_file_def Let_def split: option.split node.split)
qed

lemma scan_dir_keeps:
  assumes "lookup (disk cm) p = Some (File f)" "valid_file X E verify p f" "proper_dir (snd sp)"
  shows "lookup (disk (snd (scan_dir X E verify sp cm))) p = Some (File f)"
proof -
  have "lookup (disk (fold (\<lambda>(n, _). scan_file X E verify dir n) entries cm)) p = Some (File f)"
    if "lookup (disk cm) p = Some (File f)" "slash_free entries" "proper_dir dir" for entries dir cm
    using that
    by (induction entries arbitrary: cm) (auto simp: slash_free_def intro: scan_file_keeps [OF _ assms(2)])
  moreover have "slash_free (list_files E dir stream)" if "open_dir E dir d = Some stream" for dir d stream
    using slash_free_list that by (fastforce simp: open_dir_def list_files_def slash_free_def)
  ultimately show ?thesis
    using assms by (auto simp: scan_dir_def Let_def split: option.split prod.split)
qed

lemma scan_dirs_keeps:
  assumes "lookup (disk cm) p = Some (File f)" "valid_file X E verify p f" "\<forall>sp \<in> set dirs. proper_dir (snd sp)"
  shows "lookup (disk (snd (scan_dirs X E verify dirs counter cm))) p = Some (File f)"
  using assms(1,3)
proof (induction dirs arbitrary: cm counter)
  case (Cons sp dirs)
  from scan_dir_keeps [OF Cons.prems(1) assms(2), of sp] Cons.prems(2)
  have "lookup (disk (snd (scan_dir X E verify sp cm))) p = Some (File f)" by simp
  with Cons show ?case by (auto split: prod.split)
qed simp

lemma scan_l2_dirs:
  assumes "proper_dir root" "CHR ''/'' \<notin> set l1" "l1 \<noteq> []" "slash_free entries"
    and "fst (scan_l2 E ranges l1 (push_path root l1) entries dirs d) = Inr dirs'" "\<forall>sp \<in> set dirs. proper_dir (snd sp)"
  shows "\<forall>sp \<in> set dirs'. proper_dir (snd sp)"
  using assms(4-6)
proof (induction entries arbitrary: dirs d)
  case (Cons e entries)
  obtain l2 nd where e: "e = (l2, nd)" by (metis surj_pair)
  have sf: "CHR ''/'' \<notin> set l2" "l2 \<noteq> []" "slash_free entries" using Cons.prems(1) e by (auto simp: slash_free_def)
  have "proper_dir (push_path (push_path root l1) l2)"
    using sf by (intro proper_dir_push assms(1-3)) auto
  then have "\<forall>sp \<in> set (dirs @ [(sr, push_path (push_path root l1) l2)]). proper_dir (snd sp)" for sr
    using Cons.prems(3) by simp
  with Cons.IH [OF sf(3)] Cons.prems(2,3) show ?case
    by (simp add: e Let_def split: if_splits option.splits)
qed auto

lemma scan_l1_dirs:
  assumes "proper_dir root" "slash_free entries"
    and "fst (scan_l1 E ranges root entries dirs d) = Inr dirs'" "\<forall>sp \<in> set dirs. proper_dir (snd sp)"
  shows "\<forall>sp \<in> set dirs'. proper_dir (snd sp)"
  using assms(2-4)
proof (induction entries arbitrary: dirs d)
  case (Cons e entries)
  obtain l1 nd where e: "e = (l1, nd)" by (metis surj_pair)
  have sf: "CHR ''/'' \<notin> set l1" "l1 \<noteq> []" "slash_free entries" using Cons.prems(1) e by (auto simp: slash_free_def)
  have "\<forall>sp \<in> set ds. proper_dir (snd sp)"
    if "fs_read_dir E (push_path root l1) d = Some stream" "scan_l2 E ranges l1 (push_path root l1) stream dirs d = (Inr ds, d')" for stream ds d'
    using scan_l2_dirs [OF assms(1) sf(1,2) slash_free_list [OF that(1)] _ Cons.prems(3), of E ranges d ds] that(2) by simp
  with Cons.IH [OF sf(3)] Cons.prems(2,3) show ?case
    by (auto simp: e Let_def split: if_splits option.splits prod.splits sum.splits)
qed auto

lemma scan_cache_keeps:
  assumes "wf_map (disk cm)" "proper_dir (cache_dir cm)" "assigned ranges (cache_dir cm) p"
    and "lookup (disk cm) p = Some (File f)" "valid_file X E verify p f"
  shows "lookup (disk (snd (scan_cache X E ranges verify cm))) p = Some (File f)"
proof (cases "fs_read_dir E (cache_dir cm) (disk cm)")
  case (Some root)
  note sf = slash_free_list [OF Some]
  obtain r d where l1: "scan_l1 E ranges (cache_dir cm) root [] (disk cm) = (r, d)" by (metis surj_pair)
  from scan_l1_keeps [OF assms(1,2) sf assms(3), of E "[]"] l1 assms(4) have d: "lookup d p = Some (File f)" by simp
  show ?thesis
  proof (cases r)
    case (Inr dirs)
    have "\<forall>sp \<in> set dirs. proper_dir (snd sp)"
      using scan_l1_dirs [OF assms(2) sf, of E ranges "[]" "disk cm" dirs] l1 Inr by simp
    from scan_dirs_keeps [of "cm\<lparr>disk := d\<rparr>", OF _ assms(5) this, of 0] d
    show ?thesis by (auto simp: scan_cache_def Some l1 Inr split: prod.split)
  qed (simp add: scan_cache_def Some l1 d)
qed (simp add: scan_cache_def assms)

context external
begin

lemma assigned_to_path:
  assumes "proper_dir cdir" "plain_info info" "\<exists>r \<in> set ranges. eq_ignore_ascii_case (static_range (x_enc X) info) r"
  shows "assigned ranges cdir (to_path (x_enc X) info cdir)"
proof -
  let ?h = "fi_hash info"
  have len: "length ?h = 20" using assms(2) by (simp add: plain_info_def wf_info_def)
  let ?a = "x_enc X (take 1 ?h)" and ?b = "x_enc X (take 1 (drop 1 ?h))"
  have "take 2 ?h = take 1 ?h @ take 1 (drop 1 ?h)" using take_add [of 1 1 ?h] by (simp add: numeral_2_eq_2)
  then have ab: "static_range (x_enc X) info = ?a @ ?b" by (simp add: static_range_def enc_append)
  have nosep: "CHR ''/'' \<notin> set ?a" "CHR ''/'' \<notin> set ?b" by (rule enc_no_sep, simp add: hex_chars_def)+
  have ne: "?a \<noteq> []" using len enc_length [of "take 1 ?h"] by force
  have "range_dir cdir (static_range (x_enc X) info) = cdir @ CHR ''/'' # ?a @ CHR ''/'' # ?b"
    using nosep ne assms(1) proper_dir_push [OF assms(1) nosep(1) ne]
    by (simp add: range_dir_static_range [OF len] push_path_name del: One_nat_def)
  then have "to_path (x_enc X) info cdir = cdir @ ''/'' @ ?a @ ''/'' @ ?b @ ''/'' @ file_name (x_enc X) info"
    using assms(2) by (simp add: to_path_dir plain_info_def del: One_nat_def)
  moreover have "find (\<lambda>sr. eq_ignore_ascii_case (?a @ ?b) sr) ranges \<noteq> None"
    using assms(3) by (auto simp: ab find_None_iff simp del: One_nat_def)
  ultimately show ?thesis using nosep unfolding assigned_def by blast
qed

lemma valid_file_to_path:
  assumes "plain_info info" "length (f_data f) = unat (fi_size info)"
    and "verify \<longrightarrow> x_sha1 X (f_data f) = fi_hash info \<and> \<not> io_fails E OpRead (to_path (x_enc X) info cdir)"
  shows "valid_file X E verify (to_path (x_enc X) info cdir) f"
proof -
  have wf: "wf_info info" using assms(1) by (simp add: plain_info_def)
  then have "basename (to_path (x_enc X) info cdir) = file_name (x_enc X) info"
    by (simp add: to_path_dir file_name_no_slash [OF assms(1)])
  then show ?thesis
    using assms(2,3) by (simp add: valid_file_def file_name_roundtrip [OF wf] stored_info_def)
qed

end

section \<open>Properties\<close>



text \<open>
  A read error during a verifying scan counts as corruption: the hash of the bytes read before the
  error is compared, and the file is deleted although its content may be what its name promises.
\<close>

theorem scan_deletes_on_read_error:
  assumes "lookup (disk cm) (push_path dir n) = Some (File f)" "from_file_id (x_dec X) n = Some info"
    and "length (f_data f) = unat (fi_size info)" "io_fails E OpRead (push_path dir n)"
    and "x_sha1 X (take (read_before_error E (push_path dir n)) (f_data f)) \<noteq> fi_hash info"
    and "\<forall>op \<in> {OpMetadata, OpOpen, OpRemoveFile}. \<not> io_fails E op (push_path dir n)"
  shows "lookup (disk (scan_file X E True dir n cm)) (push_path dir n) = None"
  using assms
  by (simp add: scan_file_def Let_def fs_metadata_def read_for_hash_def try_remove_def fs_remove_file_def)

theorem scan_deletes_on_read_error_witness:
  "let info = sample_info\<lparr>fi_hash := checksum [1, 2, 3], fi_size := 3\<rparr>; n = file_name hex_encode info;
       cm = sample_manager [(push_path ''d'' n, File \<lparr>f_data = [1, 2, 3], f_mtime = 1\<rparr>)] [];
       E = sample_env\<lparr>io_fails := (\<lambda>op p. op = OpRead)\<rparr>
   in x_sha1 sample_ext [1, 2, 3] = fi_hash info \<and>
      lookup (disk (scan_file sample_ext E True ''d'' n cm)) (push_path ''d'' n) = None"
proof -
  let ?i = "sample_info\<lparr>fi_hash := checksum [1, 2, 3], fi_size := 3\<rparr>" and ?f = "\<lparr>f_data = [1, 2, 3], f_mtime = 1\<rparr>"
  let ?n = "file_name hex_encode ?i"
  let ?E = "sample_env\<lparr>io_fails := (\<lambda>op p. op = OpRead)\<rparr>"
  let ?cm = "sample_manager [(push_path ''d'' ?n, File ?f)] []"
  have "wf_info ?i" by (simp add: wf_info_def sample_info_def checksum_def Let_def proper_type_def file_type_from_def)
  then have id: "from_file_id (x_dec sample_ext) ?n = Some (stored_info ?i)" by (simp add: hx.file_name_roundtrip)
  have l: "lookup (disk ?cm) (push_path ''d'' ?n) = Some (File ?f)" by (simp add: sample_manager_def)
  have "checksum [] \<noteq> checksum [1, 2, 3]" by (simp add: checksum_def Let_def)
  then have "lookup (disk (scan_file sample_ext ?E True ''d'' ?n ?cm)) (push_path ''d'' ?n) = None"
    by (intro scan_deletes_on_read_error [OF l id])
      (simp_all add: stored_info_def sample_info_def sample_env_def)
  then show ?thesis by (simp add: Let_def)
qed

text \<open>The gauges show the per-range states, which are those of assigned ranges.\<close>

definition gauges_match :: "string list \<Rightarrow> cache_manager \<Rightarrow> bool" where
  "gauges_match ranges cm \<longleftrightarrow>
     wf_map (cache_map cm) \<and> fst ` set (cache_map cm) \<subseteq> set ranges \<and>
     m_cache_size cm = total_size cm \<and> m_cache_count cm = total_count cm \<and> m_static_range cm = int (length (cache_map cm))"

lemma total_count_sum: "total_count cm = sum_list (map (\<lambda>(_, s). file_count s) (cache_map cm))"
proof -
  have "fold (\<lambda>(_, s) acc. acc + file_count s) m a = a + sum_list (map (\<lambda>(_, s). file_count s) m)"
    for m :: "(string, cache_state) hashmap" and a
    by (induction m arbitrary: a) (auto simp: add.assoc)
  then show ?thesis by (simp add: total_count_def)
qed

lemma insert_map_new: "lookup m k = None \<Longrightarrow> insert_map k v m = m @ [(k, v)]"
  by (induction m) (auto split: if_splits)

lemma load_state_gauges:
  assumes "wf_map old" "gauges_match ranges cm" "\<forall>k \<in> fst ` set old. lookup (cache_map cm) k = None"
  shows "gauges_match ranges (load_state ranges old cm)"
  using assms
proof (induction old arbitrary: cm)
  case (Cons e old)
  obtain sr s where e: "e = (sr, s)" by (metis surj_pair)
  let ?cm = "cm\<lparr>m_static_range := m_static_range cm + 1, m_cache_count := m_cache_count cm + file_count s,
      m_cache_size := m_cache_size cm + state_size s, cache_map := insert_map sr s (cache_map cm)\<rparr>"
  have new: "lookup (cache_map cm) sr = None" and fresh: "sr \<notin> fst ` set old" and wf: "wf_map old"
    using Cons.prems(1,3) e by (auto simp: wf_map_def)
  have "gauges_match ranges ?cm" if "sr \<in> set ranges"
  proof -
    have "wf_map (insert_map sr s (cache_map cm))" using Cons.prems(2) by (simp add: gauges_match_def)
    with that Cons.prems(2) show ?thesis
      by (simp add: gauges_match_def total_size_sum total_count_sum insert_map_new [OF new])
  qed
  moreover have "\<forall>k \<in> fst ` set old. lookup (insert_map sr s (cache_map cm)) k = None" "\<forall>k \<in> fst ` set old. lookup (cache_map cm) k = None"
    using Cons.prems(3) fresh e by auto
  ultimately show ?case
    using Cons.IH [OF wf, of ?cm] Cons.IH [OF wf, of cm] Cons.prems(2) e by simp
qed simp

text \<open>
  When the manager has loaded its saved state, only assigned ranges are in it and the gauges for
  size, file count and static ranges are the totals over them.
\<close>

theorem loaded_state_gauges:
  assumes "\<forall>s. saved = Some s \<longrightarrow> wf_map s"
  shows "gauges_match (is_static_range init) (cm_load E data_dir cdir tdir limit init saved d)"
proof -
  have empty: "gauges_match ranges cm" if "cache_map cm = []" "m_cache_size cm = 0" "m_cache_count cm = 0" "m_static_range cm = 0"
    for cm ranges using that by (simp add: gauges_match_def total_size_def total_count_def)
  show ?thesis
    using assms unfolding cm_load_def Let_def read_state_def
    by (auto simp: cm_update_settings_def intro!: load_state_gauges empty split: option.split)
qed

theorem loaded_state_gauges_witness:
  "gauges_match [''00ff''] (cm_load sample_env ''d'' ''c'' ''t'' 9 \<lparr>verify_cache = False, is_static_range = [''00ff'']\<rparr>
     (Some [(''1234'', \<lparr>file_count = 1, state_size = 10, oldest = 0\<rparr>), (''00ff'', \<lparr>file_count = 2, state_size = 7, oldest = 0\<rparr>)]) [])"
  using loaded_state_gauges [of "Some [(''1234'', \<lparr>file_count = 1, state_size = 10, oldest = 0\<rparr>), (''00ff'', \<lparr>file_count = 2, state_size = 7, oldest = 0\<rparr>)]"
      "\<lparr>verify_cache = False, is_static_range = [''00ff'']\<rparr>"]
  by (simp add: wf_map_def)

end
