(* ===== verification/Client.thy ===== *)
theory Client
  imports Server Middleware LogFiles GalleryRun CacheScan
begin

text \<open>
  \<^verbatim>\<open>src/main.rs\<close>: the command line, the login file, the configuration of the logger at start-up, the
  command loop, the keep-alive task and the shutdown.  The other components are called as they are
  modelled in their own theories.
\<close>

section \<open>Args\<close>

record args =
  ar_port :: "u16 option"
  ar_host :: "ip_addr option"
  ar_cache_dir :: path
  ar_data_dir :: path
  ar_download_dir :: path
  ar_log_dir :: path
  ar_temp_dir :: path
  ar_disable_logging :: bool
  ar_flush_log :: bool
  ar_max_connection :: u64
  ar_disable_ip_origin_check :: bool
  ar_disable_flood_control :: bool
  ar_proxy :: "string option"
  ar_force_background_scan :: bool
  ar_quiet :: u8
  ar_rpc_server_ip :: "string option"
  ar_enable_metrics :: bool
  ar_sni_strict :: bool
  ar_disable_server_header :: bool
  ar_enable_h3 :: bool

definition flood_enabled :: "args \<Rightarrow> bool" where
  "flood_enabled a \<longleftrightarrow> \<not> (ar_disable_flood_control a \<or> ar_disable_ip_origin_check a)"

definition listen_port :: "args \<Rightarrow> rpc_init_settings \<Rightarrow> u16" where
  "listen_port a s = (case ar_port a of Some p \<Rightarrow> p | None \<Rightarrow> client_port s)"

section \<open>The login file\<close>

datatype credential_error = ExistsFailed | ReadFailed | WriteFailed

definition as_string :: "bytes \<Rightarrow> string" where
  "as_string b = map (\<lambda>x. char_of (unat x)) b"

text \<open>\<^verbatim>\<open>read_credential\<close>: the first line of \<^verbatim>\<open>client_login\<close>; \<open>utf8\<close> says whether a line is valid text.\<close>

definition read_credential :: "(string \<Rightarrow> bool) \<Rightarrow> io_env \<Rightarrow> path \<Rightarrow> disk \<Rightarrow> credential_error + (int \<times> string) option" where
  "read_credential utf8 E data_path d =
     (let path = push_path data_path ''client_login'' in
      if io_fails E OpMetadata path then Inl ExistsFailed
      else (case lookup d path of
              None \<Rightarrow> Inr None
            | Some Dir \<Rightarrow> Inl ReadFailed
            | Some (File f) \<Rightarrow>
                if io_fails E OpOpen path \<or> io_fails E OpRead path then Inl ReadFailed
                else (case lines (as_string (f_data f)) of
                        [] \<Rightarrow> Inr None
                      | data # _ \<Rightarrow>
                          if \<not> utf8 data then Inl ReadFailed
                          else (case split_on (CHR ''-'') data of
                                  i # key # _ \<Rightarrow> Inr (map_option (\<lambda>n. (n, key)) (parse_sint 32 i))
                                | _ \<Rightarrow> Inr None))))"

definition valid_key :: "string \<Rightarrow> bool" where
  "valid_key key \<longleftrightarrow> length key = 20 \<and>
     list_all (\<lambda>c. let n = (of_char c :: nat) in (97 \<le> n \<and> n \<le> 122) \<or> (65 \<le> n \<and> n \<le> 90) \<or> (48 \<le> n \<and> n \<le> 57)) key"

text \<open>\<^verbatim>\<open>setup\<close>, with what the user enters; the prompts only let an \<^verbatim>\<open>i32\<close> and a valid key through.\<close>

definition setup_client :: "io_env \<Rightarrow> path \<Rightarrow> int \<Rightarrow> string \<Rightarrow> disk \<Rightarrow> (credential_error + int \<times> string) \<times> disk" where
  "setup_client E data_path ident key d =
     (let path = push_path data_path ''client_login'' in
      if io_fails E OpCreate path \<or> io_fails E OpWrite path \<or> lookup d (parent path) \<noteq> Some Dir \<or> lookup d path = Some Dir
      then (Inl WriteFailed, d)
      else (Inr (ident, key), insert_map path (File \<lparr>f_data = as_bytes (show_int ident @ ''-'' @ key), f_mtime = clock E\<rparr>) d))"

section \<open>Logging\<close>

text \<open>The configuration of the logger after \<^verbatim>\<open>main\<close> has parsed the arguments, and after the login.\<close>

definition logging_from_args :: "args \<Rightarrow> logger_config" where
  "logging_from_args a = default_config\<lparr>write_info := \<not> ar_disable_logging a, flush_each := ar_flush_log a, console_level := ar_quiet a\<rparr>"

definition logging_after_login :: "args \<Rightarrow> settings \<Rightarrow> logger_config" where
  "logging_after_login a s = (logging_from_args a)\<lparr>write_info := \<not> set_disable_logging s\<rparr>"

section \<open>Purging\<close>

text \<open>The files of a purge list that can be parsed are removed, in order.\<close>

definition purge :: "extern \<Rightarrow> io_env \<Rightarrow> string list option \<Rightarrow> cache_manager \<Rightarrow> cache_manager" where
  "purge X E l cm =
     (case l of
        None \<Rightarrow> cm
      | Some ids \<Rightarrow> fold (\<lambda>info cm. snd (remove_cache X E info cm)) (List.map_filter (from_file_id (x_dec X)) ids) cm)"

section \<open>The command loop\<close>

text \<open>The slot of the gallery downloader holds a handle from the start of a run until the run ends and
  clears it; a run that panics or is aborted does not clear it.\<close>

datatype downloader = NoDownloader | DownloaderRunning | DownloaderDead

record 'k client_state =
  cl_rpc :: rpc_state
  cl_cm :: cache_manager
  cl_logging :: logger_config
  cl_downloader :: downloader
  cl_started :: nat
  cl_last_overload :: int
  cl_overloads :: "int list"
  cl_certs :: "'k cert_store"
  cl_reloads :: "int list"

text \<open>What the command loop calls besides: the PKCS12 parser, the certificate check and the server a random
  choice falls on.\<close>

record 'k client_ext =
  xc_parse :: "bytes \<Rightarrow> pfx option"
  xc_certify :: "parsed_cert \<Rightarrow> 'k option"
  xc_pick :: nat

definition get_cert :: "('a) rpc_ext_scheme \<Rightarrow> (bytes \<Rightarrow> pfx option) \<Rightarrow> rpc_state \<Rightarrow> parsed_cert option \<times> rpc_state" where
  "get_cert X parse st =
     (case send_request X ''get_cert'' [] None st of
        (e, st) \<Rightarrow>
          (case ex_reply e of
             Inl _ \<Rightarrow> (None, st)
           | Inr body \<Rightarrow> (from_p12 parse (as_bytes body) (client_key (rs_client st)), st)))"

text \<open>A failed reload is tried again by a timer ten seconds later.\<close>

definition reload_cert :: "('a) rpc_ext_scheme \<Rightarrow> 'k client_ext \<Rightarrow> int \<Rightarrow> 'k client_state \<Rightarrow> 'k client_state" where
  "reload_cert X C now st =
     (case get_cert X (xc_parse C) (cl_rpc st) of
        (cert, rpc) \<Rightarrow>
          let st = st\<lparr>cl_rpc := rpc\<rparr>; retry = st\<lparr>cl_reloads := cl_reloads st @ [now + 10000000000]\<rparr> in
          (case cert of
             None \<Rightarrow> retry
           | Some cert \<Rightarrow>
               (case cert_update (xc_certify C) cert (cl_certs st) of
                  (True, s) \<Rightarrow> st\<lparr>cl_certs := s\<rparr>
                | (False, s) \<Rightarrow> retry)))"

definition handle_command :: "('a) rpc_ext_scheme \<Rightarrow> 'k client_ext \<Rightarrow> args \<Rightarrow> int \<Rightarrow> command \<Rightarrow> 'k client_state \<Rightarrow> 'k client_state" where
  "handle_command X C a now c st =
     (case c of
        ReloadCert \<Rightarrow> reload_cert X C now st
      | RefreshSettings \<Rightarrow>
          let rpc = refresh_settings X (xc_pick C) (cl_rpc st); s = rpc_settings (rs_client rpc) in
          st\<lparr>cl_rpc := rpc, cl_cm := cm_update_settings (set_size_limit s) (cl_cm st),
             cl_logging := (if ar_disable_logging a then cl_logging st else (cl_logging st)\<lparr>write_info := \<not> set_disable_logging s\<rparr>)\<rparr>
      | StartDownloader \<Rightarrow>
          if cl_downloader st = NoDownloader then st\<lparr>cl_downloader := DownloaderRunning, cl_started := cl_started st + 1\<rparr> else st
      | Overload \<Rightarrow>
          if now - cl_last_overload st > 30000000000
          then st\<lparr>cl_last_overload := now, cl_rpc := notify_overload X (cl_rpc st), cl_overloads := cl_overloads st @ [now]\<rparr>
          else st)"

datatype client_event = Command command | DownloaderDone | DownloaderPanic

definition client_step :: "('a) rpc_ext_scheme \<Rightarrow> 'k client_ext \<Rightarrow> args \<Rightarrow> int \<times> client_event \<Rightarrow> 'k client_state \<Rightarrow> 'k client_state" where
  "client_step X C a ev st =
     (case ev of (now, e) \<Rightarrow>
      (case e of
         Command c \<Rightarrow> handle_command X C a now c st
       | DownloaderDone \<Rightarrow> if cl_downloader st = DownloaderRunning then st\<lparr>cl_downloader := NoDownloader\<rparr> else st
       | DownloaderPanic \<Rightarrow> if cl_downloader st = DownloaderRunning then st\<lparr>cl_downloader := DownloaderDead\<rparr> else st))"

section \<open>Keep-alive\<close>

record keepalive =
  ka_counter :: u32
  ka_rpc :: rpc_state
  ka_cm :: cache_manager
  ka_stopped :: bool
  ka_shutdowns :: nat

definition alive_due :: "u32 \<Rightarrow> bool" where
  "alive_due n \<longleftrightarrow> n mod 11 = 0"

definition purge_due :: "u32 \<Rightarrow> bool" where
  "purge_due n \<longleftrightarrow> n mod 2160 = 2159"

definition keepalive_tick :: "('a) rpc_ext_scheme \<Rightarrow> extern \<Rightarrow> io_env \<Rightarrow> keepalive \<Rightarrow> keepalive" where
  "keepalive_tick X X' E st =
     (if ka_stopped st then st
      else if \<not> running (rs_client (ka_rpc st)) then st\<lparr>ka_stopped := True\<rparr>
      else
        let st = (if alive_due (ka_counter st)
                  then (case still_alive X False (ka_rpc st) of
                          (ok, rpc) \<Rightarrow> st\<lparr>ka_rpc := rpc, ka_shutdowns := (if ok then ka_shutdowns st else ka_shutdowns st + 1)\<rparr>)
                  else st);
            st = (if purge_due (ka_counter st)
                  then (case get_purgelist X 43200 (ka_rpc st) of (l, rpc) \<Rightarrow> st\<lparr>ka_rpc := rpc, ka_cm := purge X' E l (ka_cm st)\<rparr>)
                  else st)
        in st\<lparr>ka_counter := ka_counter st + 1\<rparr>)"

section \<open>Start-up and shutdown\<close>

datatype start_error = LoginFailed error bool | ConnectTestFailed

text \<open>A failed login ends the program, after 15 minutes when the server reports a restart loop.\<close>

definition start_login :: "('a) rpc_ext_scheme \<Rightarrow> nat \<Rightarrow> rpc_state \<Rightarrow> (start_error + rpc_init_settings) \<times> rpc_state" where
  "start_login X pick st =
     (case login X pick st of
        (Inr init, st) \<Rightarrow> (Inr init, st)
      | (Inl err, st) \<Rightarrow>
          (Inl (LoginFailed err (case err of ApiResponseFail code _ \<Rightarrow> starts_with code ''FAIL_STARTUP_LOOP'' | _ \<Rightarrow> False)), st))"

text \<open>The last steps before normal operation, with the cache manager that was set up in between.\<close>

definition announce :: "('a) rpc_ext_scheme \<Rightarrow> nat \<Rightarrow> extern \<Rightarrow> io_env \<Rightarrow> rpc_state \<Rightarrow> cache_manager
    \<Rightarrow> start_error + rpc_state \<times> cache_manager" where
  "announce X pick X' E st cm =
     (case connect_check X st of
        (None, st) \<Rightarrow> Inl ConnectTestFailed
      | (Some _, st) \<Rightarrow>
          (case get_purgelist X 259200 (refresh_settings X pick st) of (l, st) \<Rightarrow> Inr (st, purge X' E l cm)))"

text \<open>The end of \<^verbatim>\<open>main\<close>: the server is told first, the state of the cache is saved and the logger drained
  last.\<close>

definition stop_client :: "('a) rpc_ext_scheme \<Rightarrow> 'k client_state \<Rightarrow> 'k client_state" where
  "stop_client X st =
     st\<lparr>cl_rpc := rpc_shutdown X (cl_rpc st),
        cl_downloader := (if cl_downloader st = DownloaderRunning then DownloaderDead else cl_downloader st)\<rparr>"

definition shutdown_client :: "('a) rpc_ext_scheme \<Rightarrow> io_env \<Rightarrow> 'k client_state \<Rightarrow> accept_state \<Rightarrow> log_worker
    \<Rightarrow> 'k client_state \<times> accept_state \<times> log_worker" where
  "shutdown_client X E st server lg =
     (let st = stop_client X st in
      (st\<lparr>cl_cm := save_state E (cl_cm st)\<rparr>,
       fold accept_step [StoreFlag, NotifyWaiters] server, log_step log_event.Shutdown lg))"

section \<open>Properties\<close>

subsection \<open>The login file\<close>

lemma as_string_bytes [simp]: "as_string (as_bytes s) = s"
proof -
  have "char_of (unat (word_of_nat (of_char c) :: u8)) = c" for c
    by (simp add: unat_of_nat take_bit_eq_mod)
  then show ?thesis by (induction s) (simp_all add: as_string_def as_bytes_def)
qed

lemma valid_key_chars: "valid_key key \<Longrightarrow> c \<notin> set key" if "c \<in> {CHR ''-'', LF, CR}" for c
  using that by (auto simp: valid_key_def list_all_iff Let_def)

text \<open>
  C36.  What the set-up stored is read back: after a successful set-up with a non-negative id and a
  valid key, the next start finds exactly this login.
\<close>

theorem credentials_roundtrip:
  assumes "setup_client E data_path ident key d = (Inr v, d')" "0 \<le> ident" "ident < 2 ^ 31" "valid_key key"
    and "\<not> io_fails E' OpMetadata (push_path data_path ''client_login'')" "\<not> io_fails E' OpOpen (push_path data_path ''client_login'')"
    and "\<not> io_fails E' OpRead (push_path data_path ''client_login'')" "utf8 (show_int ident @ ''-'' @ key)"
  shows "read_credential utf8 E' data_path d' = Inr (Some (ident, key))"
proof -
  let ?l = "show_int ident @ ''-'' @ key"
  have sh: "show_int ident = show_nat (nat ident)" using assms(2) by (simp add: show_int_def)
  have no: "c \<notin> set (show_int ident)" if "c \<in> {CHR ''-'', LF, CR}" for c
    using that digits_no_sep [of c "nat ident"] unfolding sh by (auto simp: is_digit_def digit_val_def)
  have key: "c \<notin> set key" if "c \<in> {CHR ''-'', LF, CR}" for c using valid_key_chars [OF that assms(4)] .
  have "is_line ?l" using no [of LF] no [of CR] key [of LF] key [of CR] by (simp add: is_line_def)
  then have l: "lines ?l = [?l]" by (simp add: lines_single)
  have "split_on (CHR ''-'') ?l = [show_int ident, key]"
    using no [of "CHR ''-''"] key [of "CHR ''-''"] split_on_append_sep [of "CHR ''-''" "show_int ident" key] by (simp add: split_on_no_sep)
  moreover have "parse_sint 32 (show_int ident) = Some ident" using assms(2,3) by (simp add: parse_sint_show)
  ultimately show ?thesis
    using assms l by (auto simp: setup_client_def read_credential_def Let_def split: if_splits)
qed

definition sample_key :: string where
  "sample_key = replicate 20 (CHR ''k'')"

theorem credentials_roundtrip_witness:
  "read_credential (\<lambda>_. True) sample_env ''data'' (snd (setup_client sample_env ''data'' 42 sample_key [(''data'', Dir)])) = Inr (Some (42, sample_key))"
proof -
  let ?r = "setup_client sample_env ''data'' 42 sample_key [(''data'', Dir)]"
  have p: "push_path ''data'' ''client_login'' = ''data/client_login''" by (simp add: push_path_def)
  have "parent ''data/client_login'' = ''data''" by code_simp
  then have "?r = (Inr (42, sample_key), snd ?r)" by (simp add: setup_client_def p Let_def)
  moreover have "valid_key sample_key" by (simp add: valid_key_def sample_key_def list_all_iff)
  ultimately show ?thesis by (intro credentials_roundtrip) simp_all
qed

text \<open>The prompt accepts a negative id, but the file it produces is not read back.\<close>

lemma negative_id_not_read_back:
  assumes "setup_client E data_path ident key d = (Inr v, d')" "ident < 0" "valid_key key" "\<And>s. utf8 s" "io_ok E'"
  shows "read_credential utf8 E' data_path d' = Inr None"
proof -
  let ?n = "show_nat (nat (- ident))"
  let ?l = "''-'' @ ?n @ ''-'' @ key"
  have sh: "show_int ident @ ''-'' @ key = ?l" using assms(2) by (simp add: show_int_def)
  have no: "c \<notin> set ?n" if "c \<in> {CHR ''-'', LF, CR}" for c
    using that digits_no_sep [of c "nat (- ident)"] by (auto simp: is_digit_def digit_val_def)
  have key: "c \<notin> set key" if "c \<in> {CHR ''-'', LF, CR}" for c using valid_key_chars [OF that assms(3)] .
  have "is_line ?l" using no [of LF] no [of CR] key [of LF] key [of CR] by (simp add: is_line_def)
  then have l: "lines ?l = [?l]" by (simp add: lines_single)
  have "split_on (CHR ''-'') (?n @ CHR ''-'' # key) = [?n, key]"
    using no [of "CHR ''-''"] key [of "CHR ''-''"] by (simp add: split_on_append_sep split_on_no_sep)
  then have "split_on (CHR ''-'') ?l = [[], ?n, key]" by simp
  moreover have "parse_sint 32 [] = None" by (simp add: parse_eval)
  ultimately show ?thesis
    using assms l sh by (auto simp: setup_client_def read_credential_def Let_def io_ok_def split: if_splits)
qed

subsection \<open>Commands\<close>

fun spaced :: "int list \<Rightarrow> bool" where
  "spaced (a # b # ts) \<longleftrightarrow> a + 30000000000 < b \<and> spaced (b # ts)"
| "spaced _ \<longleftrightarrow> True"

lemma spaced_snoc: "spaced ts \<Longrightarrow> ts = [] \<or> last ts + 30000000000 < t \<Longrightarrow> spaced (ts @ [t])"
  by (induction ts rule: spaced.induct) auto

definition overloads_ok :: "'k client_state \<Rightarrow> bool" where
  "overloads_ok st \<longleftrightarrow> spaced (cl_overloads st) \<and> (cl_overloads st = [] \<or> last (cl_overloads st) = cl_last_overload st)"

lemma reload_cert_frame:
  "cl_overloads (reload_cert X C now st) = cl_overloads st" "cl_last_overload (reload_cert X C now st) = cl_last_overload st"
  "cl_downloader (reload_cert X C now st) = cl_downloader st" "cl_started (reload_cert X C now st) = cl_started st"
  "cl_logging (reload_cert X C now st) = cl_logging st"
  by (auto simp: reload_cert_def Let_def split: prod.split option.split bool.split)

lemma overloads_ok_step: "overloads_ok st \<Longrightarrow> overloads_ok (client_step X C a ev st)"
  by (cases ev; cases "snd ev")
    (auto simp: client_step_def handle_command_def overloads_ok_def reload_cert_frame Let_def intro!: spaced_snoc split: command.split)

text \<open>
  The coordinating server is not flooded with overload reports: whatever commands arrive and
  whenever they arrive, two reports are more than 30 seconds apart.
\<close>

theorem overload_reports_spaced:
  assumes "cl_overloads st = []"
  shows "spaced (cl_overloads (fold (client_step X C a) evs st))"
proof -
  have "overloads_ok st \<Longrightarrow> overloads_ok (fold (client_step X C a) evs st)" for st
    by (induction evs arbitrary: st) (auto intro: overloads_ok_step)
  moreover have "overloads_ok st" using assms by (simp add: overloads_ok_def)
  ultimately show ?thesis by (simp add: overloads_ok_def)
qed

lemma started_after_panic:
  "cl_downloader st = DownloaderDead \<Longrightarrow>
   cl_downloader (client_step X C a ev st) = DownloaderDead \<and> cl_started (client_step X C a ev st) = cl_started st"
  by (cases ev; cases "snd ev") (auto simp: client_step_def handle_command_def reload_cert_frame Let_def split: command.split)

text \<open>
  A panic disables the gallery downloader for good: once a run has panicked, on metadata with a
  short line, say, no later command starts another one.
\<close>

theorem panicked_downloader_never_restarts:
  assumes "cl_downloader st = DownloaderDead"
  shows "cl_started (fold (client_step X C a) evs st) = cl_started st"
  using assms by (induction evs arbitrary: st) (simp_all add: started_after_panic)

lemma short_line_panics:
  "parser X key ((''GID'') # raw) = Inl IndexPanic"
  by (simp add: parser_def parser_init_def parse_meta_line_def bind_res_def field_def numeral_2_eq_2)

subsection \<open>Logging\<close>

lemma logging_kept_when_disabled: "ar_disable_logging a \<Longrightarrow> cl_logging (client_step X C a ev st) = cl_logging st"
  by (cases ev; cases "snd ev") (auto simp: client_step_def handle_command_def reload_cert_frame Let_def split: command.split)

text \<open>
  The option to disable logging does not survive the login: unless the server asks for it too, the
  log of the client is written although \<^verbatim>\<open>--disable-logging\<close> was given, and no command changes that.
\<close>

theorem disable_logging_overridden:
  assumes "ar_disable_logging a" "\<not> set_disable_logging s" "cl_logging st = logging_after_login a s"
  shows "\<not> write_info (logging_from_args a) \<and> write_info (cl_logging (fold (client_step X C a) evs st))"
proof -
  have "cl_logging (fold (client_step X C a) evs st) = cl_logging st"
    using assms(1) by (induction evs arbitrary: st) (simp_all add: logging_kept_when_disabled)
  with assms show ?thesis by (simp add: logging_after_login_def logging_from_args_def)
qed

subsection \<open>Keep-alive\<close>

text \<open>At least every eleventh tick checks that the server still knows the client, also where the 32-bit
  counter wraps around.\<close>

lemma alive_check_due: "\<exists>k < 11. alive_due (n + of_nat k)"
proof -
  have m: "unat (m mod 11 :: u32) = unat m mod 11" for m :: u32 by (simp add: unat_mod)
  show ?thesis
  proof (cases "unat n + 11 \<le> 2 ^ 32")
    case True
    define r where "r = unat n mod 11"
    define k where "k = (if r = 0 then 0 else 11 - r)"
    have r: "r < 11" "unat n = 11 * (unat n div 11) + r" by (simp_all add: r_def)
    then have "unat n + k = 11 * (unat n div 11 + (if r = 0 then 0 else 1))"
    proof (cases "r = 0")
      case False
      with r have "unat n + (11 - r) = 11 * (unat n div 11) + 11" by linarith
      with False show ?thesis by (simp add: k_def)
    qed (simp add: k_def)
    then have k: "k < 11" "(unat n + k) mod 11 = 0" using r(1) by (simp_all add: k_def)
    then have "unat (n + of_nat k) = unat n + k" using True by (simp add: unat_word_ariths unat_of_nat)
    then have "unat ((n + of_nat k) mod 11) = 0" using k(2) by (simp add: m)
    then have "(n + of_nat k) mod 11 = 0" by (simp only: unat_eq_0)
    then have "k < 11 \<and> alive_due (n + of_nat k)" using k(1) by (simp only: alive_due_def)
    then show ?thesis ..
  next
    case False
    define k where "k = 2 ^ 32 - unat n"
    have "unat n < 2 ^ 32" using unsigned_less [of n] by simp
    then have k: "k < 11" "k + unat n = 2 ^ 32" using False by (auto simp: k_def)
    have "n + of_nat k = of_nat (unat n + k)" by simp
    also have "\<dots> = (of_nat (2 ^ 32) :: u32)" using k(2) by (simp add: add.commute)
    also have "\<dots> = 0" by simp
    finally show ?thesis using k(1) by (auto simp: alive_due_def)
  qed
qed

text \<open>Two purges are 2160 ticks of ten seconds apart: six hours.\<close>

lemma purge_every_six_hours:
  assumes "unat n + 2160 < 2 ^ 32" "purge_due n" "0 < k" "k \<le> 2160"
  shows "purge_due (n + of_nat k) \<longleftrightarrow> k * 10 = 6 * (60 * 60)"
proof -
  have m: "purge_due m \<longleftrightarrow> unat m mod 2160 = 2159" for m :: u32
  proof -
    have "unat (m mod 2160) = unat m mod 2160" by (simp add: unat_mod)
    moreover have "unat (2159 :: u32) = 2159" by simp
    ultimately show ?thesis unfolding purge_due_def by (metis word_unat_eq_iff)
  qed
  have "unat (n + of_nat k) = unat n + k" using assms by (simp add: unat_word_ariths unat_of_nat)
  moreover obtain q where "unat n = 2160 * q + 2159" using assms(2) by (metis m mult_div_mod_eq)
  ultimately have "unat (n + of_nat k) = 2160 * (q + 1) + (k - 1)" using assms(3) by simp
  then have "unat (n + of_nat k) mod 2160 = (k - 1) mod 2160" by (simp only: mod_mult_self4)
  with assms(3,4) m show ?thesis by auto
qed

text \<open>Purging keeps the books of the cache.\<close>

lemma purge_keeps_books:
  assumes "external X" "accounted X (real_size E) cm"
    and "\<forall>ids. l = Some ids \<longrightarrow> list_all plain_info (List.map_filter (from_file_id (x_dec X)) ids)"
  shows "accounted X (real_size E) (purge X E l cm)"
proof (cases l)
  case (Some ids)
  have "list_all plain_info is \<Longrightarrow> accounted X (real_size E) cm \<Longrightarrow>
      accounted X (real_size E) (fold (\<lambda>info cm. snd (remove_cache X E info cm)) is cm)" for "is"
    by (induction "is" arbitrary: cm) (auto intro: external.accounted_remove_cache [OF assms(1)])
  with Some assms show ?thesis by (simp add: purge_def)
qed (simp add: purge_def assms)

subsection \<open>Witnesses\<close>

definition sample_client :: "unit client_state" where
  "sample_client = \<lparr>cl_rpc = idle_rpc, cl_cm = sample_manager [] [], cl_logging = default_config, cl_downloader = NoDownloader,
     cl_started = 0, cl_last_overload = -31000000000, cl_overloads = [], cl_certs = \<lparr>cs_cert = (), cs_strict = False\<rparr>, cl_reloads = []\<rparr>"

definition sample_cert_ext :: "unit client_ext" where
  "sample_cert_ext = \<lparr>xc_parse = (\<lambda>_. None), xc_certify = (\<lambda>_. None), xc_pick = 0\<rparr>"

definition sample_args :: args where
  "sample_args = \<lparr>ar_port = None, ar_host = None, ar_cache_dir = ''cache'', ar_data_dir = ''data'', ar_download_dir = ''download'',
     ar_log_dir = ''log'', ar_temp_dir = ''tmp'', ar_disable_logging = True, ar_flush_log = False, ar_max_connection = 0,
     ar_disable_ip_origin_check = False, ar_disable_flood_control = False, ar_proxy = None, ar_force_background_scan = False,
     ar_quiet = 0, ar_rpc_server_ip = None, ar_enable_metrics = False, ar_sni_strict = False, ar_disable_server_header = False,
     ar_enable_h3 = False\<rparr>"

theorem overload_reports_spaced_witness:
  "spaced (cl_overloads (fold (client_step sample_rpc_ext sample_cert_ext sample_args)
     [(0, Command Overload), (5000000000, Command Overload), (40000000000, Command Overload)] sample_client))"
  by (rule overload_reports_spaced) (simp add: sample_client_def)

theorem panicked_downloader_never_restarts_witness:
  "cl_started (fold (client_step sample_rpc_ext sample_cert_ext sample_args) [(9, Command StartDownloader), (10, Command StartDownloader)]
     (fold (client_step sample_rpc_ext sample_cert_ext sample_args) [(1, Command StartDownloader), (2, DownloaderPanic)] sample_client)) = 1"
proof -
  let ?st = "fold (client_step sample_rpc_ext sample_cert_ext sample_args) [(1, Command StartDownloader), (2, DownloaderPanic)] sample_client"
  have "cl_downloader ?st = DownloaderDead" "cl_started ?st = 1"
    by (simp_all add: client_step_def handle_command_def sample_client_def)
  with panicked_downloader_never_restarts [of ?st sample_rpc_ext sample_cert_ext sample_args "[(9, Command StartDownloader), (10, Command StartDownloader)]"]
  show ?thesis by (simp only:)
qed

theorem disable_logging_overridden_witness:
  "write_info (cl_logging (fold (client_step sample_rpc_ext sample_cert_ext sample_args) [(1, Command RefreshSettings)]
     (sample_client\<lparr>cl_logging := logging_after_login sample_args (rpc_settings (rs_client idle_rpc))\<rparr>)))"
proof -
  have "ar_disable_logging sample_args" "\<not> set_disable_logging (rpc_settings (rs_client idle_rpc))"
    by (simp_all add: sample_args_def idle_rpc_def rpc_new_def)
  from disable_logging_overridden [OF this, where st = "sample_client\<lparr>cl_logging := logging_after_login sample_args (rpc_settings (rs_client idle_rpc))\<rparr>"
      and X = sample_rpc_ext and C = sample_cert_ext and evs = "[(1, Command RefreshSettings)]"]
  show ?thesis by (auto simp del: fold_simps)
qed

end
