(* ===== verification/Connections.thy ===== *)
theory Connections
  imports Client
begin

text \<open>
  \<^verbatim>\<open>src/server/mod.rs\<close>: the options and the start of the server, the life of a TCP connection and of a request
  over HTTP/3 under their timeouts, and the end of the accept loops.  Times are milliseconds.  Shown: how
  long connections last, that a shutdown returns in time and waits for the connections that are past their
  handshake, and when HTTP/3 is advertised.
\<close>

section \<open>ServerOptions and Server::new\<close>

record server_options =
  so_port :: u16
  so_host :: ip_addr
  so_cert :: parsed_cert
  so_flood_control :: bool
  so_enable_metrics :: bool
  so_sni_strict :: bool
  so_server_header :: bool
  so_h3 :: bool

definition server_options_new :: "u16 \<Rightarrow> ip_addr \<Rightarrow> parsed_cert \<Rightarrow> server_options" where
  "server_options_new port host cert =
     \<lparr>so_port = port, so_host = host, so_cert = cert, so_flood_control = True, so_enable_metrics = False, so_sni_strict = False,
      so_server_header = True, so_h3 = False\<rparr>"

definition set_flood_control :: "bool \<Rightarrow> server_options \<Rightarrow> server_options" where
  "set_flood_control enabled so = so\<lparr>so_flood_control := enabled\<rparr>"

definition set_metrics :: "bool \<Rightarrow> server_options \<Rightarrow> server_options" where
  "set_metrics enabled so = so\<lparr>so_enable_metrics := enabled\<rparr>"

definition set_sni_strict :: "bool \<Rightarrow> server_options \<Rightarrow> server_options" where
  "set_sni_strict enabled so = so\<lparr>so_sni_strict := enabled\<rparr>"

definition set_server_header :: "bool \<Rightarrow> server_options \<Rightarrow> server_options" where
  "set_server_header enabled so = so\<lparr>so_server_header := enabled\<rparr>"

definition set_h3 :: "bool \<Rightarrow> server_options \<Rightarrow> server_options" where
  "set_h3 enabled so = so\<lparr>so_h3 := enabled\<rparr>"

lemmas option_setters [simp] = set_flood_control_def set_metrics_def set_sni_strict_def set_server_header_def set_h3_def

text \<open>The chain of setters in \<^verbatim>\<open>main\<close>.\<close>

definition main_server_options :: "args \<Rightarrow> rpc_init_settings \<Rightarrow> parsed_cert \<Rightarrow> server_options" where
  "main_server_options a s cert =
     set_h3 (ar_enable_h3 a)
      (set_server_header (\<not> ar_disable_server_header a)
       (set_sni_strict (ar_sni_strict a)
        (set_metrics (ar_enable_metrics a)
         (set_flood_control (flood_enabled a)
          (server_options_new (listen_port a s) (case ar_host a of Some h \<Rightarrow> h | None \<Rightarrow> V4 0) cert)))))"

text \<open>The server: the certificate store of its handle and what its two tasks were given, the accept loop with the layers of its
  router, and the loop for HTTP/3 if it runs.\<close>

record 'k server =
  sv_cert :: "'k cert_store"
  sv_tcp :: accept_state
  sv_quic :: "flood_control option option"
  sv_alt_svc :: "string option"
  sv_metrics :: bool
  sv_server_header :: bool

text \<open>A certificate that cannot be used panics, a port that cannot be bound ends the start.\<close>

datatype 'k server_start = CertPanic | BindFailed | ServerStarted "'k server"

definition alt_svc_value :: "u16 \<Rightarrow> string" where
  "alt_svc_value port = ''h3='' @ [CHR 0x22, CHR '':''] @ show_nat (unat port) @ [CHR 0x22] @ ''; persist=1''"

text \<open>\<open>tcp_ok\<close> and \<open>udp_ok\<close> are the answers of the system to binding the port.  Each accept loop has a flood control of
  its own, created at \<open>now\<close>; \<open>sv_quic\<close> is that of the loop for HTTP/3, if it runs.\<close>

definition server_new :: "(parsed_cert \<Rightarrow> 'k option) \<Rightarrow> nat \<Rightarrow> bool \<Rightarrow> bool \<Rightarrow> server_options \<Rightarrow> 'k server_start" where
  "server_new certify now tcp_ok udp_ok opt =
     (case cert_store_new certify (so_cert opt) (so_sni_strict opt) of
        None \<Rightarrow> CertPanic
      | Some store \<Rightarrow>
          if \<not> tcp_ok then BindFailed
          else
            (let flood = (if so_flood_control opt then Some now else None);
                 endpoint = so_h3 opt \<and> udp_ok
             in ServerStarted \<lparr>sv_cert = store, sv_tcp = accept_start flood,
                  sv_quic = (if endpoint then Some (map_option flood_new flood) else None),
                  sv_alt_svc = (if endpoint then Some (alt_svc_value (so_port opt)) else None),
                  sv_metrics = so_enable_metrics opt, sv_server_header = so_server_header opt\<rparr>))"

text \<open>The headers the layers add to the response of a handler: the server header on both transports, the advertisement
  only over TCP.\<close>

definition layer_response :: "string \<Rightarrow> bool \<Rightarrow> 'k server \<Rightarrow> http_response \<Rightarrow> http_response" where
  "layer_response name tcp sv r =
     (let r = (if sv_server_header sv then default_headers name r else r) in
      case sv_alt_svc sv of
        Some v \<Rightarrow> if tcp then r\<lparr>h_headers := h_headers r @ [(''Alt-Svc'', v)]\<rparr> else r
      | None \<Rightarrow> r)"

section \<open>A TCP connection\<close>

text \<open>\<^verbatim>\<open>tokio::time::timeout\<close>: how long it takes and whether the inner future, which takes \<open>d\<close> or for ever, completed.\<close>

definition with_timeout :: "nat \<Rightarrow> nat option \<Rightarrow> nat \<times> bool" where
  "with_timeout limit d = (case d of None \<Rightarrow> (limit, False) | Some d \<Rightarrow> if d \<le> limit then (d, True) else (limit, False))"

text \<open>When a connection is accepted, when its handshake answers, and how long the connection is served if it is left
  alone; \<^const>\<open>None\<close> is never.\<close>

record tcp_plan =
  tp_at :: nat
  tp_handshake :: "(nat \<times> bool) option"
  tp_serve :: "nat option"

definition handshake_end :: "tcp_plan \<Rightarrow> nat" where
  "handshake_end p = tp_at p + fst (with_timeout 10000 (map_option fst (tp_handshake p)))"

definition handshake_done :: "tcp_plan \<Rightarrow> bool" where
  "handshake_done p \<longleftrightarrow>
     snd (with_timeout 10000 (map_option fst (tp_handshake p))) \<and> (case tp_handshake p of Some (_, ok) \<Rightarrow> ok | None \<Rightarrow> False)"

text \<open>The end of the task.  The select prefers the connection; the shutdown is seen when serving starts if it came
  earlier.\<close>

definition tcp_end :: "nat option \<Rightarrow> tcp_plan \<Rightarrow> nat" where
  "tcp_end shutdown p =
     (if \<not> handshake_done p then handshake_end p
      else
        (let start = handshake_end p;
             served = start + fst (with_timeout 181000 (tp_serve p))
         in case shutdown of
              None \<Rightarrow> served
            | Some t \<Rightarrow>
                (let seen = max start t in if served \<le> seen then served else min served (seen + 10000))))"

section \<open>A request over HTTP/3\<close>

text \<open>How long the phases of a request take: reading it, the handler (which the timeout layer ends), sending the head, the
  body, reading the rest of the request, and the end of the stream.\<close>

record h3_plan =
  hp_at :: nat
  hp_resolve :: "(nat \<times> bool) option"
  hp_call :: nat
  hp_head :: "(nat \<times> bool) option"
  hp_body :: "(nat \<times> bool) option"
  hp_drain :: "nat option"
  hp_finish :: "nat option"

text \<open>When the receiver that keeps the connection open is dropped; \<^const>\<open>None\<close> is never.\<close>

definition h3_request_end :: "bool \<Rightarrow> h3_plan \<Rightarrow> nat option" where
  "h3_request_end blocked p =
     (case hp_resolve p of
        None \<Rightarrow> None
      | Some (r, ok) \<Rightarrow>
          if \<not> ok \<or> blocked then Some (hp_at p + r)
          else
            (case hp_head p of
               None \<Rightarrow> None
             | Some (h, ok) \<Rightarrow>
                 let sent = hp_at p + r + hp_call p + h in
                 if \<not> ok then Some sent
                 else
                   (let (b, complete) = with_timeout 181000 (map_option fst (hp_body p));
                        all_sent = (case hp_body p of Some (_, ok) \<Rightarrow> complete \<and> ok | None \<Rightarrow> False)
                    in if \<not> all_sent then Some (sent + b)
                       else map_option (\<lambda>f. sent + b + fst (with_timeout 181000 (hp_drain p)) + f) (hp_finish p))))"

text \<open>After a shutdown a connection waits for its requests; \<open>requests\<close> are their ends.\<close>

definition h3_conn_end :: "nat \<Rightarrow> nat option list \<Rightarrow> nat option" where
  "h3_conn_end shutdown requests =
     (if None \<in> set requests then None else Some (fold max (map the requests) shutdown))"

section \<open>Shutdown\<close>

text \<open>The end of an accept loop that leaves its loop at \<open>t\<close> with connections that end at \<open>ends\<close>: it waits until every
  receiver is dropped, at most fifteen seconds.\<close>

definition drain_end :: "nat \<Rightarrow> nat option list \<Rightarrow> nat" where
  "drain_end t ends =
     (if None \<in> set ends then t + 15000 else t + fst (with_timeout 15000 (Some (fold max (map the ends) t - t))))"

text \<open>\<^verbatim>\<open>Server::shutdown\<close> awaits the one loop and then the other.\<close>

definition server_shutdown_end :: "nat \<times> nat option list \<Rightarrow> (nat \<times> nat option list) option \<Rightarrow> nat" where
  "server_shutdown_end tcp quic =
     (let t = drain_end (fst tcp) (snd tcp) in case quic of None \<Rightarrow> t | Some q \<Rightarrow> max t (drain_end (fst q) (snd q)))"

section \<open>Properties\<close>

subsection \<open>Advertising HTTP/3\<close>

text \<open>The advertisement is sent exactly when the port was bound for HTTP/3, provided that no handler sends it.\<close>

theorem alt_svc_only_when_bound:
  assumes "server_new certify now tcp_ok udp_ok opt = ServerStarted sv" "''Alt-Svc'' \<notin> fst ` set (h_headers r)"
  shows "''Alt-Svc'' \<in> fst ` set (h_headers (layer_response name tcp sv r)) \<longleftrightarrow> tcp \<and> so_h3 opt \<and> udp_ok"
    and "sv_quic sv \<noteq> None \<longleftrightarrow> so_h3 opt \<and> udp_ok"
  using assms
  by (auto simp: server_new_def layer_response_def default_headers_def Let_def split: option.splits if_splits)

subsection \<open>Timeouts\<close>

lemma with_timeout_le: "fst (with_timeout limit d) \<le> limit"
  by (simp add: with_timeout_def split: option.split)

lemma handshake_end_le: "handshake_end p \<le> tp_at p + 10000"
  by (simp add: handshake_end_def with_timeout_le)

lemma tcp_end_le: "tcp_end shutdown p \<le> tp_at p + 191000"
  using handshake_end_le [of p] with_timeout_le [of 181000 "tp_serve p"]
  by (auto simp: tcp_end_def Let_def split: option.split)

lemma tcp_end_shutdown: "tcp_end (Some t) p \<le> max (handshake_end p) t + 10000"
  by (auto simp: tcp_end_def Let_def)

lemma fold_max_ge: "(x :: nat) \<le> fold max xs x" "y \<in> set xs \<Longrightarrow> y \<le> fold max xs x"
proof -
  show "x \<le> fold max xs x" by (induction xs arbitrary: x) (simp, metis fold_simps(2) max.bounded_iff)
  then show "y \<in> set xs \<Longrightarrow> y \<le> fold max xs x"
    using Max.set_eq_fold [of x xs] Max_ge [of "set (x # xs)" y] by auto
qed

lemma drain_end_le: "drain_end t ends \<le> t + 15000"
  by (simp add: drain_end_def with_timeout_le)

lemma drain_end_waits: "Some e \<in> set ends \<Longrightarrow> e \<le> t + 15000 \<Longrightarrow> e \<le> drain_end t ends"
proof (cases "None \<in> set ends")
  case False
  assume "Some e \<in> set ends" "e \<le> t + 15000"
  then have "e \<le> fold max (map the ends) t" using fold_max_ge(2) [of e "map the ends" t] by force
  with False \<open>e \<le> t + 15000\<close> show ?thesis by (auto simp: drain_end_def with_timeout_def)
qed (simp add: drain_end_def)


definition slow_plan :: tcp_plan where
  "slow_plan = \<lparr>tp_at = 1000, tp_handshake = Some (500, True), tp_serve = None\<rparr>"


text \<open>A connection that is still in its handshake may be cut: it may last twenty seconds, the loop waits fifteen.\<close>

theorem slow_handshake_outlives_loop:
  "\<exists>p. tp_at p \<le> t \<and> drain_end t [Some (tcp_end (Some t) p)] < tcp_end (Some t) p \<and> tcp_end (Some t) p < tcp_end None p"
  by (rule exI [of _ "\<lparr>tp_at = t, tp_handshake = Some (9000, True), tp_serve = None\<rparr>"])
    (simp add: drain_end_def tcp_end_def handshake_end_def handshake_done_def with_timeout_def Let_def)

text \<open>The whole server returns fifteen seconds after the later of its loops noticed.\<close>

theorem server_shutdown_bounded:
  "server_shutdown_end tcp quic \<le> max (fst tcp) (case quic of Some q \<Rightarrow> fst q | None \<Rightarrow> 0) + 15000"
  using drain_end_le [of "fst tcp" "snd tcp"]
  by (cases quic) (auto simp: server_shutdown_end_def Let_def intro: order_trans [OF drain_end_le])

text \<open>Sending the body of a response and reading the rest of its request take at most 181 seconds each.\<close>

theorem h3_request_bounded:
  assumes "hp_resolve p = Some (r, ok)" "hp_head p = Some (h, ok')" "hp_finish p = Some f"
  shows "\<exists>e. h3_request_end blocked p = Some e \<and> e \<le> hp_at p + r + hp_call p + h + 362000 + f"
  using assms with_timeout_le [of 181000 "map_option fst (hp_body p)"] with_timeout_le [of 181000 "hp_drain p"]
  by (auto simp: h3_request_end_def Let_def split: prod.split)

end
