(* ===== verification/CacheLife.thy ===== *)
theory CacheLife
  imports CacheScan CacheGet
begin

text \<open>
  The cache manager as the rest of the client sees it: an unbounded sequence of \<^verbatim>\<open>get_file\<close>,
  \<^verbatim>\<open>import_cache\<close>, \<^verbatim>\<open>remove_cache\<close>, \<^verbatim>\<open>update_settings\<close>, \<^verbatim>\<open>save_state\<close> and cleaner runs, in any order
  and each with its own I/O failures.  The invariant is the accounting of \<^verbatim>\<open>CacheStore\<close>.
\<close>

record world =
  w_ext :: extern
  w_size :: "fnode \<Rightarrow> u64"
  w_cm :: cache_manager

inductive cm_step :: "world \<Rightarrow> world \<Rightarrow> bool" where
  step_remove: "plain_info info \<Longrightarrow> real_size E = w_size w \<Longrightarrow>
    cm_step w (w\<lparr>w_cm := snd (remove_cache (w_ext w) E info (w_cm w))\<rparr>)"
| step_import: "plain_info info \<Longrightarrow> real_size E = w_size w \<Longrightarrow>
    entry_range (w_ext w) (cache_dir (w_cm w)) file_path = None \<Longrightarrow>
    stable_path E (to_path (x_enc (w_ext w)) info (cache_dir (w_cm w))) \<Longrightarrow>
    cm_step w (w\<lparr>w_cm := import_cache (w_ext w) E info file_path (w_cm w)\<rparr>)"
| step_get: "real_size E = w_size w \<Longrightarrow> size_law E \<Longrightarrow>
    cm_step w (w\<lparr>w_cm := snd (get_file (w_ext w) E info offset (w_cm w))\<rparr>)"
| step_verified: "plain_info (vt_info t) \<Longrightarrow> real_size E = w_size w \<Longrightarrow>
    run_verify (w_ext w) E joins t (w_cm w) = Some (sent, cm) \<Longrightarrow> cm_step w (w\<lparr>w_cm := cm\<rparr>)"
| step_settings: "cm_step w (w\<lparr>w_cm := cm_update_settings l (w_cm w)\<rparr>)"
| step_save: "cm_step w (w\<lparr>w_cm := save_state E (w_cm w)\<rparr>)"
| step_clean: "\<forall>(E, l) \<in> set evs. real_size E = w_size w \<Longrightarrow>
    check_cache_usage (w_ext w) E evs (w_cm w) = Some (Some cm) \<Longrightarrow> cm_step w (w\<lparr>w_cm := cm\<rparr>)"

definition books_balanced :: "world \<Rightarrow> bool" where
  "books_balanced w \<longleftrightarrow> external (w_ext w) \<and> accounted (w_ext w) (w_size w) (w_cm w)"

text \<open>A manager started on an empty cache directory.\<close>

definition fresh_world :: "world \<Rightarrow> bool" where
  "fresh_world w \<longleftrightarrow> external (w_ext w) \<and> wf_map (disk (w_cm w)) \<and> cache_map (w_cm w) = [] \<and>
     m_cache_count (w_cm w) = 0 \<and> m_cache_size (w_cm w) = 0 \<and> cached_files (w_ext w) (w_size w) (w_cm w) = {#}"

lemma accounted_get_file:
  assumes "external X" "accounted X (real_size E) cm" "size_law E"
  shows "accounted X (real_size E) (snd (get_file X E info offset cm))"
  using assms external.accounted_mark_recently_accessed [OF assms]
  by (auto simp: get_file_def Let_def split: option.split node.split sum.split prod.split)

lemma accounted_run_verify:
  assumes "external X" "accounted X (real_size E) cm" "plain_info (vt_info t)" "run_verify X E joins t cm = Some (sent, cm')"
  shows "accounted X (real_size E) cm'"
  using assms external.accounted_remove_cache [OF assms(1-3)]
  by (auto simp: run_verify_def split: option.splits if_splits)

interpretation life: stateful fresh_world cm_step books_balanced
proof unfold_locales
  show "books_balanced w" if "fresh_world w" for w
    using that by (simp add: fresh_world_def books_balanced_def accounted_def range_balanced_def range_files_def)
  show "books_balanced w'" if "books_balanced w" "cm_step w w'" for w w'
    using that(2,1)
  proof cases
    case (step_clean evs E cm)
    with that(1) show ?thesis
      by (auto simp: books_balanced_def intro: external.accounted_check_cache_usage)
  next
    case (step_get E info offset)
    with that(1) accounted_get_file [of "w_ext w" E] show ?thesis by (simp add: books_balanced_def)
  next
    case (step_verified t E joins sent cm)
    with that(1) accounted_run_verify [of "w_ext w" E "w_cm w" t joins sent cm] show ?thesis by (simp add: books_balanced_def)
  next
    case (step_import info E file_path)
    with that(1) external.accounted_import_cache [of "w_ext w" E] show ?thesis by (simp add: books_balanced_def)
  next
    case (step_remove info E)
    with that(1) external.accounted_remove_cache [of "w_ext w" E] show ?thesis by (simp add: books_balanced_def)
  qed (simp_all add: books_balanced_def external.accounted_update_settings external.accounted_save_state)
qed

section \<open>Properties\<close>


definition import_world :: world where
  "import_world = \<lparr>w_ext = sample_ext, w_size = real_size sample_env,
     w_cm = sample_manager [(sample_dir, Dir), (''t'', File old_file)] []\<rparr>"

lemma sample_dir_eq: "sample_dir = ''c/00/01''"
proof -
  have "take 2 (fi_hash sample_info) = [0, 1]"
    by (simp add: sample_info_def take_map upt_conv_Cons numeral_2_eq_2)
  then have "sample_range = ''0001''"
    using hex_digit_01 by (simp add: sample_range_def static_range_def)
  moreover have "range_dir ''c'' ''0001'' = ''c/00/01''" by (simp add: range_dir_def push_path_def)
  ultimately show ?thesis by (simp only: sample_dir_def)
qed

lemma sample_dir_slash: "CHR ''/'' \<in> set sample_dir"
  by (simp add: sample_dir_eq)

lemma temp_distinct [simp]: "''t'' \<noteq> sample_dir" "''t'' \<noteq> sample_path" "sample_dir \<noteq> ''t''" "sample_path \<noteq> ''t''"
proof -
  have "CHR ''/'' \<notin> set ''t''" by simp
  then show "''t'' \<noteq> sample_dir" "''t'' \<noteq> sample_path" "sample_dir \<noteq> ''t''" "sample_path \<noteq> ''t''"
    using sample_dir_slash by (metis, metis sample_path_eq in_set_conv_decomp, metis, metis sample_path_eq in_set_conv_decomp)
qed

lemma temp_not_cached [simp]: "entry_range sample_ext ''c'' ''t'' = None"
  by (simp add: entry_range_def basename_def from_file_id_def next_u32_def)

lemma import_world_simps [simp]:
  "w_ext import_world = sample_ext" "w_size import_world = real_size sample_env"
  "cache_dir (w_cm import_world) = ''c''" "disk (w_cm import_world) = [(sample_dir, Dir), (''t'', File old_file)]"
  "cache_map (w_cm import_world) = []"
  by (simp_all add: import_world_def sample_manager_def)

lemma import_world_reach:
  "reach fresh_world cm_step (import_world\<lparr>w_cm := import_cache sample_ext sample_env sample_info ''t'' (w_cm import_world)\<rparr>)"
proof (rule reach_step)
  show "reach fresh_world cm_step import_world"
    by (rule reach_init)
      (simp add: fresh_world_def sx.external_axioms wf_map_def cached_files_def disk_files_def,
       simp add: import_world_def sample_manager_def)
  show "cm_step import_world (import_world\<lparr>w_cm := import_cache sample_ext sample_env sample_info ''t'' (w_cm import_world)\<rparr>)"
    using step_import [of sample_info sample_env import_world "''t''"] by simp
qed

lemma import_world_disk:
  "disk (import_cache sample_ext sample_env sample_info ''t'' (w_cm import_world)) = sample_disk old_file"
  by (simp add: import_cache_def import_file_def Let_def fs_metadata_def remove_cache_def move_or_copy_def fs_rename_def
      fs_filesize_def sample_path_def [symmetric] sample_disk_def)


text \<open>
  An imported file is there: with no I/O failure, the content of the temporary file is afterwards
  found under the path of its identity, with its modification time.
\<close>

theorem import_stores_file:
  assumes "external X" "plain_info info" "lookup (disk cm) file_path = Some (File f)" "io_ok E"
    and "entry_range X (cache_dir cm) file_path = None" "path = to_path (x_enc X) info (cache_dir cm)"
    and "lookup (disk cm) path \<noteq> Some Dir" "free_dir (parent path) (disk cm)"
  shows "lookup (disk (import_cache X E info file_path cm)) path = Some (File f)"
  using external.import_cache_stores [OF assms(1-5)] assms(6-8) by simp

theorem import_stores_file_witness:
  "lookup (disk (import_cache sample_ext sample_env sample_info ''t'' (w_cm import_world))) sample_path = Some (File old_file)"
proof -
  have "free_dir (parent sample_path) (disk (w_cm import_world))"
    by (simp add: free_dir_def sample_dir_eq ancestors_def upt_conv_Cons)
  then show ?thesis
    by (intro import_stores_file [OF sx.external_axioms]) (simp_all add: sample_path_def [symmetric])
qed

end
