(* ===== verification/Download.thy ===== *)
theory Download
  imports CacheLife Rpc
begin

text \<open>
  \<^verbatim>\<open>src/route/cache.rs\<close>, a cache miss: the worker that downloads the file from the sources the server
  names, resuming over at most three attempts, verifies it and imports it into the cache, and the
  stream that follows the temporary file while the download runs.  What the network and the disk do
  in each attempt is an argument.
\<close>

section \<open>The worker\<close>

text \<open>A chunk of the response, with the answer of the disk to writing it.\<close>

datatype chunk = Chunk bytes bool | ChunkErr

record attempt =
  at_open :: bool
  at_seek :: bool
  at_reply :: "net_error + chunk list"
  at_flush :: bool

record dl_state =
  dl_file :: bytes
  dl_hashed :: bytes
  dl_progress :: nat
  dl_use_proxy :: bool

datatype stream_end = StreamDone | StreamErr | WriteFailed

definition write_at :: "nat \<Rightarrow> bytes \<Rightarrow> bytes \<Rightarrow> bytes" where
  "write_at pos d f = take pos f @ replicate (pos - length f) 0 @ d @ drop (pos + length d) f"

fun dl_stream :: "chunk list \<Rightarrow> nat \<Rightarrow> dl_state \<Rightarrow> stream_end \<times> dl_state" where
  "dl_stream [] download st = (StreamDone, st)"
| "dl_stream (ChunkErr # chunks) download st = (StreamErr, st)"
| "dl_stream (Chunk b ok # chunks) download st =
     (let download = download + length b in
      if download \<le> dl_progress st then dl_stream chunks download st
      else
        let write_size = download - dl_progress st;
            start = length b - write_size;
            data = drop start b
        in if \<not> ok then (WriteFailed, st)
           else dl_stream chunks download
             (st\<lparr>dl_file := write_at (dl_progress st) data (dl_file st), dl_hashed := dl_hashed st @ data,
                 dl_progress := dl_progress st + write_size\<rparr>))"

datatype dl_result = Verified bytes | HashWrong | DownloadFailed | NoSource

text \<open>The loop \<^verbatim>\<open>'retry\<close>.  \<^verbatim>\<open>sources.next().unwrap()\<close> panics when the server named no source.\<close>

fun dl_attempts :: "nat \<Rightarrow> ('a) extern_scheme \<Rightarrow> cache_file_info \<Rightarrow> nat \<Rightarrow> attempt list \<Rightarrow> dl_state \<Rightarrow> dl_result" where
  "dl_attempts sources X info retry [] st = DownloadFailed"
| "dl_attempts sources X info retry (a # attempts) st =
     (if retry \<ge> 3 then DownloadFailed
      else if \<not> at_open a \<or> \<not> at_seek a then dl_attempts sources X info (retry + 1) attempts st
      else if sources = 0 then NoSource
      else
        (case at_reply a of
           Inl err \<Rightarrow>
             dl_attempts sources X info (retry + 1) attempts
               (if dl_use_proxy st \<and> (err = ConnectFailed \<or> retry = 1) then st\<lparr>dl_use_proxy := False\<rparr> else st)
         | Inr chunks \<Rightarrow>
             (case dl_stream chunks 0 st of
                (StreamErr, st) \<Rightarrow> dl_attempts sources X info (retry + 1) attempts st
              | (WriteFailed, st) \<Rightarrow> DownloadFailed
              | (StreamDone, st) \<Rightarrow>
                  if dl_progress st = unat (fi_size info)
                  then (if \<not> at_flush a then DownloadFailed
                        else if x_sha1 X (dl_hashed st) = fi_hash info then Verified (dl_file st) else HashWrong)
                  else dl_attempts sources X info (retry + 1) attempts st)))"

definition new_download :: "bool \<Rightarrow> dl_state" where
  "new_download proxy = \<lparr>dl_file = [], dl_hashed = [], dl_progress = 0, dl_use_proxy = proxy\<rparr>"

text \<open>The end of the worker: only a verified file is imported, from the temporary path it was written to.\<close>

definition finish_download :: "extern \<Rightarrow> io_env \<Rightarrow> cache_file_info \<Rightarrow> path \<Rightarrow> dl_result \<Rightarrow> cache_manager \<Rightarrow> cache_manager" where
  "finish_download X E info temp_path r cm =
     (case r of
        Verified d \<Rightarrow>
          import_cache X E info temp_path
            (cm\<lparr>disk := insert_map temp_path (File \<lparr>f_data = d, f_mtime = clock E\<rparr>) (disk cm)\<rparr>)
      | _ \<Rightarrow> cm)"

section \<open>Following the temporary file\<close>

text \<open>What the follower meets: a read of some bytes (none when the data is not visible yet), a read error, a
  new progress value, or the end of waiting (a timeout, or the worker is gone).\<close>

datatype follow_event = FRead nat | FErr io_error | FProgress nat | FStop

record follower =
  fo_read :: nat
  fo_write :: nat

fun follow :: "bytes \<Rightarrow> nat \<Rightarrow> follow_event list \<Rightarrow> follower \<Rightarrow> (io_error + bytes) list \<times> follower" where
  "follow file file_size [] fo = ([], fo)"
| "follow file file_size (e # es) fo =
     (if fo_write fo > fo_read fo
      then (case e of
              FRead n \<Rightarrow>
                let s = min n (length file - fo_read fo) in
                if s = 0 then follow file file_size es fo
                else
                  let buf = take s (drop (fo_read fo) file); fo = fo\<lparr>fo_read := fo_read fo + s\<rparr> in
                  if fo_read fo = file_size then ([Inr buf], fo)
                  else (case follow file file_size es fo of (out, fo) \<Rightarrow> (Inr buf # out, fo))
            | FErr err \<Rightarrow>
                (case follow file file_size es fo of (out, fo) \<Rightarrow> (Inl err # Inr [] # out, fo))
            | _ \<Rightarrow> follow file file_size es fo)
      else (case e of
              FProgress w \<Rightarrow> follow file file_size es (fo\<lparr>fo_write := w\<rparr>)
            | FStop \<Rightarrow> ([], fo)
            | _ \<Rightarrow> follow file file_size es fo))"

section \<open>What is downloaded\<close>

definition dl_ok :: "dl_state \<Rightarrow> bool" where
  "dl_ok st \<longleftrightarrow> dl_file st = dl_hashed st \<and> length (dl_hashed st) = dl_progress st"

lemma write_at_end [simp]: "write_at (length f) d f = f @ d"
  by (simp add: write_at_def)

lemma dl_stream_ok: "dl_ok st \<Longrightarrow> download \<le> dl_progress st \<Longrightarrow> dl_stream chunks download st = (r, st') \<Longrightarrow> dl_ok st'"
proof (induction chunks download st rule: dl_stream.induct)
  case (3 b ok chunks download st)
  let ?d = "download + length b"
  show ?case
  proof (cases "?d \<le> dl_progress st")
    case True
    with 3 show ?thesis by simp
  next
    case False
    let ?data = "drop (length b - (?d - dl_progress st)) b"
    have "length ?data = ?d - dl_progress st" using "3.prems"(2) by simp
    then have "dl_ok (st\<lparr>dl_file := write_at (dl_progress st) ?data (dl_file st), dl_hashed := dl_hashed st @ ?data,
        dl_progress := dl_progress st + (?d - dl_progress st)\<rparr>)"
      using "3.prems"(1) write_at_end [of "dl_file st" ?data] by (auto simp: dl_ok_def)
    with 3 False show ?thesis by (auto simp: Let_def split: if_splits)
  qed
qed auto

lemma dl_attempts_verified:
  assumes "dl_ok st" "dl_attempts sources X info retry attempts st = Verified d"
  shows "x_sha1 X d = fi_hash info \<and> length d = unat (fi_size info)"
  using assms
proof (induction attempts arbitrary: retry st)
  case (Cons a attempts)
  have ok: "dl_ok st'" if "dl_stream chunks 0 st = (r, st')" for chunks r st'
    using dl_stream_ok [OF Cons.prems(1) _ that] by simp
  have px: "dl_ok (st\<lparr>dl_use_proxy := p\<rparr>)" for p using Cons.prems(1) by (simp add: dl_ok_def)
  have "(\<exists>st' r'. dl_ok st' \<and> dl_attempts sources X info r' attempts st' = Verified d) \<or>
      (\<exists>st'. dl_ok st' \<and> dl_progress st' = unat (fi_size info) \<and> x_sha1 X (dl_hashed st') = fi_hash info \<and> d = dl_file st')"
    using Cons.prems ok px by (simp split: if_splits sum.splits prod.splits stream_end.splits; blast)
  then show ?case using Cons.IH by (auto simp: dl_ok_def)
qed simp

text \<open>Sources that all serve (a prefix of) the same content: the state is always a prefix of it.\<close>

definition chunk_bytes :: "chunk list \<Rightarrow> bytes" where
  "chunk_bytes chunks = concat (List.map_filter (\<lambda>c. case c of Chunk b _ \<Rightarrow> Some b | ChunkErr \<Rightarrow> None) chunks)"

lemma chunk_bytes_simps [simp]:
  "chunk_bytes [] = []" "chunk_bytes (Chunk b ok # cs) = b @ chunk_bytes cs" "chunk_bytes (ChunkErr # cs) = chunk_bytes cs"
  by (simp_all add: chunk_bytes_def map_filter_def)

definition writes_ok :: "chunk list \<Rightarrow> bool" where
  "writes_ok chunks \<longleftrightarrow> (\<forall>c \<in> set chunks. case c of Chunk _ ok \<Rightarrow> ok | ChunkErr \<Rightarrow> True)"

definition prefix_of :: "bytes \<Rightarrow> dl_state \<Rightarrow> bool" where
  "prefix_of D st \<longleftrightarrow> dl_ok st \<and> dl_progress st \<le> length D \<and> dl_file st = take (dl_progress st) D"

lemma dl_stream_prefix:
  assumes "prefix_of D st" "download \<le> dl_progress st" "writes_ok chunks"
    and "take (length (chunk_bytes chunks)) (drop download D) = chunk_bytes chunks" "download + length (chunk_bytes chunks) \<le> length D"
    and "dl_stream chunks download st = (r, st')"
  shows "prefix_of D st' \<and> r \<noteq> WriteFailed \<and> dl_use_proxy st' = dl_use_proxy st \<and>
    (ChunkErr \<notin> set chunks \<longrightarrow> r = StreamDone \<and> dl_progress st' = max (dl_progress st) (download + length (chunk_bytes chunks)))"
  using assms
proof (induction chunks download st rule: dl_stream.induct)
  case (3 b ok chunks download st)
  let ?d = "download + length b"
  have b: "b = take (length b) (drop download D)" and len: "?d + length (chunk_bytes chunks) \<le> length D"
    using "3.prems"(4,5) by (auto simp: take_add append_eq_append_conv)
  have rest: "take (length (chunk_bytes chunks)) (drop ?d D) = chunk_bytes chunks"
    using "3.prems"(4,5) by (simp add: take_add append_eq_append_conv add.commute)
  have ok: "ok" "writes_ok chunks" using "3.prems"(3) by (auto simp: writes_ok_def)
  show ?case
  proof (cases "?d \<le> dl_progress st")
    case True
    then have "dl_stream chunks ?d st = (r, st')" using "3.prems"(6) by simp
    from "3.IH"(1) [OF refl True "3.prems"(1) True ok(2) rest len this] show ?thesis by (simp add: add.assoc)
  next
    case False
    let ?p = "dl_progress st"
    let ?data = "drop (length b - (?d - ?p)) b"
    let ?st = "st\<lparr>dl_file := write_at ?p ?data (dl_file st), dl_hashed := dl_hashed st @ ?data, dl_progress := ?p + (?d - ?p)\<rparr>"
    let ?k = "?p - download"
    have k: "length b - (?d - ?p) = ?k" "length b - ?k = ?d - ?p" "?k + download = ?p" using "3.prems"(2) False by simp_all
    have "?data = drop ?k (take (length b) (drop download D))" unfolding k(1) by (rule arg_cong [OF b])
    also have "\<dots> = take (length b - ?k) (drop (?k + download) D)" by (simp only: drop_take drop_drop)
    finally have data: "?data = take (?d - ?p) (drop ?p D)" unfolding k(2,3) .
    have "length (dl_file st) = ?p" using "3.prems"(1) by (simp add: prefix_of_def dl_ok_def)
    then have w: "write_at ?p ?data (dl_file st) = dl_file st @ ?data" by (metis write_at_end)
    have le: "?p + (?d - ?p) \<le> length D" using False len by simp
    have fl: "dl_file st @ ?data = take (?p + (?d - ?p)) D"
      unfolding data take_add using "3.prems"(1) by (simp add: prefix_of_def)
    have hashed: "dl_hashed st @ ?data = dl_file st @ ?data" using "3.prems"(1) by (simp add: prefix_of_def dl_ok_def)
    have "prefix_of D ?st"
      unfolding w hashed fl using le by (simp add: prefix_of_def dl_ok_def)
    moreover have "dl_stream chunks ?d ?st = (r, st')" using "3.prems"(6) False ok by (simp add: Let_def)
    ultimately show ?thesis using "3.IH"(2) [OF refl False refl refl refl] rest len ok False by (auto simp: max_def)
  qed
qed (auto simp: max_def)

text \<open>An attempt whose source serves a prefix of \<open>D\<close>, and one that serves all of it without an error.\<close>

definition serves_prefix :: "bytes \<Rightarrow> attempt \<Rightarrow> bool" where
  "serves_prefix D a \<longleftrightarrow>
     at_flush a \<and>
     (case at_reply a of
        Inl _ \<Rightarrow> True
      | Inr chunks \<Rightarrow> writes_ok chunks \<and> length (chunk_bytes chunks) \<le> length D \<and>
          take (length (chunk_bytes chunks)) D = chunk_bytes chunks)"

definition serves_all :: "bytes \<Rightarrow> attempt \<Rightarrow> bool" where
  "serves_all D a \<longleftrightarrow> at_open a \<and> at_seek a \<and>
     (case at_reply a of Inl _ \<Rightarrow> False | Inr chunks \<Rightarrow> ChunkErr \<notin> set chunks \<and> chunk_bytes chunks = D)"

lemma dl_attempts_complete:
  assumes "prefix_of D st" "x_sha1 X D = fi_hash info" "length D = unat (fi_size info)" "0 < sources"
    and "\<forall>a \<in> set attempts. serves_prefix D a" "\<exists>i < length attempts. retry + i < 3 \<and> serves_all D (attempts ! i)"
  shows "dl_attempts sources X info retry attempts st = Verified D"
  using assms(1,5,6)
proof (induction attempts arbitrary: retry st)
  case (Cons a attempts)
  have retry: "retry < 3" using Cons.prems(3) by (meson add_lessD1)
  have full: "dl_file st' = D" "dl_hashed st' = D" if "prefix_of D st'" "dl_progress st' = length D" for st'
  proof -
    from that have "dl_file st' = take (length D) D" "dl_file st' = dl_hashed st'" unfolding prefix_of_def dl_ok_def by metis+
    then show "dl_file st' = D" "dl_hashed st' = D" by simp_all
  qed
  have next_attempt: "dl_attempts sources X info (retry + 1) attempts st' = Verified D" if "prefix_of D st'" "\<not> serves_all D a" for st'
  proof (rule Cons.IH [OF that(1)])
    show "\<forall>a \<in> set attempts. serves_prefix D a" using Cons.prems(2) by simp
    from Cons.prems(3) obtain i where i: "i < length (a # attempts)" "retry + i < 3" "serves_all D ((a # attempts) ! i)" by blast
    from i(3) that(2) have "i \<noteq> 0" by (cases i) simp_all
    then obtain j where "i = Suc j" by (cases i) simp_all
    with i show "\<exists>i < length attempts. retry + 1 + i < 3 \<and> serves_all D (attempts ! i)"
      by (intro exI [of _ j]) simp
  qed
  show ?case
  proof (cases "at_open a \<and> at_seek a")
    case False
    then have "\<not> serves_all D a" by (auto simp: serves_all_def)
    with next_attempt [OF Cons.prems(1)] False retry show ?thesis by auto
  next
    case True
    show ?thesis
    proof (cases "at_reply a")
      case (Inl err)
      then have "\<not> serves_all D a" by (simp add: serves_all_def)
      moreover have "prefix_of D (st\<lparr>dl_use_proxy := p\<rparr>) = prefix_of D st" for p by (simp add: prefix_of_def dl_ok_def)
      ultimately show ?thesis using next_attempt Cons.prems(1) True Inl retry assms(4) by simp
    next
      case (Inr chunks)
      obtain r st' where s: "dl_stream chunks 0 st = (r, st')" by (metis surj_pair)
      have "serves_prefix D a" using Cons.prems(2) by simp
      then have sp: "writes_ok chunks" "take (length (chunk_bytes chunks)) (drop 0 D) = chunk_bytes chunks"
        "0 + length (chunk_bytes chunks) \<le> length D" "at_flush a" by (simp_all add: serves_prefix_def Inr)
      from dl_stream_prefix [OF Cons.prems(1) _ sp(1-3) s]
      have st': "prefix_of D st'" "r \<noteq> WriteFailed"
        and all: "ChunkErr \<notin> set chunks \<Longrightarrow> r = StreamDone \<and> dl_progress st' = max (dl_progress st) (length (chunk_bytes chunks))"
        by simp_all
      have "dl_progress st \<le> length D" using Cons.prems(1) by (simp add: prefix_of_def)
      with all have done': "r = StreamDone \<and> dl_progress st' = length D" if "serves_all D a"
        using that by (auto simp: serves_all_def Inr)
      have unfold: "dl_attempts sources X info retry (a # attempts) st =
          (case r of StreamErr \<Rightarrow> dl_attempts sources X info (retry + 1) attempts st' | WriteFailed \<Rightarrow> DownloadFailed
           | StreamDone \<Rightarrow> if dl_progress st' = length D then (if x_sha1 X (dl_hashed st') = fi_hash info then Verified (dl_file st') else HashWrong)
               else dl_attempts sources X info (retry + 1) attempts st')"
        using True Inr retry assms(3,4) s sp(4) by (cases r) simp_all
      show ?thesis
      proof (cases "r = StreamDone \<and> dl_progress st' = length D")
        case True
        then have "dl_file st' = D" "dl_hashed st' = D" using full [OF st'(1)] by blast+
        with True assms(2) show ?thesis unfolding unfold by simp
      next
        case False
        with done' have "dl_attempts sources X info (retry + 1) attempts st' = Verified D"
          using next_attempt [OF st'(1)] by blast
        with False st'(2) show ?thesis unfolding unfold by (cases r) auto
      qed
    qed
  qed
qed simp

section \<open>Properties\<close>


definition download_info :: cache_file_info where
  "download_info = \<lparr>fi_hash = checksum [1, 2, 3, 4], fi_size = 4, fi_xres = 0, fi_yres = 0, fi_mime_type = Png\<rparr>"

definition resumed_attempts :: "attempt list" where
  "resumed_attempts =
     [\<lparr>at_open = True, at_seek = True, at_reply = Inr [Chunk [1, 2] True, ChunkErr], at_flush = True\<rparr>,
      \<lparr>at_open = True, at_seek = True, at_reply = Inl TimedOut, at_flush = True\<rparr>,
      \<lparr>at_open = True, at_seek = True, at_reply = Inr [Chunk [1] True, Chunk [2, 3, 4] True], at_flush = True\<rparr>]"

lemma resumed_download: "dl_attempts 1 sample_ext download_info 0 resumed_attempts (new_download False) = Verified [1, 2, 3, 4]"
  by (rule dl_attempts_complete)
    (auto simp: resumed_attempts_def download_info_def serves_prefix_def serves_all_def writes_ok_def new_download_def prefix_of_def dl_ok_def
      intro!: exI [of _ 2])

text \<open>
  Resuming works: when every source serves (a prefix of) the same content, with the size and hash of
  the identity, and one of the three attempts gets through, the download delivers exactly that
  content, whatever was received before each interruption.
\<close>

theorem download_resumes:
  assumes "x_sha1 X D = fi_hash info" "length D = unat (fi_size info)" "0 < sources"
    and "\<forall>a \<in> set attempts. serves_prefix D a" "i < length attempts" "i < 3" "serves_all D (attempts ! i)"
  shows "dl_attempts sources X info 0 attempts (new_download proxy) = Verified D"
  using assms by (intro dl_attempts_complete) (auto simp: new_download_def prefix_of_def dl_ok_def)

theorem download_resumes_witness:
  "dl_attempts 1 sample_ext download_info 0 resumed_attempts (new_download True) = Verified [1, 2, 3, 4]"
  by (rule download_resumes [of _ _ _ _ _ 2])
    (auto simp: resumed_attempts_def download_info_def serves_prefix_def serves_all_def writes_ok_def)

lemma follow_sent:
  "follow fl n es fo = (out, fo') \<Longrightarrow> fo_read fo \<le> length fl \<Longrightarrow>
   fo_read fo \<le> fo_read fo' \<and> fo_read fo' \<le> length fl \<and>
   sent_bytes out = take (fo_read fo' - fo_read fo) (drop (fo_read fo) fl)"
proof (induction es arbitrary: fo out fo')
  case (Cons e es)
  show ?case
  proof (cases "fo_write fo > fo_read fo \<and> (\<exists>k. e = FRead k \<and> 0 < k \<and> fo_read fo < length fl)")
    case True
    then obtain k where k: "e = FRead k" "0 < k" "fo_read fo < length fl" "fo_write fo > fo_read fo" by blast
    let ?s = "min k (length fl - fo_read fo)"
    let ?fo = "fo\<lparr>fo_read := fo_read fo + ?s\<rparr>"
    have s: "0 < ?s" "fo_read fo + ?s \<le> length fl" using k by auto
    show ?thesis
    proof (cases "fo_read fo + ?s = n")
      case True
      then have "out = [Inr (take ?s (drop (fo_read fo) fl))]" "fo' = ?fo"
        using Cons.prems(1) k s(1) by (simp_all add: Let_def)
      with s show ?thesis by simp
    next
      case False
      obtain out1 where r: "follow fl n es ?fo = (out1, fo')" "out = Inr (take ?s (drop (fo_read fo) fl)) # out1"
        using Cons.prems(1) k s(1) False by (auto simp: Let_def split: prod.splits)
      from Cons.IH [OF r(1)] s have ih: "fo_read fo + ?s \<le> fo_read fo'" "fo_read fo' \<le> length fl"
        "sent_bytes out1 = take (fo_read fo' - (fo_read fo + ?s)) (drop (fo_read fo + ?s) fl)" by simp_all
      have "fo_read fo' - fo_read fo = ?s + (fo_read fo' - (fo_read fo + ?s))" using ih(1) by simp
      then have "take (fo_read fo' - fo_read fo) (drop (fo_read fo) fl) =
          take ?s (drop (fo_read fo) fl) @ take (fo_read fo' - (fo_read fo + ?s)) (drop ?s (drop (fo_read fo) fl))"
        by (simp only: take_add)
      also have "drop ?s (drop (fo_read fo) fl) = drop (fo_read fo + ?s) fl" by (simp only: drop_drop add.commute)
      finally show ?thesis using ih r(2) by simp
    qed
  next
    case False
    then show ?thesis
      using Cons.prems Cons.IH [of fo] Cons.IH [of "fo\<lparr>fo_write := w\<rparr>" for w]
      by (cases e) (auto simp: Let_def split: if_splits prod.splits)
  qed
qed simp



end
