(* ===== verification/CacheSpec.thy ===== *)
theory CacheSpec
  imports Download "HOL-Library.Sublist"
begin

text \<open>
  What the cache manager promises the rest of the client: a map from file identities to contents.  The
  operations refine those of the map when the disk works, and whatever the disk does no operation changes the
  content of a file or makes one up.  It follows that a client whose only source of files are its own
  verified downloads serves nothing but authentic bytes.
\<close>

section \<open>The abstract cache\<close>

text \<open>Identities that differ only in a height without a width share a file; \<^const>\<open>stored_info\<close> is the one that stands
  for it.\<close>

definition contents :: "extern \<Rightarrow> cache_manager \<Rightarrow> cache_file_info \<Rightarrow> bytes option" where
  "contents X cm k =
     (if plain_info k \<and> stored_info k = k
      then (case lookup (disk cm) (to_path (x_enc X) k (cache_dir cm)) of Some (File f) \<Rightarrow> Some (f_data f) | _ \<Rightarrow> None)
      else None)"

lemma stored_info_idem [simp]: "stored_info (stored_info k) = stored_info k"
  by (simp add: stored_info_def)

lemma plain_stored_info [simp]: "plain_info (stored_info k) = plain_info k"
  by (simp add: plain_info_def) (simp add: stored_info_def)

lemma fi_hash_stored [simp]: "fi_hash (stored_info k) = fi_hash k" "fi_size (stored_info k) = fi_size k"
  by (simp_all add: stored_info_def)

lemma contents_stored:
  "plain_info k \<Longrightarrow> contents X cm (stored_info k) =
     (case lookup (disk cm) (to_path (x_enc X) k (cache_dir cm)) of Some (File f) \<Rightarrow> Some (f_data f) | _ \<Rightarrow> None)"
  by (simp add: contents_def)

text \<open>No file appears and none changes its content.\<close>

definition no_new_files :: "cache_manager \<Rightarrow> cache_manager \<Rightarrow> bool" where
  "no_new_files cm cm' \<longleftrightarrow> cache_dir cm' = cache_dir cm \<and>
     (\<forall>p f'. lookup (disk cm') p = Some (File f') \<longrightarrow> (\<exists>f. lookup (disk cm) p = Some (File f) \<and> f_data f = f_data f'))"

lemma no_new_refl [simp]: "cache_dir cm' = cache_dir cm \<Longrightarrow> disk cm' = disk cm \<Longrightarrow> no_new_files cm cm'"
  by (simp add: no_new_files_def)

lemma no_new_trans: "no_new_files a b \<Longrightarrow> no_new_files b c \<Longrightarrow> no_new_files a c"
  unfolding no_new_files_def by metis

lemma no_new_contents: "no_new_files cm cm' \<Longrightarrow> contents X cm' \<subseteq>\<^sub>m contents X cm"
  by (fastforce simp: no_new_files_def map_le_def contents_def split: option.splits node.splits if_splits)

lemma no_new_remove: "no_new_files cm (snd (remove_cache X E info cm))"
  by (auto simp: no_new_files_def remove_cache_def Let_def fs_remove_file_def split: option.splits node.splits if_splits)

lemma no_new_mark: "no_new_files cm (mark_recently_accessed X E info cm)"
  by (auto simp: no_new_files_def mark_recently_accessed_def fs_set_mtime_def split: option.splits node.splits if_splits)

lemma no_new_get: "no_new_files cm (snd (get_file X E info offset cm))"
  using no_new_mark by (auto simp: get_file_def Let_def split: option.split node.split sum.split prod.split)

lemma no_new_verify: "run_verify X E joins t cm = Some (sent, cm') \<Longrightarrow> no_new_files cm cm'"
  using no_new_remove by (auto simp: run_verify_def split: option.splits if_splits)

lemma no_new_clean_files: "clean_files X E dir co files need new cm = (need', new', cm') \<Longrightarrow> no_new_files cm cm'"
proof (induction files arbitrary: need cm)
  case (Cons e files)
  obtain n f where e: "e = (n, f)" by (metis surj_pair)
  from Cons e show ?case
    by (auto split: if_splits option.splits intro: no_new_trans [OF no_new_remove])
qed simp

lemma no_new_clean_round: "clean_round X E need cm = Cleaned need' cm' \<Longrightarrow> no_new_files cm cm'"
proof (erule clean_roundE)
  fix sr s files new cm1
  assume c: "clean_files X E (range_dir (cache_dir cm) sr) (cut_off E (oldest s)) files need (initial_oldest E files) cm = (need', new, cm1)"
    and cm': "cm' = save_state E (set_oldest sr new cm1)"
  from c have "no_new_files cm cm1" by (rule no_new_clean_files)
  moreover have "no_new_files cm1 cm'" by (auto simp: cm' save_state_def set_oldest_def split: option.split)
  ultimately show ?thesis by (rule no_new_trans)
qed

lemma no_new_stopped: "clean_round X E need cm = Stopped cm' \<Longrightarrow> no_new_files cm cm'"
  by (auto simp: clean_round_def split: option.splits prod.splits if_splits)

lemma no_new_clean_loop: "clean_loop X evs limit need cm = Some (Some cm') \<Longrightarrow> no_new_files cm cm'"
proof (induction evs arbitrary: need cm)
  case (Cons ev evs)
  obtain E l where ev: "ev = (E, l)" by (metis surj_pair)
  have l: "no_new_files cm (limit_event l cm)" by (simp add: limit_event_def cm_update_settings_def split: option.split)
  have "no_new_files (limit_event l cm) cm'"
    using Cons no_new_clean_round [of X E need "limit_event l cm"]
    by (auto simp: ev Let_def split: if_splits clean_result.splits intro: no_new_trans no_new_stopped)
  with l show ?case by (rule no_new_trans)
qed simp

lemma no_new_check_cache_usage: "check_cache_usage X E evs cm = Some (Some cm') \<Longrightarrow> no_new_files cm cm'"
proof -
  assume c: "check_cache_usage X E evs cm = Some (Some cm')"
  let ?cm = "cm\<lparr>m_cache_size := total_size cm, m_static_range := int (length (cache_map cm))\<rparr>"
  have "no_new_files cm ?cm" by simp
  moreover have "no_new_files ?cm cm'"
    using c by (auto simp: check_cache_usage_def Let_def split: if_splits intro: no_new_clean_loop)
  ultimately show ?thesis by (rule no_new_trans)
qed

section \<open>Importing a file\<close>

lemma move_or_copyE:
  assumes "move_or_copy E src dst d = Some d'"
  obtains f f' where "lookup d src = Some (File f)" "f_data f' = f_data f" "lookup d' dst = Some (File f')"
    "\<And>p. p \<noteq> dst \<Longrightarrow> p \<noteq> src \<Longrightarrow> lookup d' p = lookup d p" "\<And>g. src \<noteq> dst \<Longrightarrow> lookup d' src = Some g \<Longrightarrow> lookup d src = Some g"
proof -
  from assms obtain f where f: "lookup d src = Some (File f)"
    by (auto simp: move_or_copy_def fs_rename_def fs_copy_def split: option.splits node.splits)
  then consider "d' = insert_map dst (File f) (remove_map src d)" | "d' = insert_map dst (File (f\<lparr>f_mtime := clock E\<rparr>)) d"
    using assms by (auto simp: move_or_copy_def fs_rename_def fs_copy_def split: option.splits if_splits)
  then show thesis by cases (use that [OF f, of f] that [OF f, of "f\<lparr>f_mtime := clock E\<rparr>"] in \<open>auto split: if_splits\<close>)
qed

lemma dirs_added:
  assumes "(if fs_metadata E dir d = None then fs_create_dir_all E dir d else Some d) = Some d'"
  shows "lookup d' p = Some (File f) \<longleftrightarrow> lookup d p = Some (File f)"
  using assms lookup_create_dir_all [of E dir d d' p] by (auto split: if_splits)

lemma import_file_contents:
  assumes "lookup (disk (import_file X E info src cm)) p = Some (File f)"
  shows "lookup (disk cm) p = Some (File f) \<or>
    p = to_path (x_enc X) info (cache_dir cm) \<and> (\<exists>g. lookup (disk cm) src = Some (File g) \<and> f_data f = f_data g)"
proof (cases "move_or_copy E src (to_path (x_enc X) info (cache_dir cm)) (disk cm)")
  case None
  with assms show ?thesis by (simp add: import_file_def Let_def)
next
  case (Some d)
  then have "disk (import_file X E info src cm) = d" by (simp add: import_file_def Let_def split: option.split)
  with assms Some show ?thesis by (metis move_or_copyE node.inject(1) option.inject)
qed

lemma import_frame [simp]: "cache_dir (import_cache X E info src cm) = cache_dir cm"
  by (simp add: import_cache_def import_file_def remove_cache_def Let_def split: option.split)

lemma import_cache_files:
  assumes "lookup (disk (import_cache X E info src cm)) p = Some (File f)"
  shows "(\<exists>g. lookup (disk cm) p = Some (File g) \<and> f_data g = f_data f) \<or>
    p = to_path (x_enc X) info (cache_dir cm) \<and> (\<exists>g. lookup (disk cm) src = Some (File g) \<and> f_data g = f_data f)"
proof -
  let ?dir = "parent (to_path (x_enc X) info (cache_dir cm))"
  let ?mk = "if fs_metadata E ?dir (disk cm) = None then fs_create_dir_all E ?dir (disk cm) else Some (disk cm)"
  show ?thesis
  proof (cases ?mk)
    case None
    with assms show ?thesis by (auto simp: import_cache_def Let_def)
  next
    case (Some d)
    let ?cm = "snd (remove_cache X E info (cm\<lparr>disk := d\<rparr>))"
    have n: "no_new_files (cm\<lparr>disk := d\<rparr>) ?cm" by (rule no_new_remove)
    then have "cache_dir ?cm = cache_dir cm" by (simp add: no_new_files_def)
    moreover have "\<exists>g. lookup (disk cm) q = Some (File g) \<and> f_data g = f_data h" if "lookup (disk ?cm) q = Some (File h)" for q h
      using n that dirs_added [OF Some] by (fastforce simp: no_new_files_def)
    moreover have "import_cache X E info src cm = import_file X E info src ?cm" using Some by (simp add: import_cache_def Let_def)
    ultimately show ?thesis using assms import_file_contents [of X E info src ?cm p f] by auto
  qed
qed

context external
begin

lemma to_path_stored:
  assumes "plain_info k" "plain_info info" "stored_info k = k" "to_path (x_enc X) k dir = to_path (x_enc X) info dir"
  shows "k = stored_info info"
  using assms to_path_inj [of k info dir] by (simp add: plain_info_def)

lemma import_contents:
  assumes "plain_info info" "contents X (import_cache X E info src cm) k = Some d"
  shows "contents X cm k = Some d \<or> k = stored_info info \<and> (\<exists>g. lookup (disk cm) src = Some (File g) \<and> d = f_data g)"
proof -
  from assms(2) obtain f where k: "plain_info k" "stored_info k = k" "d = f_data f"
    and f: "lookup (disk (import_cache X E info src cm)) (to_path (x_enc X) k (cache_dir cm)) = Some (File f)"
    by (auto simp: contents_def split: if_splits option.splits node.splits)
  from import_cache_files [OF f] to_path_stored [OF k(1) assms(1) k(2)] k show ?thesis by (auto simp: contents_def)
qed

text \<open>A temporary file is not one of the cache.\<close>

lemma contents_temp:
  assumes "entry_range X (cache_dir cm) temp = None"
  shows "contents X (cm\<lparr>disk := insert_map temp n (disk cm)\<rparr>) = contents X cm"
proof
  fix k
  have "to_path (x_enc X) k (cache_dir cm) \<noteq> temp" if "plain_info k"
    using entry_range_to_path [OF that, of "cache_dir cm"] assms by auto
  then show "contents X (cm\<lparr>disk := insert_map temp n (disk cm)\<rparr>) k = contents X cm k" by (simp add: contents_def)
qed

lemma finish_download_contents:
  assumes "plain_info info" "entry_range X (cache_dir cm) temp = None"
    and "r = dl_attempts sources X info 0 attempts (new_download proxy)"
    and "contents X (finish_download X E info temp r cm) k = Some d"
  shows "contents X cm k = Some d \<or> x_sha1 X d = fi_hash k \<and> length d = unat (fi_size k)"
proof (cases r)
  case (Verified v)
  have "dl_ok (new_download proxy)" by (simp add: dl_ok_def new_download_def)
  from dl_attempts_verified [OF this] assms(3) Verified have "x_sha1 X v = fi_hash info" "length v = unat (fi_size info)" by metis+
  with Verified assms(4) import_contents [OF assms(1)] contents_temp [OF assms(2)] show ?thesis
    by (fastforce simp: finish_download_def)
qed (use assms in \<open>simp_all add: finish_download_def\<close>)

section \<open>The operations refine those of a map\<close>

lemma remove_contents:
  assumes "plain_info info" "io_ok E"
  shows "contents X (snd (remove_cache X E info cm)) = (contents X cm)(stored_info info := None)"
proof
  fix k
  let ?p = "to_path (x_enc X) info (cache_dir cm)"
  have r: "lookup (disk (snd (remove_cache X E info cm))) p =
      (if p = ?p then (case lookup (disk cm) p of Some (File f) \<Rightarrow> None | n \<Rightarrow> n) else lookup (disk cm) p)" for p
    using assms(2) by (auto simp: remove_cache_def Let_def fs_metadata_def fs_filesize_def fs_remove_file_def io_ok_def
        split: option.splits node.splits)
  have dir: "cache_dir (snd (remove_cache X E info cm)) = cache_dir cm"
    using no_new_remove [of cm X E info] by (simp add: no_new_files_def)
  show "contents X (snd (remove_cache X E info cm)) k = ((contents X cm)(stored_info info := None)) k"
  proof (cases "k = stored_info info")
    case True
    with assms(1) show ?thesis by (simp add: contents_def dir r split: option.split node.split)
  next
    case False
    then have "to_path (x_enc X) k (cache_dir cm) \<noteq> ?p" if "plain_info k" "stored_info k = k"
      using to_path_stored [OF that(1) assms(1) that(2)] by auto
    with False show ?thesis by (simp add: contents_def dir r)
  qed
qed

lemma import_keeps_others:
  assumes "io_ok E" "p \<noteq> to_path (x_enc X) info (cache_dir cm)" "p \<noteq> src" "lookup (disk cm) p = Some (File f)"
  shows "lookup (disk (import_cache X E info src cm)) p = Some (File f)"
proof -
  let ?path = "to_path (x_enc X) info (cache_dir cm)"
  let ?mk = "if fs_metadata E (parent ?path) (disk cm) = None then fs_create_dir_all E (parent ?path) (disk cm) else Some (disk cm)"
  show ?thesis
  proof (cases ?mk)
    case None
    with assms show ?thesis by (auto simp: import_cache_def Let_def)
  next
    case (Some d)
    let ?cm = "snd (remove_cache X E info (cm\<lparr>disk := d\<rparr>))"
    have d: "lookup (disk ?cm) p = Some (File f)"
      using remove_cache_other [of p X info "cm\<lparr>disk := d\<rparr>" E] dirs_added [OF Some, of p f] assms by auto
    have dir: "cache_dir ?cm = cache_dir cm"
      using no_new_remove [of "cm\<lparr>disk := d\<rparr>" X E info] by (simp add: no_new_files_def)
    have "lookup d' p = Some (File f)" if "move_or_copy E src ?path (disk ?cm) = Some d'" for d'
      using that d assms(2,3) by (metis move_or_copyE)
    then have "lookup (disk (import_file X E info src ?cm)) p = Some (File f)"
      using d dir by (auto simp: import_file_def Let_def split: option.split)
    with Some show ?thesis by (simp add: import_cache_def Let_def)
  qed
qed

lemma import_contents_exact:
  assumes "plain_info info" "io_ok E" "lookup (disk cm) src = Some (File f)" "entry_range X (cache_dir cm) src = None"
    and "lookup (disk cm) (to_path (x_enc X) info (cache_dir cm)) \<noteq> Some Dir"
    and "free_dir (parent (to_path (x_enc X) info (cache_dir cm))) (disk cm)"
  shows "contents X (import_cache X E info src cm) = (contents X cm)(stored_info info \<mapsto> f_data f)"
proof
  fix k
  show "contents X (import_cache X E info src cm) k = ((contents X cm)(stored_info info \<mapsto> f_data f)) k"
  proof (cases "k = stored_info info")
    case True
    with assms(1) import_cache_stores [OF assms(1,3,2,4,5,6)] show ?thesis by (simp add: contents_def)
  next
    case False
    have "contents X (import_cache X E info src cm) k = Some d" if k: "contents X cm k = Some d" for d
    proof -
      from k obtain g where g: "plain_info k" "stored_info k = k" "d = f_data g"
        "lookup (disk cm) (to_path (x_enc X) k (cache_dir cm)) = Some (File g)"
        by (auto simp: contents_def split: if_splits option.splits node.splits)
      have "to_path (x_enc X) k (cache_dir cm) \<noteq> to_path (x_enc X) info (cache_dir cm)"
        using to_path_stored [OF g(1) assms(1) g(2)] False by auto
      moreover have "to_path (x_enc X) k (cache_dir cm) \<noteq> src"
        using entry_range_to_path [OF g(1), of "cache_dir cm"] assms(4) by auto
      ultimately show ?thesis using import_keeps_others [OF assms(2) _ _ g(4)] g(1-3) by (simp add: contents_def)
    qed
    moreover have "contents X cm k = Some d" if "contents X (import_cache X E info src cm) k = Some d" for d
      using import_contents [OF assms(1) that] False by simp
    ultimately show ?thesis using False by (cases "contents X cm k") (auto intro: option.exhaust)
  qed
qed

lemma get_file_found:
  assumes "plain_info info" "io_ok E"
  shows "fst (get_file X E info offset cm) = NotFound \<longleftrightarrow>
    (case contents X cm (stored_info info) of None \<Rightarrow> True | Some d \<Rightarrow> length d \<noteq> unat (fi_size info))"
  using assms
  by (auto simp: contents_stored get_file_def fs_metadata_def io_ok_def Let_def split: option.splits node.splits sum.splits prod.splits if_splits)

end

section \<open>What is streamed\<close>

lemma verify_loop_hashes:
  assumes "verify_loop (length data) offset joins (reader_at data pos cap) pos (take pos data) = Some (sent, Some h)" "pos \<le> length data"
  shows "h = data"
  using assms
proof (induction joins arbitrary: pos sent)
  case Nil
  then show ?case by (subst (asm) verify_loop.simps) (simp split: if_splits)
next
  case (Cons j joins)
  show ?case
  proof (cases "pos < length data")
    case False
    with Cons.prems show ?thesis by (subst (asm) verify_loop.simps) simp
  next
    case True
    show ?thesis
    proof (cases "\<exists>n. j = Some (Inr n)")
      case False
      then have "\<exists>err r. reader_read j (reader_at data pos cap) = (Inl err, r)"
        by (cases j) (auto simp: reader_read_def reader_at_def read_file_def split: sum.splits)
      with Cons.prems True show ?thesis by (subst (asm) verify_loop.simps) auto
    next
      case j: True
      then obtain n where n: "j = Some (Inr n)" by blast
      let ?k = "min (min cap (length data - pos)) (max 1 n)"
      have r: "reader_read j (reader_at data pos cap) = (Inr (take ?k (drop pos data)), reader_at data (pos + ?k) cap)"
        by (simp add: n reader_read_def reader_at_def read_file_def Let_def)
      have k: "length (take ?k (drop pos data)) = ?k" "pos + ?k \<le> length data" using True by auto
      from Cons.prems(1) True r k(1) obtain sent'
        where "verify_loop (length data) offset joins (reader_at data (pos + ?k) cap) (pos + ?k) (take (pos + ?k) data) = Some (sent', Some h)"
        by (subst (asm) verify_loop.simps) (auto simp: take_add simp del: length_take)
      from Cons.IH [OF this k(2)] show ?thesis .
    qed
  qed
qed

text \<open>A hit streams the stored content, or hands it to the verifying task.\<close>

lemma get_file_streams:
  assumes "plain_info info" "get_file X E info offset cm = (res, cm')" "res = Full st \<or> res = Partial st"
  obtains d where "contents X cm (stored_info info) = Some d" "length d = unat (fi_size info)"
    "\<And>r. st = ReaderStream r \<Longrightarrow> reader_ok r \<and> (\<exists>n. reader_rest r = drop n d \<and> (offset = None \<longrightarrow> n = 0))"
    "\<And>t. st = TaskStream t \<Longrightarrow> vt_info t = info \<and> vt_size t = length d \<and> vt_reader t = reader_at d 0 (64 * 1024)"
proof -
  let ?path = "to_path (x_enc X) info (cache_dir cm)"
  from assms(2,3) obtain f where f: "lookup (disk cm) ?path = Some (File f)" "length (f_data f) = unat (fi_size info)"
    by (auto simp: get_file_def fs_metadata_def Let_def split: option.splits node.splits if_splits)
  let ?r = "reader_new \<lparr>file_data = f_data f, file_pos = 0\<rparr> (64 * 1024)"
  have at: "?r = reader_at (f_data f) 0 (64 * 1024)" by (simp add: reader_new_def reader_at_def)
  have "(\<exists>n. st = ReaderStream (reader_new \<lparr>file_data = f_data f, file_pos = n\<rparr> (64 * 1024)) \<and> (offset = None \<longrightarrow> n = 0)) \<or>
      (\<exists>t. st = TaskStream t \<and> vt_info t = info \<and> vt_size t = length (f_data f) \<and> vt_reader t = ?r)"
  proof (cases "f_mtime f \<ge> clock E - one_week")
    case True
    have "seek_join E ?path = Some (Inr ()) \<or> (\<exists>err. seek_join E ?path = Some (Inl err))" by (simp add: seek_join_def)
    with True assms(2,3) f show ?thesis
      by (auto simp: get_file_def fs_metadata_def Let_def reader_seek_new reader_seek_failed split: option.splits if_splits)
  next
    case False
    with assms(2,3) f show ?thesis by (auto simp: get_file_def fs_metadata_def Let_def split: option.splits if_splits)
  qed
  then show thesis
  proof
    assume "\<exists>n. st = ReaderStream (reader_new \<lparr>file_data = f_data f, file_pos = n\<rparr> (64 * 1024)) \<and> (offset = None \<longrightarrow> n = 0)"
    then obtain n where "st = ReaderStream (reader_new \<lparr>file_data = f_data f, file_pos = n\<rparr> (64 * 1024))" "offset = None \<longrightarrow> n = 0" by blast
    with f assms(1) show thesis by (intro that [of "f_data f"]) (auto simp: contents_stored)
  next
    assume "\<exists>t. st = TaskStream t \<and> vt_info t = info \<and> vt_size t = length (f_data f) \<and> vt_reader t = ?r"
    with f assms(1) at show thesis by (intro that [of "f_data f"]) (auto simp: contents_stored)
  qed
qed

section \<open>A client that only imports its own downloads\<close>

text \<open>The steps of \<^const>\<open>cm_step\<close>, with the end of a download worker as the only import.\<close>

inductive node_step :: "world \<Rightarrow> world \<Rightarrow> bool" where
  node_remove: "node_step w (w\<lparr>w_cm := snd (remove_cache (w_ext w) E info (w_cm w))\<rparr>)"
| node_download: "plain_info info \<Longrightarrow> entry_range (w_ext w) (cache_dir (w_cm w)) temp = None \<Longrightarrow>
    r = dl_attempts sources (w_ext w) info 0 attempts (new_download proxy) \<Longrightarrow>
    node_step w (w\<lparr>w_cm := finish_download (w_ext w) E info temp r (w_cm w)\<rparr>)"
| node_get: "node_step w (w\<lparr>w_cm := snd (get_file (w_ext w) E info offset (w_cm w))\<rparr>)"
| node_verified: "run_verify (w_ext w) E joins t (w_cm w) = Some (sent, cm) \<Longrightarrow> node_step w (w\<lparr>w_cm := cm\<rparr>)"
| node_settings: "node_step w (w\<lparr>w_cm := cm_update_settings l (w_cm w)\<rparr>)"
| node_save: "node_step w (w\<lparr>w_cm := save_state E (w_cm w)\<rparr>)"
| node_clean: "check_cache_usage (w_ext w) E evs (w_cm w) = Some (Some cm) \<Longrightarrow> node_step w (w\<lparr>w_cm := cm\<rparr>)"

text \<open>The contract of a store: what it holds was there before or meets a condition when it arrives.\<close>

locale content_store = stateful init step inv
  for init :: "'s \<Rightarrow> bool" and step :: "'s \<Rightarrow> 's \<Rightarrow> bool" and inv :: "'s \<Rightarrow> bool" +
  fixes content :: "'s \<Rightarrow> 'k \<Rightarrow> 'd option"
    and good :: "'s \<Rightarrow> 'k \<Rightarrow> 'd \<Rightarrow> bool"
  assumes good_init: "init s \<Longrightarrow> content s k = Some d \<Longrightarrow> good s k d"
    and good_keep: "inv s \<Longrightarrow> step s t \<Longrightarrow> good s k d \<Longrightarrow> good t k d"
    and arrival: "inv s \<Longrightarrow> step s t \<Longrightarrow> content t k = Some d \<Longrightarrow> content s k = Some d \<or> good t k d"
begin

lemma content_good: "reach init step s \<Longrightarrow> content s k = Some d \<Longrightarrow> good s k d"
proof (induction arbitrary: d rule: reach.induct)
  case (reach_step s t)
  then show ?case using reach_inv [OF reach_step.hyps(1)] arrival good_keep by blast
qed (rule good_init)

end

definition world_contents :: "world \<Rightarrow> cache_file_info \<Rightarrow> bytes option" where
  "world_contents w = contents (w_ext w) (w_cm w)"

definition authentic_file :: "world \<Rightarrow> cache_file_info \<Rightarrow> bytes \<Rightarrow> bool" where
  "authentic_file w k d \<longleftrightarrow> x_sha1 (w_ext w) d = fi_hash k \<and> length d = unat (fi_size k)"

definition sound_world :: "world \<Rightarrow> bool" where
  "sound_world w \<longleftrightarrow> external (w_ext w)"

text \<open>A start on an empty cache, or on one that was just verified.\<close>

definition clean_start :: "world \<Rightarrow> bool" where
  "clean_start w \<longleftrightarrow> sound_world w \<and> (\<forall>k d. world_contents w k = Some d \<longrightarrow> authentic_file w k d)"

lemma node_step_keeps:
  assumes "node_step w w'"
  shows "w_ext w' = w_ext w \<and>
    (no_new_files (w_cm w) (w_cm w') \<or>
     (\<exists>info temp E sources attempts proxy. plain_info info \<and> entry_range (w_ext w) (cache_dir (w_cm w)) temp = None \<and>
        w_cm w' = finish_download (w_ext w) E info temp (dl_attempts sources (w_ext w) info 0 attempts (new_download proxy)) (w_cm w)))"
  using assms
proof cases
  case (node_download info temp r sources attempts proxy E)
  then show ?thesis by (simp, blast)
next
  case (node_save E)
  then show ?thesis by (auto simp: save_state_def)
qed (auto simp: cm_update_settings_def intro: no_new_remove no_new_get no_new_verify no_new_check_cache_usage)

interpretation node: content_store clean_start node_step sound_world world_contents authentic_file
proof unfold_locales
  fix w w' k d
  assume sound: "sound_world w" and step: "node_step w w'"
  then have ext: "external (w_ext w)" by (simp add: sound_world_def)
  note keeps = node_step_keeps [OF step]
  then show "sound_world w'" using ext by (simp add: sound_world_def)
  show "authentic_file w' k d" if "authentic_file w k d" using that keeps by (simp add: authentic_file_def)
  assume d: "world_contents w' k = Some d"
  show "world_contents w k = Some d \<or> authentic_file w' k d"
  proof (cases "no_new_files (w_cm w) (w_cm w')")
    case True
    from no_new_contents [OF this, of "w_ext w"] d keeps show ?thesis
      by (metis domI map_le_def world_contents_def)
  next
    case False
    with keeps obtain info temp E sources attempts proxy where "plain_info info"
      "entry_range (w_ext w) (cache_dir (w_cm w)) temp = None" and w': "w_ext w' = w_ext w"
      "w_cm w' = finish_download (w_ext w) E info temp (dl_attempts sources (w_ext w) info 0 attempts (new_download proxy)) (w_cm w)"
      by blast
    from external.finish_download_contents [OF ext this(1,2) refl, of E sources attempts proxy k d] w' d show ?thesis
      by (simp add: world_contents_def authentic_file_def)
  qed
qed (simp_all add: clean_start_def)

section \<open>Properties\<close>

text \<open>
  C17.  The cache manager refines a map from identities to contents: with a working disk, removing a file
  deletes its entry and no other, importing one sets its entry to the imported bytes and changes no other, and a
  request is answered exactly when the entry exists and has the size the identity names.
\<close>

theorem cache_refines_map:
  assumes "external X" "plain_info info" "io_ok E"
    and "lookup (disk cm) src = Some (File f)" "entry_range X (cache_dir cm) src = None"
    and "path = to_path (x_enc X) info (cache_dir cm)" "lookup (disk cm) path \<noteq> Some Dir" "free_dir (parent path) (disk cm)"
  shows "contents X (snd (remove_cache X E info cm)) = (contents X cm)(stored_info info := None) \<and>
    contents X (import_cache X E info src cm) = (contents X cm)(stored_info info \<mapsto> f_data f) \<and>
    (fst (get_file X E info offset cm) = NotFound \<longleftrightarrow>
       (case contents X cm (stored_info info) of None \<Rightarrow> True | Some d \<Rightarrow> length d \<noteq> unat (fi_size info)))"
  using assms(4-8) external.remove_contents [OF assms(1-3)] external.import_contents_exact [OF assms(1-3)]
    external.get_file_found [OF assms(1-3)] by simp

theorem cache_refines_map_witness:
  "contents sample_ext (import_cache sample_ext sample_env sample_info ''t'' (w_cm import_world)) =
     (contents sample_ext (w_cm import_world))(stored_info sample_info \<mapsto> f_data old_file)"
proof -
  have "free_dir (parent sample_path) (disk (w_cm import_world))"
    by (simp add: free_dir_def sample_dir_eq ancestors_def upt_conv_Cons)
  then show ?thesis
    using cache_refines_map [OF sx.external_axioms plain_sample_info, of sample_env "w_cm import_world" "''t''" old_file sample_path]
    by (simp add: sample_path_def [symmetric])
qed


lemma plain_download_info [simp]: "plain_info download_info"
  by (simp add: plain_info_def wf_info_def download_info_def checksum_def Let_def proper_type_def file_type_from_def)

definition node_world :: world where
  "node_world = \<lparr>w_ext = sample_ext, w_size = real_size sample_env,
     w_cm = sample_manager [(to_path hex_encode download_info ''c'', File \<lparr>f_data = [1, 2, 3, 4], f_mtime = from_unix_time 1999999999\<rparr>)] []\<rparr>"

lemma node_world_clean: "clean_start node_world"
proof -
  have "authentic_file node_world k d" if "world_contents node_world k = Some d" for k d
  proof -
    from that have k: "plain_info k" "stored_info k = k" "to_path hex_encode k ''c'' = to_path hex_encode download_info ''c''" "d = [1, 2, 3, 4]"
      by (auto simp: world_contents_def contents_def node_world_def sample_manager_def split: if_splits option.splits node.splits)
    from sx.to_path_stored [of k download_info "''c''"] k have "k = stored_info download_info" by simp
    with k(4) show ?thesis by (simp add: authentic_file_def node_world_def) (simp add: download_info_def)
  qed
  then show ?thesis by (simp add: clean_start_def sound_world_def node_world_def sx.external_axioms)
qed


end
