(* ===== verification/App.thy ===== *)
theory App
  imports Connections CacheSpec
begin

text \<open>
  \<^verbatim>\<open>src/route/mod.rs\<close>, \<^verbatim>\<open>register_route\<close>, and the service of \<^verbatim>\<open>Server::new\<close> as a whole: a request is matched against the
  routes, its parameters are decoded, its handler runs on the state of the client, and the layers add their headers.
  Percent decoding, the text of a rejection and the text of the metrics are parameters.  Shown: every response is well
  formed, and what a request can change.
\<close>

section \<open>The router\<close>

record app_ext = route_ext +
  x_pct :: "string \<Rightarrow> string option"
  x_reject :: "string list \<Rightarrow> string"
  x_metrics :: string

record http_request =
  rq_method :: string
  rq_path :: string
  rq_addr :: string
  rq_headers :: hath_headers

datatype route =
  FaviconRoute | RobotsRoute | MetricsRoute | Fallback
| ServercmdRoute string string string string | SpeedtestRoute string string string string | HathRoute string string string

text \<open>A parameter stands for one segment and the last one of \<^verbatim>\<open>/h/\<close> for all that remain; neither is empty.\<close>

definition match_route :: "bool \<Rightarrow> string \<Rightarrow> route" where
  "match_route metrics path =
     (case split_on (CHR ''/'') path of
        [] # rest \<Rightarrow>
          (case rest of
             [a] \<Rightarrow> if a = ''favicon.ico'' then FaviconRoute
                    else if a = ''robots.txt'' then RobotsRoute
                    else if a = ''metrics'' \<and> metrics then MetricsRoute
                    else Fallback
           | a # p1 # p2 # p3 # ps \<Rightarrow>
               if a = ''h'' \<and> p1 \<noteq> [] \<and> p2 \<noteq> [] \<and> (p3 \<noteq> [] \<or> ps \<noteq> []) then HathRoute p1 p2 (join_with ''/'' (p3 # ps))
               else (case ps of
                       [p4] \<Rightarrow>
                         if [] \<in> {p1, p2, p3, p4} then Fallback
                         else if a = ''servercmd'' then ServercmdRoute p1 p2 p3 p4
                         else if a = ''t'' then SpeedtestRoute p1 p2 p3 p4
                         else Fallback
                     | _ \<Rightarrow> Fallback)
           | _ \<Rightarrow> Fallback)
      | _ \<Rightarrow> Fallback)"

definition bad_request :: "('a) app_ext_scheme \<Rightarrow> string list \<Rightarrow> http_response" where
  "bad_request X params =
     \<lparr>h_status = 400, h_headers = [(''Content-Type'', ''text/plain; charset=utf-8'')], h_body = TextBody (x_reject X params)\<rparr>"

definition method_not_allowed :: http_response where
  "method_not_allowed = \<lparr>h_status = 405, h_headers = [(''Allow'', ''GET,HEAD'')], h_body = EmptyBody\<rparr>"

definition metrics_response :: "('a) app_ext_scheme \<Rightarrow> http_response" where
  "metrics_response X =
     \<lparr>h_status = 200, h_headers = [(''Content-Type'', ''application/openmetrics-text; version=1.0.0; charset=utf-8'')],
      h_body = TextBody (x_metrics X)\<rparr>"

text \<open>The \<^verbatim>\<open>Path\<close> extractor: all parameters are decoded, then read at their types.\<close>

definition path_params :: "('a) app_ext_scheme \<Rightarrow> string list \<Rightarrow> string list option" where
  "path_params X ps = those (map (x_pct X) ps)"

definition run_route :: "('a) app_ext_scheme \<Rightarrow> io_env \<Rightarrow> rpc_client \<Rightarrow> (nat \<times> (nat \<times> nat) option list) list \<Rightarrow> http_request \<Rightarrow> route
    \<Rightarrow> cache_manager \<Rightarrow> hath_result \<times> cache_manager \<times> command list" where
  "run_route X E c threads rq rt cm =
     (case rt of
        FaviconRoute \<Rightarrow> (Respond favicon, cm, [])
      | RobotsRoute \<Rightarrow> (Respond robots, cm, [])
      | MetricsRoute \<Rightarrow> (Respond (metrics_response X), cm, [])
      | Fallback \<Rightarrow> (Respond default_route, cm, [])
      | ServercmdRoute p1 p2 p3 p4 \<Rightarrow>
          (case path_params X [p1, p2, p3, p4] of
             Some [cmd, additional, time, hash] \<Rightarrow>
               (case parse_sint 64 time of
                  None \<Rightarrow> (Respond (bad_request X [p1, p2, p3, p4]), cm, [])
                | Some t \<Rightarrow>
                    (case servercmd X (clock E) c (rq_addr rq) cmd additional t hash threads of
                       (r, cmds) \<Rightarrow> (Respond r, cm, cmds)))
           | _ \<Rightarrow> (Respond (bad_request X [p1, p2, p3, p4]), cm, []))
      | SpeedtestRoute p1 p2 p3 p4 \<Rightarrow>
          (case path_params X [p1, p2, p3, p4] of
             Some [sz, time, hash, random] \<Rightarrow>
               (case (parse_u64 sz, parse_sint 64 time) of
                  (Some n, Some t) \<Rightarrow> (Respond (speedtest X (clock E) c n t hash), cm, [])
                | _ \<Rightarrow> (Respond (bad_request X [p1, p2, p3, p4]), cm, []))
           | _ \<Rightarrow> (Respond (bad_request X [p1, p2, p3, p4]), cm, []))
      | HathRoute p1 p2 p3 \<Rightarrow>
          (case path_params X [p1, p2, p3] of
             Some [file_id, additional, name] \<Rightarrow>
               (case hath X E c file_id additional name (rq_headers rq) cm of (r, cm) \<Rightarrow> (r, cm, []))
           | _ \<Rightarrow> (Respond (bad_request X [p1, p2, p3]), cm, [])))"

text \<open>Only \<^verbatim>\<open>GET\<close> and \<^verbatim>\<open>HEAD\<close> are routed; the layers see every response.\<close>

definition app :: "('a) app_ext_scheme \<Rightarrow> io_env \<Rightarrow> string \<Rightarrow> bool \<Rightarrow> 'k server \<Rightarrow> rpc_client \<Rightarrow> (nat \<times> (nat \<times> nat) option list) list
    \<Rightarrow> http_request \<Rightarrow> cache_manager \<Rightarrow> hath_result \<times> cache_manager \<times> command list" where
  "app X E name tcp sv c threads rq cm =
     (case (if rq_method rq = ''GET'' \<or> rq_method rq = ''HEAD''
            then run_route X E c threads rq (match_route (sv_metrics sv) (rq_path rq)) cm
            else (Respond method_not_allowed, cm, [])) of
        (Respond r, cm, cmds) \<Rightarrow> (Respond (layer_response name tcp sv r), cm, cmds)
      | (miss, cm, cmds) \<Rightarrow> (miss, cm, cmds))"

section \<open>Sizes of bodies\<close>

definition stream_size :: "file_stream \<Rightarrow> nat" where
  "stream_size st =
     (case st of
        ReaderStream r \<Rightarrow> length (reader_rest r)
      | TaskStream t \<Rightarrow> vt_size t - (case vt_offset t of None \<Rightarrow> 0 | Some o' \<Rightarrow> o'))"

definition body_size :: "http_body \<Rightarrow> nat" where
  "body_size b =
     (case b of
        EmptyBody \<Rightarrow> 0 | TextBody s \<Rightarrow> length s | StreamBody st \<Rightarrow> stream_size st
      | RangeBody n st \<Rightarrow> min n (stream_size st) | RandomBody n \<Rightarrow> n | FollowBody n \<Rightarrow> n)"

definition response_ok :: "http_response \<Rightarrow> bool" where
  "response_ok r \<longleftrightarrow>
     h_status r \<in> {200, 206, 301, 304, 400, 403, 404, 405} \<and> distinct (map fst (h_headers r)) \<and>
     ''Server'' \<notin> fst ` set (h_headers r) \<and> ''Alt-Svc'' \<notin> fst ` set (h_headers r) \<and>
     (\<forall>v. (''Content-Length'', v) \<in> set (h_headers r) \<longrightarrow> h_status r = 304 \<or> v = show_nat (body_size (h_body r)))"

lemma get_file_size:
  assumes "get_file X E info offset cm = (res, cm')"
  shows "res = Full st \<Longrightarrow> stream_size st = unat (fi_size info)"
    and "res = Partial st \<Longrightarrow> \<exists>o'. offset = Some o' \<and> stream_size st = unat (fi_size info) - o'"
proof -
  let ?path = "to_path (x_enc X) info (cache_dir cm)"
  have join: "seek_join E ?path = Some (Inr ()) \<or> (\<exists>err. seek_join E ?path = Some (Inl err))" by (simp add: seek_join_def)
  show "stream_size st = unat (fi_size info)" if "res = Full st"
    using assms that join
    by (auto simp: get_file_def stream_size_def fs_metadata_def Let_def reader_seek_new reader_seek_failed
        split: option.splits node.splits if_splits)
  show "\<exists>o'. offset = Some o' \<and> stream_size st = unat (fi_size info) - o'" if "res = Partial st"
    using assms that join
    by (auto simp: get_file_def stream_size_def fs_metadata_def Let_def reader_seek_new reader_seek_failed
        split: option.splits node.splits if_splits)
qed

section \<open>Every handler answers properly\<close>

lemma response_ok_simple [simp]:
  "response_ok forbidden" "response_ok not_found" "response_ok default_route" "response_ok favicon" "response_ok robots"
  "response_ok (text_response s)" "response_ok (random_response n)" "response_ok method_not_allowed"
  "response_ok (bad_request X ps)" "response_ok (metrics_response X)"
  by (simp_all add: response_ok_def forbidden_def not_found_def default_route_def favicon_def robots_def text_response_def
      random_response_def method_not_allowed_def bad_request_def metrics_response_def body_size_def)

lemma response_ok_empty [simp]: "st \<in> {200, 400} \<Longrightarrow> response_ok (empty_response st)"
  by (auto simp: response_ok_def empty_response_def)

lemma servercmd_ok: "response_ok (fst (servercmd X now c ip command additional time hash threads))"
  by (simp add: servercmd_def Let_def split: option.split)

lemma speedtest_ok: "response_ok (speedtest X now c sz time hash)"
  by (simp add: speedtest_def)

lemma hit_response_ok:
  assumes "case rg of None \<Rightarrow> stream_size st = unat (fi_size info) | Some (a, b) \<Rightarrow> b - a + 1 \<le> stream_size st"
  shows "response_ok (hit_response X info name rg st)"
  using assms by (auto simp: response_ok_def hit_response_def base_headers_def body_size_def Let_def split: option.splits)

text \<open>The parser of range headers returns ranges inside the file.\<close>

definition ranges_valid :: "('a) route_ext_scheme \<Rightarrow> bool" where
  "ranges_valid X \<longleftrightarrow> (\<forall>h n rs. x_ranges X h n = Some rs \<longrightarrow> (\<forall>(a, b) \<in> set rs. a \<le> b \<and> b < n))"

lemma the_range_valid: "ranges_valid X \<Longrightarrow> the_range X hs etag n = Some (a, b) \<Longrightarrow> a \<le> b \<and> b < n"
proof -
  assume v: "ranges_valid X" and r: "the_range X hs etag n = Some (a, b)"
  from r obtain h rs where rs: "x_ranges X h n = Some rs" "(case rs of [r] \<Rightarrow> Some r | _ \<Rightarrow> None) = Some (a, b)"
    by (auto simp: the_range_def bind_eq_Some_conv split: if_splits)
  then have "(a, b) \<in> set rs" by (cases rs) (auto split: list.splits)
  with v rs(1) show ?thesis by (fastforce simp: ranges_valid_def)
qed

lemma hath_ok:
  assumes "ranges_valid X" "hath X E c file_id additional name hs cm = (Respond r, cm')"
  shows "response_ok r"
proof (cases "keystamp_ok X (clock E) c file_id (get_or ''keystamp'' (parse_additional additional) [])")
  case False
  with assms(2) show ?thesis by (auto simp: hath_def Let_def)
next
  case key: True
  show ?thesis
  proof (cases "from_file_id (x_dec X) file_id")
    case None
    with key assms(2) show ?thesis by (auto simp: hath_def Let_def)
  next
    case (Some info)
    let ?rg = "the_range X hs (etag_of X info) (unat (fi_size info))"
    obtain res cm1 where g: "get_file (extern.truncate X) E info (map_option fst ?rg) cm = (res, cm1)" by fastforce
    note sz = get_file_size [OF g]
    have rg: "a \<le> b \<and> b < unat (fi_size info)" if "?rg = Some (a, b)" for a b using the_range_valid [OF assms(1) that] .
    show ?thesis
    proof (cases "hh_if_none_match hs = Some (etag_of X info)")
      case True
      with key Some assms(2) show ?thesis by (auto simp: hath_def Let_def response_ok_def)
    next
      case False
      with key Some g assms(2) consider (full) st where "res = Full st" "r = hit_response X info name
          (case ?rg of Some (a, b) \<Rightarrow> if a \<noteq> 0 then None else ?rg | None \<Rightarrow> None) st"
        | (part) st where "res = Partial st" "r = hit_response X info name ?rg st"
        by (cases res) (auto simp: hath_def Let_def)
      then show ?thesis
      proof cases
        case full
        with sz(1) [OF full(1)] rg show ?thesis by (auto intro!: hit_response_ok split: option.split)
      next
        case part
        with sz(2) [OF part(1)] rg show ?thesis by (auto intro!: hit_response_ok split: option.split)
      qed
    qed
  qed
qed

lemma run_route_ok:
  assumes "ranges_valid X" "run_route X E c threads rq rt cm = (Respond r, cm', cmds)"
  shows "response_ok r"
  using assms(2) hath_ok [OF assms(1), of E c] servercmd_ok [of X "clock E" c "rq_addr rq"] speedtest_ok [of X "clock E" c]
  by (cases rt) (auto simp: run_route_def split: option.splits list.splits prod.splits; metis fst_conv)+

lemma layer_response_ok:
  assumes "response_ok r"
  shows "distinct (map fst (h_headers (layer_response name tcp sv r)))"
    and "(''Content-Length'', v) \<in> set (h_headers (layer_response name tcp sv r)) \<longleftrightarrow> (''Content-Length'', v) \<in> set (h_headers r)"
    and "''Server'' \<in> fst ` set (h_headers (layer_response name tcp sv r)) \<longleftrightarrow> sv_server_header sv"
    and "h_status (layer_response name tcp sv r) = h_status r" "h_body (layer_response name tcp sv r) = h_body r"
proof -
  have "distinct (map fst (filter P xs))" if "distinct (map fst xs)" for P and xs :: "(string \<times> string) list"
    using that by (induction xs) auto
  with assms show "distinct (map fst (h_headers (layer_response name tcp sv r)))"
    by (auto simp: response_ok_def layer_response_def default_headers_def Let_def split: option.split)
qed (use assms in \<open>auto simp: response_ok_def layer_response_def default_headers_def Let_def split: option.split\<close>)

lemma run_route_effects:
  assumes "run_route X E c threads rq rt cm = (res, cm', cmds)"
  shows "no_new_files cm cm' \<and> (cmds \<noteq> [] \<longrightarrow> is_vaild_rpc_server (rq_addr rq) c)"
proof -
  have h: "no_new_files cm (snd (hath X E c f a n (rq_headers rq) cm))" for f a n
  proof -
    have g: "no_new_files cm cm''" if "get_file Y E info off cm = (res, cm'')" for Y info off res cm''
      using no_new_get [of cm Y E info off] that by simp
    show ?thesis by (auto simp: hath_def Let_def split: option.split prod.split cache_file_result.split dest: g)
  qed
  have "snd (servercmd X (clock E) c (rq_addr rq) cmd add t hash threads) = []" if "\<not> is_vaild_rpc_server (rq_addr rq) c" for cmd add t hash
    using that by (simp add: servercmd_def)
  with assms show ?thesis
    using h by (cases rt) (auto simp: run_route_def split: option.splits list.splits prod.splits; metis snd_conv)+
qed

section \<open>Properties\<close>


definition sample_app_ext :: app_ext where
  "sample_app_ext = route_ext.extend sample_route_ext \<lparr>x_pct = Some, x_reject = (\<lambda>_. []), x_metrics = []\<rparr>"

lemma sample_app_ext_simps [simp]:
  "x_enc sample_app_ext = hex_encode" "x_dec sample_app_ext = hex_decode_to_array" "x_sha1 sample_app_ext = checksum"
  "x_time_ok sample_app_ext t" "x_ipv6 sample_app_ext s = None" "extern.truncate sample_app_ext = sample_ext"
  "x_pct sample_app_ext = Some"
  by (simp_all add: sample_app_ext_def sample_route_ext_def route_ext.extend_def rpc_ext.extend_def route_ext.fields_def sample_rpc_ext_def
      extern.extend_def rpc_ext.fields_def sample_ext_def extern.truncate_def)


end
