(* ===== verification/CacheStart.thy ===== *)
theory CacheStart
  imports CacheSpec
begin

text \<open>
  What a start with a verifying scan leaves behind: \<^const>\<open>cm_new\<close> on any tidy disk, with directories of ranges that
  are no longer assigned, files of the wrong size and files with the wrong content, ends with books that match the
  disk and with authentic files only.  From there the invariants of \<open>CacheLife\<close> and \<open>CacheSpec\<close> carry the client.
\<close>

section \<open>Smaller disks\<close>

definition sub_disk :: "disk \<Rightarrow> disk \<Rightarrow> bool" where
  "sub_disk d' d \<longleftrightarrow> (\<forall>p n. lookup d' p = Some n \<longrightarrow> lookup d p = Some n)"

lemma sub_disk_refl [simp]: "sub_disk d d"
  by (simp add: sub_disk_def)

lemma sub_disk_trans: "sub_disk a b \<Longrightarrow> sub_disk b c \<Longrightarrow> sub_disk a c"
  by (simp add: sub_disk_def)

lemma sub_disk_remove [simp]: "sub_disk (remove_map p d) d"
  by (simp add: sub_disk_def)

text \<open>Below the cache directory whatever exists lies in a directory.\<close>

definition tree_disk :: "path \<Rightarrow> disk \<Rightarrow> bool" where
  "tree_disk root d \<longleftrightarrow>
     (\<forall>q n nd. lookup d (q @ CHR ''/'' # n) = Some nd \<longrightarrow> CHR ''/'' \<notin> set n \<longrightarrow> starts_with q root \<longrightarrow> lookup d q = Some Dir)"

lemma tree_disk_remove_file:
  assumes "tree_disk root d" "lookup d p = Some (File f)"
  shows "tree_disk root (remove_map p d)"
proof -
  have "q \<noteq> p" if "lookup d q = Some Dir" for q using assms(2) that by auto
  with assms(1) show ?thesis unfolding tree_disk_def by (metis lookup_remove option.distinct(1))
qed

text \<open>What \<open>f\<close> does to a disk is to delete.\<close>

definition shrinks :: "path \<Rightarrow> disk \<Rightarrow> disk \<Rightarrow> bool" where
  "shrinks root d d' \<longleftrightarrow> sub_disk d' d \<and> length d' \<le> length d \<and> (wf_map d \<longrightarrow> wf_map d') \<and> (tree_disk root d \<longrightarrow> wf_map d \<longrightarrow> tree_disk root d')"

lemma shrinks_refl [simp]: "shrinks root d d"
  by (simp add: shrinks_def)

lemma shrinks_trans: "shrinks root a b \<Longrightarrow> shrinks root b c \<Longrightarrow> shrinks root a c"
  unfolding shrinks_def using sub_disk_trans [of c b a] by linarith

lemma length_remove_map: "length (remove_map p d) \<le> length d"
  by (induction d) auto

lemma shrinks_try_remove [simp]: "shrinks root d (try_remove E p d)"
  by (auto simp: try_remove_def fs_remove_file_def shrinks_def length_remove_map tree_disk_remove_file
      split: option.split node.split)

lemma retained: "wf_map d \<Longrightarrow> lookup (retain P d) p = Some nd \<longleftrightarrow> lookup d p = Some nd \<and> P p nd"
  by (auto simp: lookup_retain split: option.split)

lemma shrinks_remove_dir: "shrinks root d (case fs_remove_dir_all E q d of Some d' \<Rightarrow> d' | None \<Rightarrow> d)"
proof -
  let ?keep = "\<lambda>p _. p \<noteq> q \<and> \<not> starts_with p (q @ ''/'')"
  have "shrinks root d (retain ?keep d)"
  proof -
    have "sub_disk (retain ?keep d) d"
    proof -
      have "lookup (filter (\<lambda>(k, v). k \<noteq> q \<and> \<not> starts_with k (q @ ''/'')) d) p =
          (if p \<noteq> q \<and> \<not> starts_with p (q @ ''/'') then lookup d p else None)" for p
        by (induction d) auto
      then show ?thesis by (simp add: sub_disk_def retain_def)
    qed
    moreover have "tree_disk root (retain ?keep d)" if "tree_disk root d" "wf_map d"
    proof -
      have keep: "r \<noteq> q \<and> \<not> starts_with r (q @ ''/'')" if "r @ CHR ''/'' # n \<noteq> q \<and> \<not> starts_with (r @ CHR ''/'' # n) (q @ ''/'')" for r n
        using that by (auto simp: starts_with_iff)
      show ?thesis
        unfolding tree_disk_def
      proof (intro allI impI)
        fix r n nd
        assume l: "lookup (retain ?keep d) (r @ CHR ''/'' # n) = Some nd" and n: "CHR ''/'' \<notin> set n" "starts_with r root"
        note lk = retained [OF that(2), of ?keep]
        from l lk have "lookup d (r @ CHR ''/'' # n) = Some nd" and k: "?keep (r @ CHR ''/'' # n) nd" by blast+
        with that(1) n have "lookup d r = Some Dir" unfolding tree_disk_def by blast
        moreover from keep [OF k] have "?keep r Dir" .
        ultimately show "lookup (retain ?keep d) r = Some Dir" using lk by blast
      qed
    qed
    ultimately show ?thesis by (simp add: shrinks_def) (simp add: retain_def)
  qed
  then show ?thesis by (simp add: fs_remove_dir_all_def)
qed

lemma removed_dir:
  "io_ok E \<Longrightarrow> wf_map d \<Longrightarrow> lookup d q = Some Dir \<Longrightarrow>
   lookup (case fs_remove_dir_all E q d of Some d' \<Rightarrow> d' | None \<Rightarrow> d) q = None"
  by (simp add: fs_remove_dir_all_def io_ok_def lookup_retain)

section \<open>The directories a scan finds\<close>

lemma push_two:
  assumes "proper_dir root" "CHR ''/'' \<notin> set l1" "l1 \<noteq> []" "CHR ''/'' \<notin> set l2"
  shows "push_path (push_path root l1) l2 = root @ CHR ''/'' # l1 @ CHR ''/'' # l2"
  using assms proper_dir_push [OF assms(1-3)] by (simp add: push_path_name)

lemma two_names:
  assumes "root @ CHR ''/'' # a @ CHR ''/'' # b = root @ CHR ''/'' # a' @ CHR ''/'' # b'"
    and "CHR ''/'' \<notin> set a" "CHR ''/'' \<notin> set a'"
  shows "a = a'" "b = b'"
  using slash_free_prefix [of a b a' b'] assms by simp_all

text \<open>The directories found below \<open>names\<close> on the disk \<open>d\<close>: each is the one of an assigned range, none comes twice, and
  those that were not found are gone.\<close>

definition found :: "string list \<Rightarrow> path \<Rightarrow> (string \<Rightarrow> string \<Rightarrow> bool) \<Rightarrow> disk \<Rightarrow> disk \<Rightarrow> dirs \<Rightarrow> bool" where
  "found ranges root names d d' new \<longleftrightarrow>
     shrinks root d d' \<and> distinct (map snd new) \<and>
     (\<forall>sr q. (sr, q) \<in> set new \<longrightarrow> (\<exists>a b. q = root @ CHR ''/'' # a @ CHR ''/'' # b \<and> names a b \<and> CHR ''/'' \<notin> set a \<and> CHR ''/'' \<notin> set b \<and>
        find (\<lambda>sr. eq_ignore_ascii_case (a @ b) sr) ranges = Some sr \<and> lookup d q = Some Dir)) \<and>
     (\<forall>a b. names a b \<longrightarrow> lookup d' (root @ CHR ''/'' # a @ CHR ''/'' # b) = Some Dir \<longrightarrow>
        root @ CHR ''/'' # a @ CHR ''/'' # b \<in> snd ` set new)"

lemma distinct_list_dir: "wf_map d \<Longrightarrow> distinct (map fst (list_dir dir d))"
proof (induction d)
  case (Cons e d)
  have "dir @ ''/'' @ n = fst e" if "dir_entry dir e = Some (n, nd)" for n nd
    using that by (auto simp: dir_entry_def Let_def starts_with_iff split: if_splits)
  moreover have "fst e \<notin> fst ` set d" using Cons.prems by (simp add: wf_map_def)
  ultimately have "n \<notin> fst ` set (list_dir dir d)" if "dir_entry dir e = Some (n, nd)" for n nd
    using that by (auto simp: in_list_dir) (metis fst_conv image_eqI)
  with Cons show ?case
    by (auto simp: list_dir_def map_filter_simps wf_map_def split: option.split)
qed (simp add: list_dir_def map_filter_simps)

lemma found_names:
  assumes "found ranges root names d d' new" "\<And>a b. names a b \<Longrightarrow> names' a b"
    and "\<And>a b. names' a b \<Longrightarrow> lookup d' (root @ CHR ''/'' # a @ CHR ''/'' # b) = Some Dir \<Longrightarrow> names a b"
  shows "found ranges root names' d d' new"
  using assms unfolding found_def by blast

lemma found_shrinks: "found ranges root names d d' new \<Longrightarrow> shrinks root d d'"
  by (simp add: found_def)

lemma shrinks_dir: "shrinks root d d' \<Longrightarrow> lookup d' q = Some Dir \<Longrightarrow> lookup d q = Some Dir"
  by (simp add: shrinks_def sub_disk_def)

text \<open>Two searches one after the other, below different names.\<close>

lemma found_append:
  assumes "found ranges root names d d1 new" "found ranges root names' d1 d2 new'"
    and "\<And>a b a' b'. names a b \<Longrightarrow> names' a' b' \<Longrightarrow> a \<noteq> a' \<or> b \<noteq> b'"
  shows "found ranges root (\<lambda>a b. names a b \<or> names' a b) d d2 (new @ new')"
proof -
  note s1 = found_shrinks [OF assms(1)] and s2 = found_shrinks [OF assms(2)]
  have "distinct (map snd (new @ new'))"
  proof -
    have False if "q \<in> snd ` set new" "q \<in> snd ` set new'" for q
    proof -
      from that(1) assms(1) obtain a b where q: "q = root @ CHR ''/'' # a @ CHR ''/'' # b" "names a b" "CHR ''/'' \<notin> set a"
        unfolding found_def by fastforce
      from that(2) assms(2) obtain a' b' where q': "q = root @ CHR ''/'' # a' @ CHR ''/'' # b'" "names' a' b'" "CHR ''/'' \<notin> set a'"
        unfolding found_def by fastforce
      from two_names [of root a b a' b'] q q' assms(3) [OF q(2) q'(2)] show False by auto
    qed
    with assms(1,2) show ?thesis by (auto simp: found_def)
  qed
  moreover have "\<exists>a b. q = root @ CHR ''/'' # a @ CHR ''/'' # b \<and> (names a b \<or> names' a b) \<and> CHR ''/'' \<notin> set a \<and> CHR ''/'' \<notin> set b \<and>
      find (\<lambda>sr. eq_ignore_ascii_case (a @ b) sr) ranges = Some sr \<and> lookup d q = Some Dir"
    if "(sr, q) \<in> set (new @ new')" for sr q
  proof (cases "(sr, q) \<in> set new")
    case True
    with assms(1) obtain a b where "q = root @ CHR ''/'' # a @ CHR ''/'' # b" "names a b" "CHR ''/'' \<notin> set a" "CHR ''/'' \<notin> set b"
      "find (\<lambda>sr. eq_ignore_ascii_case (a @ b) sr) ranges = Some sr" "lookup d q = Some Dir"
      unfolding found_def by fastforce
    then show ?thesis by blast
  next
    case False
    with that have "(sr, q) \<in> set new'" by simp
    with assms(2) obtain a b where "q = root @ CHR ''/'' # a @ CHR ''/'' # b" "names' a b" "CHR ''/'' \<notin> set a" "CHR ''/'' \<notin> set b"
      "find (\<lambda>sr. eq_ignore_ascii_case (a @ b) sr) ranges = Some sr" "lookup d1 q = Some Dir"
      unfolding found_def by fastforce
    with shrinks_dir [OF s1] show ?thesis by blast
  qed
  moreover have "root @ CHR ''/'' # a @ CHR ''/'' # b \<in> snd ` set (new @ new')"
    if "names a b \<or> names' a b" "lookup d2 (root @ CHR ''/'' # a @ CHR ''/'' # b) = Some Dir" for a b
    using that assms(1,2) shrinks_dir [OF s2 that(2)] unfolding found_def set_append image_Un by blast
  ultimately show ?thesis using shrinks_trans [OF s1 s2] unfolding found_def by blast
qed

lemma scan_l2_found:
  assumes "scan_l2 E ranges l1 (push_path root l1) entries dirs d = (Inr dirs', d')" "io_ok E" "wf_map d"
    and "proper_dir root" "CHR ''/'' \<notin> set l1" "l1 \<noteq> []" "slash_free entries" "distinct (map fst entries)"
  obtains new where "dirs' = dirs @ new" "found ranges root (\<lambda>a b. a = l1 \<and> b \<in> fst ` set entries) d d' new"
  using assms(1,3,7,8)
proof (induction entries arbitrary: dirs d thesis)
  case Nil
  then show ?case by (simp add: found_def)
next
  case (Cons e entries)
  obtain l2 nd where e: "e = (l2, nd)" by (metis surj_pair)
  let ?p2 = "root @ CHR ''/'' # l1 @ CHR ''/'' # l2"
  let ?d = "case fs_remove_dir_all E ?p2 d of Some d \<Rightarrow> d | None \<Rightarrow> d"
  have sf: "CHR ''/'' \<notin> set l2" "slash_free entries" "distinct (map fst entries)" "l2 \<notin> fst ` set entries"
    using Cons.prems e by (auto simp: slash_free_def)
  have p2: "push_path (push_path root l1) l2 = ?p2" by (rule push_two [OF assms(4-6) sf(1)])
  have one: "found ranges root (\<lambda>a b. a = l1 \<and> b = l2) d d1 new1"
    if "\<not> is_dir E ?p2 d \<and> d1 = d \<and> new1 = [] \<or>
      is_dir E ?p2 d \<and> d1 = d \<and> (\<exists>sr. find (\<lambda>sr. eq_ignore_ascii_case (l1 @ l2) sr) ranges = Some sr \<and> new1 = [(sr, ?p2)]) \<or>
      is_dir E ?p2 d \<and> d1 = ?d \<and> new1 = []" for d1 new1
  proof -
    have "is_dir E ?p2 d \<longleftrightarrow> lookup d ?p2 = Some Dir" using assms(2) by (simp add: is_dir_def fs_metadata_def io_ok_def)
    with that show ?thesis
      using shrinks_remove_dir [of root d E ?p2] removed_dir [OF assms(2) Cons.prems(3), of ?p2] assms(5) sf(1)
      by (auto simp: found_def)
  qed
  have step: thesis if one1: "found ranges root (\<lambda>a b. a = l1 \<and> b = l2) d d1 new1"
    and rest: "scan_l2 E ranges l1 (push_path root l1) entries (dirs @ new1) d1 = (Inr dirs', d')" for d1 new1
  proof -
    have "wf_map d1" using found_shrinks [OF one1] Cons.prems(3) by (simp add: shrinks_def)
    from Cons.IH [OF _ rest this sf(2,3)] obtain new where new: "dirs' = (dirs @ new1) @ new"
      "found ranges root (\<lambda>a b. a = l1 \<and> b \<in> fst ` set entries) d1 d' new" by blast
    have "found ranges root (\<lambda>a b. (a = l1 \<and> b = l2) \<or> (a = l1 \<and> b \<in> fst ` set entries)) d d' (new1 @ new)"
      using sf(4) by (intro found_append [OF one1 new(2)]) auto
    then have "found ranges root (\<lambda>a b. a = l1 \<and> b \<in> fst ` set (e # entries)) d d' (new1 @ new)"
      by (rule found_names) (auto simp: e)
    with Cons.prems(1) [of "new1 @ new"] new(1) show thesis by simp
  qed
  consider "\<not> is_dir E ?p2 d"
    | sr where "is_dir E ?p2 d" "find (\<lambda>sr. eq_ignore_ascii_case (l1 @ l2) sr) ranges = Some sr"
    | "is_dir E ?p2 d" "find (\<lambda>sr. eq_ignore_ascii_case (l1 @ l2) sr) ranges = None" by (metis option.exhaust)
  then show ?case
  proof cases
    case 1
    with Cons.prems(2) assms(2) show ?thesis
      by (intro step [of d "[]"] one) (simp_all add: e Let_def p2 io_ok_def)
  next
    case 2
    with Cons.prems(2) assms(2) show ?thesis
      by (intro step [of d "[(sr, ?p2)]"] one) (simp_all add: e Let_def p2 io_ok_def)
  next
    case 3
    with Cons.prems(2) assms(2) show ?thesis
      by (intro step [of ?d "[]"] one) (simp_all add: e Let_def p2 io_ok_def)
  qed
qed

lemma scan_l1_found:
  assumes "scan_l1 E ranges root entries dirs d = (Inr dirs', d')" "io_ok E" "wf_map d" "tree_disk root d"
    and "proper_dir root" "slash_free entries" "distinct (map fst entries)"
  obtains new where "dirs' = dirs @ new"
    "found ranges root (\<lambda>a b. a \<in> fst ` set entries \<and> CHR ''/'' \<notin> set b \<and> b \<noteq> []) d d' new"
  using assms(1,3,4,6,7)
proof (induction entries arbitrary: dirs d thesis)
  case Nil
  then show ?case by (simp add: found_def)
next
  case (Cons e entries)
  obtain l1 nd where e: "e = (l1, nd)" by (metis surj_pair)
  let ?p1 = "root @ CHR ''/'' # l1" and ?names = "\<lambda>a b. a = l1 \<and> CHR ''/'' \<notin> set b \<and> b \<noteq> []"
  have sf: "CHR ''/'' \<notin> set l1" "l1 \<noteq> []" "slash_free entries" "distinct (map fst entries)" "l1 \<notin> fst ` set entries"
    using Cons.prems e by (auto simp: slash_free_def)
  have p1: "push_path root l1 = ?p1" by (rule push_path_name [OF assms(5) sf(1)])
  have dir: "is_dir E ?p1 d \<longleftrightarrow> lookup d ?p1 = Some Dir" using assms(2) by (simp add: is_dir_def fs_metadata_def io_ok_def)
  have step: thesis if one: "found ranges root ?names d d1 new1"
    and rest: "scan_l1 E ranges root entries (dirs @ new1) d1 = (Inr dirs', d')" for d1 new1
  proof -
    have "wf_map d1" "tree_disk root d1" using found_shrinks [OF one] Cons.prems(3,4) by (simp_all add: shrinks_def)
    from Cons.IH [OF _ rest this sf(3,4)] obtain new where new: "dirs' = (dirs @ new1) @ new"
      "found ranges root (\<lambda>a b. a \<in> fst ` set entries \<and> CHR ''/'' \<notin> set b \<and> b \<noteq> []) d1 d' new" by blast
    have "found ranges root (\<lambda>a b. ?names a b \<or> (a \<in> fst ` set entries \<and> CHR ''/'' \<notin> set b \<and> b \<noteq> [])) d d' (new1 @ new)"
      using sf(5) by (intro found_append [OF one new(2)]) auto
    then have "found ranges root (\<lambda>a b. a \<in> fst ` set (e # entries) \<and> CHR ''/'' \<notin> set b \<and> b \<noteq> []) d d' (new1 @ new)"
      by (rule found_names) (auto simp: e)
    with Cons.prems(1) [of "new1 @ new"] new(1) show thesis by simp
  qed
  show ?case
  proof (cases "is_dir E ?p1 d")
    case False
    have "lookup d (?p1 @ CHR ''/'' # b) \<noteq> Some Dir" if "CHR ''/'' \<notin> set b" for b
      using False dir Cons.prems(4) that unfolding tree_disk_def by (metis starts_with_append)
    then have "found ranges root ?names d d []" by (auto simp: found_def)
    moreover have "scan_l1 E ranges root entries dirs d = (Inr dirs', d')"
      using Cons.prems(2) False assms(2) by (simp add: e Let_def p1 io_ok_def)
    ultimately show ?thesis using step [of d "[]"] by simp
  next
    case True
    let ?stream = "list_dir ?p1 d"
    have rd: "fs_read_dir E ?p1 d = Some ?stream" using True dir assms(2) by (simp add: fs_read_dir_def io_ok_def)
    from Cons.prems(2) True assms(2) obtain dirs1 d1
      where l2: "scan_l2 E ranges l1 (push_path root l1) ?stream dirs d = (Inr dirs1, d1)"
        and rest: "scan_l1 E ranges root entries dirs1 d1 = (Inr dirs', d')"
      by (auto simp: e Let_def p1 io_ok_def rd split: prod.splits sum.splits)
    from scan_l2_found [OF l2 assms(2) Cons.prems(3) assms(5) sf(1,2) slash_free_list [OF rd] distinct_list_dir [OF Cons.prems(3)]]
    obtain new1 where new1: "dirs1 = dirs @ new1" "found ranges root (\<lambda>a b. a = l1 \<and> b \<in> fst ` set ?stream) d d1 new1" .
    have listed: "b \<in> fst ` set ?stream" if "lookup d1 (root @ CHR ''/'' # l1 @ CHR ''/'' # b) = Some Dir" "CHR ''/'' \<notin> set b" "b \<noteq> []" for b
    proof -
      have "(?p1 @ ''/'' @ b, Dir) \<in> set d"
        using shrinks_dir [OF found_shrinks [OF new1(2)] that(1)] by (simp add: lookup_set)
      with that(2,3) show ?thesis using in_list_dir [of b Dir ?p1 d] by force
    qed
    have "CHR ''/'' \<notin> set b \<and> b \<noteq> []" if "b \<in> fst ` set ?stream" for b
      using that by (auto simp: in_list_dir)
    then have "found ranges root ?names d d1 new1" using listed by (intro found_names [OF new1(2)]) auto
    from step [OF this] rest new1(1) show ?thesis by simp
  qed
qed

section \<open>The files a scan checks\<close>

text \<open>The files whose paths are in \<open>Q\<close> are still to be checked; the books are those of the others.\<close>

definition pending_range :: "extern \<Rightarrow> path \<Rightarrow> path set \<Rightarrow> path \<Rightarrow> string option" where
  "pending_range X dir Q p = (if p \<in> Q then None else entry_range X dir p)"

definition checked_file :: "extern \<Rightarrow> bool \<Rightarrow> path \<Rightarrow> path \<Rightarrow> fnode \<Rightarrow> bool" where
  "checked_file X verify dir p f \<longleftrightarrow>
     (\<forall>info. from_file_id (x_dec X) (basename p) = Some info \<longrightarrow> to_path (x_enc X) info dir = p \<longrightarrow>
        length (f_data f) = unat (fi_size info) \<and> (verify \<longrightarrow> x_sha1 X (f_data f) = fi_hash info))"

definition scanned :: "extern \<Rightarrow> io_env \<Rightarrow> bool \<Rightarrow> path set \<Rightarrow> cache_manager \<Rightarrow> bool" where
  "scanned X E verify Q cm \<longleftrightarrow>
     wf_map (disk cm) \<and> wf_map (cache_map cm) \<and> tree_disk (cache_dir cm) (disk cm) \<and> length (disk cm) < 2 ^ 64 \<and>
     (\<forall>r. range_balanced (disk_files (pending_range X (cache_dir cm) Q) (real_size E) (disk cm)) (cache_map cm) r) \<and>
     (\<forall>p f. p \<notin> Q \<longrightarrow> lookup (disk cm) p = Some (File f) \<longrightarrow> checked_file X verify (cache_dir cm) p f)"

lemma disk_files_cong:
  assumes "\<And>p n. (p, n) \<in> set d \<Longrightarrow> g p = g' p"
  shows "disk_files g w d = disk_files g' w d"
  using assms by (auto simp: disk_files_def entry_files_def intro!: arg_cong [where f = sum_list] map_cong split: node.split)

lemma lookup_in: "wf_map d \<Longrightarrow> (p, n) \<in> set d \<Longrightarrow> lookup d p = Some n"
  by (simp add: wf_map_def)

lemma scanned_cong:
  assumes "scanned X E verify Q cm" "\<And>p. lookup (disk cm) p \<noteq> None \<Longrightarrow> p \<in> Q \<longleftrightarrow> p \<in> Q'"
  shows "scanned X E verify Q' cm"
proof -
  have wf: "wf_map (disk cm)" using assms(1) by (simp add: scanned_def)
  have "disk_files (pending_range X (cache_dir cm) Q) (real_size E) (disk cm) = disk_files (pending_range X (cache_dir cm) Q') (real_size E) (disk cm)"
    using assms(2) lookup_in [OF wf] by (intro disk_files_cong) (fastforce simp: pending_range_def)
  with assms(1) show ?thesis
    unfolding scanned_def using assms(2) by (metis option.distinct(1))
qed

lemma pending_removed:
  assumes "wf_map d" "p \<in> Q"
  shows "disk_files (pending_range X dir (Q - {p})) w (remove_map p d) = disk_files (pending_range X dir Q) w d"
proof -
  have "disk_files (pending_range X dir (Q - {p})) w (remove_map p d) = disk_files (pending_range X dir Q) w (remove_map p d)"
    using set_remove_map [OF assms(1)] by (intro disk_files_cong) (auto simp: pending_range_def)
  moreover have "disk_files (pending_range X dir Q) w (remove_map p d) = disk_files (pending_range X dir Q) w d"
  proof (cases "lookup d p")
    case (Some n)
    have "pending_range X dir Q p = None" using assms(2) by (simp add: pending_range_def)
    with disk_files_remove [OF assms(1) Some, of "pending_range X dir Q" w] show ?thesis by simp
  next
    case None
    then have "remove_map p d = d" by (simp add: delete_idem map_of_eq_None_iff)
    then show ?thesis by simp
  qed
  ultimately show ?thesis by simp
qed

lemma pending_kept:
  assumes "wf_map d" "p \<in> Q" "lookup d p = Some n"
  shows "disk_files (pending_range X dir (Q - {p})) w d = entry_files (entry_range X dir) w (p, n) + disk_files (pending_range X dir Q) w d"
proof -
  have "entry_files (pending_range X dir (Q - {p})) w (p, n) = entry_files (entry_range X dir) w (p, n)"
    by (cases n) (simp_all add: entry_files_def pending_range_def)
  with disk_files_remove [OF assms(1,3), of "pending_range X dir (Q - {p})" w] pending_removed [OF assms(1,2), of X dir w] show ?thesis by simp
qed

lemma pending_all [simp]: "disk_files (pending_range X dir UNIV) w d = {#}"
  by (induction d) (auto simp: disk_files_def entry_files_def pending_range_def split: node.split)

lemma scanned_removed:
  assumes "scanned X E verify Q cm" "p \<in> Q" "lookup (disk cm) p = Some (File f)"
  shows "scanned X E verify (Q - {p}) (cm\<lparr>disk := remove_map p (disk cm)\<rparr>)"
  using assms(1) pending_removed [OF _ assms(2), of "disk cm" X "cache_dir cm" "real_size E"] tree_disk_remove_file [OF _ assms(3)]
    length_remove_map [of p "disk cm"]
  by (auto simp: scanned_def)

lemma scanned_ignored:
  assumes "scanned X E verify Q cm" "p \<in> Q" "lookup (disk cm) p \<in> {None, Some Dir} \<or> from_file_id (x_dec X) (basename p) = None"
  shows "scanned X E verify (Q - {p}) cm"
proof (cases "lookup (disk cm) p")
  case None
  then show ?thesis by (intro scanned_cong [OF assms(1)]) auto
next
  case (Some n)
  have wf: "wf_map (disk cm)" using assms(1) by (simp add: scanned_def)
  have "entry_files (entry_range X (cache_dir cm)) (real_size E) (p, n) = {#}"
    using assms(3) Some by (cases n) (auto simp: entry_files_def entry_range_def)
  with pending_kept [OF wf assms(2) Some, of X "cache_dir cm" "real_size E"]
  have eq: "disk_files (pending_range X (cache_dir cm) (Q - {p})) (real_size E) (disk cm) =
      disk_files (pending_range X (cache_dir cm) Q) (real_size E) (disk cm)" by simp
  have "checked_file X verify (cache_dir cm) p f" if "lookup (disk cm) p = Some (File f)" for f
    using that assms(3) by (auto simp: checked_file_def)
  with assms(1) eq show ?thesis unfolding scanned_def by (metis Diff_iff singletonD)
qed

lemma scanned_counted:
  assumes "scanned X E verify Q cm" "p \<in> Q" "lookup (disk cm) p = Some (File f)" "entry_range X (cache_dir cm) p = Some r"
    and "checked_file X verify (cache_dir cm) p f"
    and "s = (case lookup (cache_map cm) r of None \<Rightarrow> default_state E | Some s \<Rightarrow> s)"
  shows "scanned X E verify (Q - {p}) (cm\<lparr>cache_map := insert_map r ((add_file (real_size E f) s)\<lparr>oldest := t\<rparr>) (cache_map cm)\<rparr>)"
proof -
  have wf: "wf_map (disk cm)" using assms(1) by (simp add: scanned_def)
  let ?M = "disk_files (pending_range X (cache_dir cm) Q) (real_size E) (disk cm)"
  have M: "disk_files (pending_range X (cache_dir cm) (Q - {p})) (real_size E) (disk cm) = add_mset (r, real_size E f) ?M"
    using pending_kept [OF wf assms(2,3), of X "cache_dir cm" "real_size E"] assms(4) by simp
  have "range_balanced (add_mset (r, real_size E f) ?M) (insert_map r ((add_file (real_size E f) s)\<lparr>oldest := t\<rparr>) (cache_map cm)) k" for k
  proof -
    have "range_balanced ?M (cache_map cm) k" using assms(1) by (simp add: scanned_def)
    from balanced_add [OF this assms(6), of "real_size E f"] show ?thesis
      by (auto simp: range_balanced_def split: option.splits if_splits)
  qed
  with assms(1,5) M show ?thesis by (auto simp: scanned_def) (use assms(3) in fastforce)
qed

text \<open>Names that can be parsed are where they belong, in the directory \<open>q\<close>.\<close>

definition tidy_dir :: "extern \<Rightarrow> path \<Rightarrow> path \<Rightarrow> disk \<Rightarrow> bool" where
  "tidy_dir X root q d \<longleftrightarrow>
     (\<forall>n info. CHR ''/'' \<notin> set n \<longrightarrow> lookup d (q @ CHR ''/'' # n) \<noteq> None \<longrightarrow> from_file_id (x_dec X) n = Some info \<longrightarrow>
        to_path (x_enc X) info root = q @ CHR ''/'' # n)"

lemma tidy_shrinks: "tidy_dir X root q d \<Longrightarrow> shrinks r d d' \<Longrightarrow> tidy_dir X root q d'"
  unfolding tidy_dir_def shrinks_def sub_disk_def by (metis not_Some_eq)

lemma scan_file_frame: "shrinks root (disk cm) (disk (scan_file X E verify dir n cm)) \<and> cache_dir (scan_file X E verify dir n cm) = cache_dir cm"
  by (simp add: scan_file_def Let_def split: option.split node.split)

lemma scan_file_scanned:
  assumes "scanned X E verify Q cm" "io_ok E" "proper_dir dir" "CHR ''/'' \<notin> set n" "dir @ CHR ''/'' # n \<in> Q"
    and "tidy_dir X (cache_dir cm) dir (disk cm)"
  shows "scanned X E verify (Q - {dir @ CHR ''/'' # n}) (scan_file X E verify dir n cm)"
proof -
  let ?p = "dir @ CHR ''/'' # n"
  have p: "push_path dir n = ?p" by (rule push_path_name [OF assms(3,4)])
  have base: "basename ?p = n" using assms(4) by simp
  note ok = assms(2) [unfolded io_ok_def, rule_format]
  have rm: "try_remove E ?p (disk cm) = remove_map ?p (disk cm)" if "lookup (disk cm) ?p = Some (File f)" for f
    using that ok by (simp add: try_remove_def fs_remove_file_def)
  consider "lookup (disk cm) ?p \<in> {None, Some Dir} \<or> from_file_id (x_dec X) n = None"
    | f info where "lookup (disk cm) ?p = Some (File f)" "from_file_id (x_dec X) n = Some info"
    by (cases "lookup (disk cm) ?p"; cases "the (lookup (disk cm) ?p)"; cases "from_file_id (x_dec X) n") auto
  then show ?thesis
  proof cases
    case 1
    then have "scan_file X E verify dir n cm = cm"
      by (auto simp: scan_file_def Let_def p fs_metadata_def split: option.splits node.splits)
    with scanned_ignored [OF assms(1,5)] 1 base show ?thesis by simp
  next
    case (2 f info)
    show ?thesis
    proof (cases "length (f_data f) \<noteq> unat (fi_size info) \<or> (verify \<and> x_sha1 X (f_data f) \<noteq> fi_hash info)")
      case True
      with 2 ok have "scan_file X E verify dir n cm = cm\<lparr>disk := remove_map ?p (disk cm)\<rparr>"
        by (auto simp: scan_file_def Let_def p fs_metadata_def read_for_hash_def rm)
      with scanned_removed [OF assms(1,5) 2(1)] show ?thesis by simp
    next
      case False
      have path: "to_path (x_enc X) info (cache_dir cm) = ?p" using assms(4,6) 2 by (simp add: tidy_dir_def)
      then have r: "entry_range X (cache_dir cm) ?p = Some (static_range (x_enc X) info)"
        using 2(2) base by (simp add: entry_range_def)
      have ck: "checked_file X verify (cache_dir cm) ?p f" using False 2(2) base by (auto simp: checked_file_def)
      define s where "s = (case lookup (cache_map cm) (static_range (x_enc X) info) of None \<Rightarrow> default_state E | Some s \<Rightarrow> s)"
      define t where "t = (if oldest s > unix_seconds (f_mtime f) then unix_seconds (f_mtime f) else oldest s)"
      have same: "(add_file (real_size E f) s)\<lparr>oldest := oldest s\<rparr> = add_file (real_size E f) s"
        and old: "oldest (add_file (real_size E f) s) = oldest s" by (simp_all add: add_file_def)
      have c: "(length (f_data f) \<noteq> unat (fi_size info)) = False" "(verify \<and> x_sha1 X (f_data f) \<noteq> fi_hash info) = False"
        using False by auto
      have "scan_file X E verify dir n cm =
          cm\<lparr>cache_map := insert_map (static_range (x_enc X) info) ((add_file (real_size E f) s)\<lparr>oldest := t\<rparr>) (cache_map cm)\<rparr>"
        unfolding scan_file_def Let_def p fs_metadata_def fs_filesize_def read_for_hash_def s_def [symmetric] t_def
        by (simp only: 2 ok c if_False option.case node.case s_def [symmetric] old simp_thms) (simp add: same)
      with scanned_counted [OF assms(1,5) 2(1) r ck s_def] show ?thesis by simp
    qed
  qed
qed

text \<open>What lies directly in a directory.\<close>

definition below :: "path \<Rightarrow> path set" where
  "below q = {q @ CHR ''/'' # n |n. CHR ''/'' \<notin> set n \<and> n \<noteq> []}"

lemma scan_files_scanned:
  assumes "scanned X E verify Q cm" "io_ok E" "proper_dir dir" "slash_free entries" "distinct (map fst entries)"
    and "(\<lambda>n. dir @ CHR ''/'' # n) ` fst ` set entries \<subseteq> Q" "tidy_dir X (cache_dir cm) dir (disk cm)"
    and "cm' = fold (\<lambda>(n, _). scan_file X E verify dir n) entries cm"
  shows "scanned X E verify (Q - (\<lambda>n. dir @ CHR ''/'' # n) ` fst ` set entries) cm' \<and> shrinks (cache_dir cm) (disk cm) (disk cm') \<and>
    cache_dir cm' = cache_dir cm"
  using assms(1,4-8)
proof (induction entries arbitrary: Q cm)
  case (Cons e entries)
  obtain n nd where e: "e = (n, nd)" by (metis surj_pair)
  let ?p = "dir @ CHR ''/'' # n" and ?cm = "scan_file X E verify dir n cm"
  have n: "CHR ''/'' \<notin> set n" using Cons.prems(2) e by (simp add: slash_free_def)
  note fr = scan_file_frame [of "cache_dir cm" cm X E verify dir n]
  have "scanned X E verify (Q - {?p}) ?cm"
    using Cons.prems(4,5) e by (intro scan_file_scanned [OF Cons.prems(1) assms(2,3) n]) auto
  moreover have "slash_free entries" "distinct (map fst entries)" "(\<lambda>n. dir @ CHR ''/'' # n) ` fst ` set entries \<subseteq> Q - {?p}"
    using Cons.prems(2-4) e by (auto simp: slash_free_def)
  moreover have "tidy_dir X (cache_dir ?cm) dir (disk ?cm)" using tidy_shrinks [OF Cons.prems(5)] fr by metis
  moreover have "cm' = fold (\<lambda>(n, _). scan_file X E verify dir n) entries ?cm" using Cons.prems(6) e by simp
  ultimately have IH: "scanned X E verify (Q - {?p} - (\<lambda>n. dir @ CHR ''/'' # n) ` fst ` set entries) cm' \<and>
      shrinks (cache_dir ?cm) (disk ?cm) (disk cm') \<and> cache_dir cm' = cache_dir ?cm" by (rule Cons.IH)
  have "Q - {?p} - (\<lambda>n. dir @ CHR ''/'' # n) ` fst ` set entries = Q - (\<lambda>n. dir @ CHR ''/'' # n) ` fst ` set (e # entries)"
    by (auto simp: e)
  with IH fr show ?case by (metis shrinks_trans)
qed simp

lemma below_listed:
  assumes "wf_map d" "lookup d p \<noteq> None"
  shows "p \<in> below q \<longleftrightarrow> p \<in> (\<lambda>n. q @ CHR ''/'' # n) ` fst ` set (list_dir q d)"
proof
  assume "p \<in> below q"
  then obtain n where n: "p = q @ CHR ''/'' # n" "CHR ''/'' \<notin> set n" "n \<noteq> []" by (auto simp: below_def)
  from assms(2) obtain nd where "lookup d p = Some nd" by blast
  with n lookup_set [of d p nd] have "(n, nd) \<in> set (list_dir q d)" by (simp add: in_list_dir)
  with n(1) show "p \<in> (\<lambda>n. q @ CHR ''/'' # n) ` fst ` set (list_dir q d)" by (metis fst_conv image_eqI)
next
  assume "p \<in> (\<lambda>n. q @ CHR ''/'' # n) ` fst ` set (list_dir q d)"
  then obtain n nd where "p = q @ CHR ''/'' # n" "(n, nd) \<in> set (list_dir q d)" by auto
  then show "p \<in> below q" by (auto simp: below_def in_list_dir)
qed

lemma length_list_dir: "length (list_dir q d) \<le> length d"
  by (simp add: list_dir_def map_filter_def)

lemma scanned_forget:
  assumes "scanned X E verify Q cm" "range_files (disk_files (pending_range X (cache_dir cm) Q) (real_size E) (disk cm)) sr = {#}"
  shows "scanned X E verify Q (cm\<lparr>cache_map := remove_map sr (cache_map cm)\<rparr>)"
  using assms by (auto simp: scanned_def range_balanced_def)

lemma disk_filesE:
  assumes "(c, x) \<in># disk_files g w d"
  obtains p f where "(p, File f) \<in> set d" "g p = Some c"
proof -
  from assms obtain e where e: "e \<in> set d" "(c, x) \<in># entry_files g w e" by (auto simp: disk_files_def)
  then obtain f where "snd e = File f" "g (fst e) = Some c" by (auto simp: entry_files_def split: node.splits option.splits)
  with e(1) show thesis by (intro that [of "fst e" f]) (metis prod.collapse, simp)
qed

context external
begin

lemma entry_range_below:
  assumes "entry_range X dir p = Some r"
  shows "p \<in> below (range_dir dir r)"
proof -
  from assms obtain info where info: "from_file_id (x_dec X) (basename p) = Some info" "to_path (x_enc X) info dir = p"
    "r = static_range (x_enc X) info"
    by (auto simp: entry_range_def split: option.splits if_splits)
  have "CHR ''/'' \<notin> set (basename p)" by (auto simp: basename_def dest: set_takeWhileD)
  from from_file_id_plain [OF info(1) this] have plain: "plain_info info" .
  have "file_name (x_enc X) info \<noteq> []" by (simp add: file_name_def)
  with info(2,3) file_name_no_slash [OF plain] plain show ?thesis
    by (auto simp: below_def to_path_dir plain_info_def)
qed

lemma scan_dir_scanned:
  assumes "scanned X E verify Q cm" "io_ok E" "proper_dir q" "q = range_dir (cache_dir cm) sr" "below q \<subseteq> Q"
    and "tidy_dir X (cache_dir cm) q (disk cm)" "starts_with q (cache_dir cm)" "scan_dir X E verify (sr, q) cm = (c, cm')"
  shows "scanned X E verify (Q - below q) cm' \<and> shrinks (cache_dir cm) (disk cm) (disk cm') \<and> cache_dir cm' = cache_dir cm"
proof -
  have wf: "wf_map (disk cm)" and tree: "tree_disk (cache_dir cm) (disk cm)" and len: "length (disk cm) < 2 ^ 64"
    using assms(1) by (simp_all add: scanned_def)
  let ?M = "disk_files (pending_range X (cache_dir cm) Q) (real_size E) (disk cm)"
  let ?l = "list_dir q (disk cm)" and ?count = "case lookup (cache_map cm) sr of Some s \<Rightarrow> file_count s | None \<Rightarrow> 0"
  have none: "range_files ?M sr = {#}"
  proof -
    have False if "(sr, x) \<in># ?M" for x
    proof -
      from that obtain p where "pending_range X (cache_dir cm) Q p = Some sr" by (rule disk_filesE)
      then have "p \<notin> Q" "entry_range X (cache_dir cm) p = Some sr" by (auto simp: pending_range_def split: if_splits)
      with entry_range_below assms(4,5) show False by blast
    qed
    then show ?thesis by (auto simp: range_files_def filter_mset_eq_conv)
  qed
  have "range_balanced ?M (cache_map cm) sr" using assms(1) by (simp add: scanned_def)
  with none have count: "?count = 0" by (simp add: range_balanced_def split: option.splits)
  have skip: ?thesis if "cm' = cm" "\<And>p. lookup (disk cm) p \<noteq> None \<Longrightarrow> p \<notin> below q"
    using that by (auto intro: scanned_cong [OF assms(1)])
  show ?thesis
  proof (cases "lookup (disk cm) q = Some Dir")
    case False
    have "p \<notin> below q" if "lookup (disk cm) p \<noteq> None" for p
      using False that tree assms(7) by (auto simp: below_def tree_disk_def)
    with False assms(8) show ?thesis by (intro skip) (auto simp: scan_dir_def open_dir_def fs_read_dir_def)
  next
    case True
    with assms(2) have o: "open_dir E q (disk cm) = Some ?l" and lf: "list_files E q ?l = ?l"
      by (simp_all add: open_dir_def fs_read_dir_def list_files_def io_ok_def)
    show ?thesis
    proof (cases "?l = []")
      case True
      with assms(8) o lf count below_listed [OF wf] show ?thesis by (intro skip) (auto simp: scan_dir_def Let_def)
    next
      case False
      let ?cm = "cm\<lparr>cache_map := remove_map sr (cache_map cm)\<rparr>"
      have "length ?l < 2 ^ 64" using length_list_dir [of q "disk cm"] len by linarith
      then have "(word_of_nat (length ?l) :: u64) \<noteq> 0"
        using False by (auto simp: word_of_nat_eq_0_iff dest: nat_dvd_not_less)
      with assms(8) o lf count have cm': "cm' = fold (\<lambda>(n, _). scan_file X E verify q n) ?l ?cm"
        by (simp add: scan_dir_def Let_def)
      have sf: "slash_free ?l" by (auto simp: slash_free_def in_list_dir)
      have "(\<lambda>n. q @ CHR ''/'' # n) ` fst ` set ?l \<subseteq> Q" using assms(5) by (auto simp: below_def in_list_dir)
      from scan_files_scanned [OF scanned_forget [OF assms(1) none] assms(2,3) sf distinct_list_dir [OF wf] this _ cm'] assms(6)
      have res: "scanned X E verify (Q - (\<lambda>n. q @ CHR ''/'' # n) ` fst ` set ?l) cm'" "shrinks (cache_dir cm) (disk cm) (disk cm')"
        "cache_dir cm' = cache_dir cm" by simp_all
      have "lookup (disk cm) p \<noteq> None" if "lookup (disk cm') p \<noteq> None" for p
        using that res(2) by (auto simp: shrinks_def sub_disk_def)
      then have "p \<in> Q - (\<lambda>n. q @ CHR ''/'' # n) ` fst ` set ?l \<longleftrightarrow> p \<in> Q - below q" if "lookup (disk cm') p \<noteq> None" for p
        using below_listed [OF wf, of p q] that by simp
      with res(1) have "scanned X E verify (Q - below q) cm'" by (rule scanned_cong)
      with res show ?thesis by simp
    qed
  qed
qed

lemma scan_dirs_scanned:
  assumes "scanned X E verify Q cm" "io_ok E" "scan_dirs X E verify dirs counter cm = (c, cm')" "distinct (map snd dirs)"
    and "\<And>sr q. (sr, q) \<in> set dirs \<Longrightarrow> proper_dir q \<and> q = range_dir (cache_dir cm) sr \<and> starts_with q (cache_dir cm) \<and>
      tidy_dir X (cache_dir cm) q (disk cm) \<and> below q \<subseteq> Q"
  shows "scanned X E verify (Q - \<Union> (below ` snd ` set dirs)) cm' \<and> shrinks (cache_dir cm) (disk cm) (disk cm') \<and> cache_dir cm' = cache_dir cm"
  using assms(1,3-5)
proof (induction dirs arbitrary: Q cm counter)
  case (Cons sp dirs)
  obtain sr q where sp: "sp = (sr, q)" by (metis surj_pair)
  obtain c1 cm1 where one: "scan_dir X E verify (sr, q) cm = (c1, cm1)" by (metis surj_pair)
  note q = Cons.prems(4) [of sr q, unfolded sp, simplified]
  from scan_dir_scanned [OF Cons.prems(1) assms(2) _ _ _ _ _ one] q
  have s1: "scanned X E verify (Q - below q) cm1" "shrinks (cache_dir cm) (disk cm) (disk cm1)" "cache_dir cm1 = cache_dir cm" by blast+
  have disj: "below q \<inter> below q' = {}" if "q' \<in> snd ` set dirs" for q'
  proof -
    have "q \<noteq> q'" using that Cons.prems(3) sp by auto
    then show ?thesis by (auto simp: below_def) (metis parent_append)
  qed
  have "scan_dirs X E verify dirs (if c1 then counter + 1 else counter) cm1 = (c, cm')"
    using Cons.prems(2) by (simp add: sp one)
  moreover have "proper_dir q' \<and> q' = range_dir (cache_dir cm1) sr' \<and> starts_with q' (cache_dir cm1) \<and>
      tidy_dir X (cache_dir cm1) q' (disk cm1) \<and> below q' \<subseteq> Q - below q" if "(sr', q') \<in> set dirs" for sr' q'
  proof -
    from Cons.prems(4) [of sr' q'] that
    have r: "proper_dir q'" "q' = range_dir (cache_dir cm) sr'" "starts_with q' (cache_dir cm)" "tidy_dir X (cache_dir cm) q' (disk cm)" "below q' \<subseteq> Q"
      by (meson list.set_intros(2))+
    have "q' \<in> snd ` set dirs" using that by force
    with disj [of q'] r(5) have "below q' \<subseteq> Q - below q" by blast
    with r tidy_shrinks [OF r(4) s1(2)] s1(3) show ?thesis by metis
  qed
  ultimately have "scanned X E verify (Q - below q - \<Union> (below ` snd ` set dirs)) cm' \<and> shrinks (cache_dir cm1) (disk cm1) (disk cm') \<and>
      cache_dir cm' = cache_dir cm1"
    using Cons.prems(3) by (intro Cons.IH [OF s1(1)]) auto
  moreover have "Q - below q - \<Union> (below ` snd ` set dirs) = Q - \<Union> (below ` snd ` set (sp # dirs))" by (auto simp: sp)
  ultimately show ?case using s1(2,3) shrinks_trans [of "cache_dir cm" "disk cm" "disk cm1" "disk cm'"] by simp
qed simp

lemma range_dir_two:
  assumes "entry_range X root p = Some r" "proper_dir root"
  obtains a b where "range_dir root r = root @ CHR ''/'' # a @ CHR ''/'' # b" "CHR ''/'' \<notin> set a" "CHR ''/'' \<notin> set b" "a \<noteq> []" "b \<noteq> []"
proof -
  from assms(1) obtain info where info: "from_file_id (x_dec X) (basename p) = Some info" "r = static_range (x_enc X) info"
    by (auto simp: entry_range_def split: option.splits if_splits)
  let ?h = "fi_hash info"
  have len: "length ?h = 20" using from_file_id_wf [OF info(1)] by (simp add: wf_info_def)
  let ?a = "x_enc X (take 1 ?h)" and ?b = "x_enc X (take 1 (drop 1 ?h))"
  have nosep: "CHR ''/'' \<notin> set ?a" "CHR ''/'' \<notin> set ?b" by (rule enc_no_sep, simp add: hex_chars_def)+
  have ne: "?a \<noteq> []" "?b \<noteq> []" using len enc_length [of "take 1 ?h"] enc_length [of "take 1 (drop 1 ?h)"] by force+
  have "range_dir root r = root @ CHR ''/'' # ?a @ CHR ''/'' # ?b"
    using push_two [OF assms(2) nosep(1) ne(1) nosep(2)] by (simp add: info(2) range_dir_static_range [OF len] del: One_nat_def)
  with nosep ne show thesis by (intro that)
qed

end

lemma balanced_totals:
  assumes "wf_map (cache_map cm)" "\<And>r. range_balanced M (cache_map cm) r"
  shows "total_size cm = sum_mset (image_mset snd M)" "total_count cm = word_of_nat (size M)"
proof -
  let ?ks = "map fst (cache_map cm)"
  have sub: "fst ` set_mset M \<subseteq> set ?ks"
  proof
    fix r assume "r \<in> fst ` set_mset M"
    then have "range_files M r \<noteq> {#}" by (auto simp: range_files_def filter_mset_eq_conv)
    with assms(2) [of r] show "r \<in> set ?ks" by (auto simp: range_balanced_def split: option.splits dest!: lookup_set intro: rev_image_eqI)
  qed
  have s: "file_count s = word_of_nat (size (range_files M r)) \<and> state_size s = sum_mset (image_mset snd (range_files M r))"
    if "(r, s) \<in> set (cache_map cm)" for r s
    using assms(2) [of r] lookup_in [OF assms(1) that] by (simp add: range_balanced_def)
  have "total_size cm = sum_list (map (\<lambda>k. sum_mset (image_mset snd (range_files M k))) ?ks)"
    unfolding total_size_sum map_map using s by (intro arg_cong [where f = sum_list] map_cong) auto
  with sum_ranges [OF _ sub, of snd] assms(1) show "total_size cm = sum_mset (image_mset snd M)" by (simp add: wf_map_def)
  have "total_count cm = sum_list (map (\<lambda>k. sum_mset (image_mset (\<lambda>_. 1) (range_files M k))) ?ks)"
    unfolding total_count_sum map_map using s by (intro arg_cong [where f = sum_list] map_cong) auto
  with sum_ranges [OF _ sub, of "\<lambda>_. 1"] assms(1) show "total_count cm = word_of_nat (size M)" by (simp add: wf_map_def)
qed

text \<open>A cache directory in which nothing is misplaced: a directory two levels down whose name matches an assigned range is the
  directory of that range, and every name in it that can be parsed belongs there.\<close>

definition tidy_cache :: "extern \<Rightarrow> string list \<Rightarrow> path \<Rightarrow> disk \<Rightarrow> bool" where
  "tidy_cache X ranges root d \<longleftrightarrow>
     wf_map d \<and> tree_disk root d \<and> length d < 2 ^ 64 \<and>
     (\<forall>a b sr. CHR ''/'' \<notin> set a \<longrightarrow> CHR ''/'' \<notin> set b \<longrightarrow> lookup d (root @ CHR ''/'' # a @ CHR ''/'' # b) = Some Dir \<longrightarrow>
        find (\<lambda>sr. eq_ignore_ascii_case (a @ b) sr) ranges = Some sr \<longrightarrow>
        root @ CHR ''/'' # a @ CHR ''/'' # b = range_dir root sr \<and> proper_dir (range_dir root sr) \<and> tidy_dir X root (range_dir root sr) d)"

lemma tidy_cache_shrinks:
  assumes "tidy_cache X ranges root d" "shrinks root d d'"
  shows "tidy_cache X ranges root d'"
proof -
  have "wf_map d'" "tree_disk root d'" "length d' < 2 ^ 64" using assms by (auto simp: tidy_cache_def shrinks_def)
  moreover have "\<forall>q. lookup d' q = Some Dir \<longrightarrow> lookup d q = Some Dir" "\<forall>q. tidy_dir X root q d \<longrightarrow> tidy_dir X root q d'"
    using shrinks_dir [OF assms(2)] tidy_shrinks [OF _ assms(2)] by blast+
  ultimately show ?thesis using assms(1) unfolding tidy_cache_def by blast
qed

context external
begin

lemma ranges_found:
  assumes "found ranges root (\<lambda>a b. a \<in> fst ` set (list_dir root d0) \<and> CHR ''/'' \<notin> set b \<and> b \<noteq> []) d0 d dirs"
    and "tree_disk root d" "proper_dir root" "lookup d p = Some nd" "entry_range X root p = Some r"
  shows "p \<in> \<Union> (below ` snd ` set dirs)"
proof -
  obtain a b where ab: "range_dir root r = root @ CHR ''/'' # a @ CHR ''/'' # b" "CHR ''/'' \<notin> set a" "CHR ''/'' \<notin> set b" "a \<noteq> []" "b \<noteq> []"
    using range_dir_two [OF assms(5,3)] .
  obtain n where n: "p = (root @ CHR ''/'' # a @ CHR ''/'' # b) @ CHR ''/'' # n" "CHR ''/'' \<notin> set n"
    using entry_range_below [OF assms(5)] ab(1) by (auto simp: below_def)
  have t: "lookup d q = Some Dir" if "lookup d (q @ CHR ''/'' # m) = Some x" "CHR ''/'' \<notin> set m" "starts_with q root" for q m x
    using assms(2) that unfolding tree_disk_def by blast
  have b: "lookup d (root @ CHR ''/'' # a @ CHR ''/'' # b) = Some Dir"
    by (rule t [of _ n nd]) (use assms(4) n in simp_all)
  have "lookup d (root @ CHR ''/'' # a) = Some Dir"
    by (rule t [of _ b Dir]) (use b ab(3) in simp_all)
  then have "(a, Dir) \<in> set (list_dir root d0)"
    using shrinks_dir [OF found_shrinks [OF assms(1)]] ab(2,4) by (simp add: in_list_dir lookup_set)
  then have "a \<in> fst ` set (list_dir root d0)" by force
  with assms(1) ab(3,5) b have "root @ CHR ''/'' # a @ CHR ''/'' # b \<in> snd ` set dirs" unfolding found_def by blast
  then have "range_dir root r \<in> snd ` set dirs" by (simp only: ab(1))
  with entry_range_below [OF assms(5)] show ?thesis by blast
qed

text \<open>When the directories of the cache are checked one after the other nothing is left to check.\<close>

lemma scan_dirs_complete:
  assumes "found ranges (cache_dir cm) (\<lambda>a b. a \<in> fst ` set (list_dir (cache_dir cm) d0) \<and> CHR ''/'' \<notin> set b \<and> b \<noteq> []) d0 (disk cm) dirs"
    and "tidy_cache X ranges (cache_dir cm) d0" "proper_dir (cache_dir cm)" "cache_map cm = []" "io_ok E"
    and "scan_dirs X E verify dirs counter cm = (c, cm')"
  obtains Q where "scanned X E verify Q cm'" "cache_dir cm' = cache_dir cm" "shrinks (cache_dir cm) (disk cm) (disk cm')"
    "\<And>p nd. lookup (disk cm') p = Some nd \<Longrightarrow> entry_range X (cache_dir cm) p \<noteq> None \<Longrightarrow> p \<notin> Q"
proof -
  let ?root = "cache_dir cm" and ?Q = "UNIV - \<Union> (below ` snd ` set dirs)"
  note sh = found_shrinks [OF assms(1)]
  then have d: "wf_map (disk cm)" "tree_disk ?root (disk cm)" "length (disk cm) < 2 ^ 64"
    using assms(2) by (auto simp: shrinks_def tidy_cache_def)
  with assms(4) have "scanned X E verify UNIV cm" by (simp add: scanned_def range_balanced_def range_files_def)
  moreover have "proper_dir q \<and> q = range_dir ?root sr \<and> starts_with q ?root \<and> tidy_dir X ?root q (disk cm) \<and> below q \<subseteq> UNIV"
    if "(sr, q) \<in> set dirs" for sr q
  proof -
    from assms(1) that obtain a b where q: "q = ?root @ CHR ''/'' # a @ CHR ''/'' # b" "CHR ''/'' \<notin> set a" "CHR ''/'' \<notin> set b"
      "find (\<lambda>sr. eq_ignore_ascii_case (a @ b) sr) ranges = Some sr" "lookup d0 q = Some Dir"
      unfolding found_def by blast
    with assms(2) have "q = range_dir ?root sr" "proper_dir q" "tidy_dir X ?root q d0" unfolding tidy_cache_def by metis+
    with q(1) tidy_shrinks [OF _ sh] show ?thesis by simp
  qed
  moreover have "distinct (map snd dirs)" using assms(1) by (simp add: found_def)
  ultimately have res: "scanned X E verify ?Q cm'" "shrinks ?root (disk cm) (disk cm')" "cache_dir cm' = ?root"
    using scan_dirs_scanned [OF _ assms(5,6), of UNIV] by blast+
  show thesis
  proof (rule that [OF res(1,3,2)])
    fix p nd assume "lookup (disk cm') p = Some nd" "entry_range X ?root p \<noteq> None"
    then show "p \<notin> ?Q"
      using ranges_found [OF assms(1) d(2) assms(3)] res(2) by (fastforce simp: shrinks_def sub_disk_def)
  qed
qed

lemma checked_contents:
  assumes "plain_info k" "stored_info k = k" "checked_file X True dir (to_path (x_enc X) k dir) f"
  shows "x_sha1 X (f_data f) = fi_hash k" "length (f_data f) = unat (fi_size k)"
proof -
  have wf: "wf_info k" using assms(1) by (simp add: plain_info_def)
  have "basename (to_path (x_enc X) k dir) = file_name (x_enc X) k"
    by (simp add: to_path_dir [OF wf] file_name_no_slash [OF assms(1)])
  with assms(2,3) file_name_roundtrip [OF wf] show "x_sha1 X (f_data f) = fi_hash k" "length (f_data f) = unat (fi_size k)"
    by (simp_all add: checked_file_def)
qed

lemma scan_cache_checks:
  assumes "scan_cache X E ranges verify cm = (Inr (), cm')" "io_ok E" "proper_dir (cache_dir cm)" "cache_map cm = []"
    and "tidy_cache X ranges (cache_dir cm) (disk cm)"
  shows "accounted X (real_size E) cm'" "cache_dir cm' = cache_dir cm" "shrinks (cache_dir cm) (disk cm) (disk cm')"
    and "lookup (disk cm') p = Some (File f) \<Longrightarrow> entry_range X (cache_dir cm) p \<noteq> None \<Longrightarrow> checked_file X verify (cache_dir cm) p f"
proof -
  let ?root = "cache_dir cm" and ?d = "disk cm"
  have wf: "wf_map ?d" and tree: "tree_disk ?root ?d" using assms(5) by (simp_all add: tidy_cache_def)
  from assms(1) obtain root dirs d c cm2 where rd: "fs_read_dir E ?root ?d = Some root"
    and l1: "scan_l1 E ranges ?root root [] ?d = (Inr dirs, d)" and sd: "scan_dirs X E verify dirs 0 (cm\<lparr>disk := d\<rparr>) = (c, cm2)"
    and cm': "cm' = cm2\<lparr>m_cache_size := total_size cm2, m_cache_count := total_count cm2, m_static_range := int (length (cache_map cm2))\<rparr>"
    by (auto simp: scan_cache_def split: option.splits prod.splits sum.splits if_splits)
  have root: "root = list_dir ?root ?d" using rd by (auto simp: fs_read_dir_def split: if_splits)
  have "distinct (map fst root)" unfolding root by (rule distinct_list_dir [OF wf])
  from scan_l1_found [OF l1 assms(2) wf tree assms(3) slash_free_list [OF rd] this]
  have f: "found ranges ?root (\<lambda>a b. a \<in> fst ` set root \<and> CHR ''/'' \<notin> set b \<and> b \<noteq> []) ?d d dirs" by simp
  obtain Q where Q: "scanned X E verify Q cm2" "cache_dir cm2 = ?root" "shrinks ?root d (disk cm2)"
    "\<And>p nd. lookup (disk cm2) p = Some nd \<Longrightarrow> entry_range X ?root p \<noteq> None \<Longrightarrow> p \<notin> Q"
    by (rule scan_dirs_complete [of ranges "cm\<lparr>disk := d\<rparr>" ?d dirs E verify 0 c cm2]) (use f assms(2-5) sd root in simp_all)
  have wf2: "wf_map (disk cm2)" "wf_map (cache_map cm2)" using Q(1) by (simp_all add: scanned_def)
  let ?M = "disk_files (entry_range X ?root) (real_size E) (disk cm2)"
  have "disk_files (pending_range X ?root Q) (real_size E) (disk cm2) = ?M"
    using Q(4) lookup_in [OF wf2(1)] by (intro disk_files_cong) (fastforce simp: pending_range_def)
  then have bal: "range_balanced ?M (cache_map cm2) r" for r using Q(1,2) by (simp add: scanned_def)
  from balanced_totals [OF wf2(2) bal] bal wf2 Q(2) show "accounted X (real_size E) cm'"
    by (simp add: accounted_def cached_files_def cm')
  show "cache_dir cm' = cache_dir cm" using Q(2) by (simp add: cm')
  show "shrinks ?root ?d (disk cm')" using shrinks_trans [OF found_shrinks [OF f] Q(3)] by (simp add: cm')
  assume "lookup (disk cm') p = Some (File f)" "entry_range X ?root p \<noteq> None"
  with Q(4) [of p] Q(1,2) show "checked_file X verify ?root p f" by (auto simp: scanned_def cm')
qed

end

section \<open>A verified start\<close>

lemma shrinks_clean_temp: "shrinks root d (clean_temp_dir E path d)"
proof -
  have "shrinks root d (clean_temp_entries E path entries d)" for entries
  proof (induction entries arbitrary: d)
    case (Cons e entries)
    obtain n nd where e: "e = (n, nd)" by (metis surj_pair)
    let ?p = "push_path path n"
    let ?d = "if is_file E ?p d \<and> starts_with n ''proxyfile_'' then try_remove E ?p d else d"
    have "shrinks root d ?d" by simp
    from shrinks_trans [OF this Cons.IH] show ?case by (simp add: e Let_def)
  qed simp
  then show ?thesis by (simp add: clean_temp_dir_def split: option.split)
qed

lemma shrinks_delete_java: "shrinks root d (delete_java_cache_data E data_dir d)"
  unfolding delete_java_cache_data_def
  by (rule shrinks_trans [OF shrinks_trans [OF shrinks_try_remove shrinks_try_remove] shrinks_try_remove])

text \<open>A world in which \<^const>\<open>cm_new\<close> has just returned after a scan that verifies, on a disk that may hold anything tidy.\<close>

definition verified_start :: "world \<Rightarrow> bool" where
  "verified_start w \<longleftrightarrow> external (w_ext w) \<and>
     (\<exists>E data_dir cdir tdir limit init force saved d. io_ok E \<and> real_size E = w_size w \<and> verify_cache init \<and> proper_dir cdir \<and>
        tidy_cache (w_ext w) (is_static_range init) cdir d \<and> cm_new (w_ext w) E data_dir cdir tdir limit init force saved d = Started (w_cm w))"

lemma verified_startI:
  assumes "external X" "io_ok E" "real_size E = rs" "verify_cache init" "proper_dir cdir" "tidy_cache X (is_static_range init) cdir d"
    and "cm_new X E data_dir cdir tdir limit init force saved d = Started cm"
  shows "verified_start \<lparr>w_ext = X, w_size = rs, w_cm = cm\<rparr>"
  unfolding verified_start_def world.simps using assms by blast

lemma verified_start_sound:
  assumes "verified_start w"
  shows "books_balanced w" "clean_start w"
proof -
  from assms obtain E data_dir cdir tdir limit init force saved d
    where ext: "external (w_ext w)" and ok: "io_ok E" "real_size E = w_size w" "verify_cache init" "proper_dir cdir"
      and tidy: "tidy_cache (w_ext w) (is_static_range init) cdir d"
      and new: "cm_new (w_ext w) E data_dir cdir tdir limit init force saved d = Started (w_cm w)"
    unfolding verified_start_def by blast
  let ?cm = "cm_load E data_dir cdir tdir limit init saved d"
  from new have scan: "scan_cache (w_ext w) E (is_static_range init) True ?cm = (Inr (), w_cm w)"
    using ok(3) by (auto simp: cm_new_def Let_def split: prod.splits sum.splits if_splits)
  have load: "cache_dir ?cm = cdir" "cache_map ?cm = []" "disk ?cm = clean_temp_dir E tdir (delete_java_cache_data E data_dir d)"
    using ok(3) by (simp_all add: cm_load_def Let_def cm_update_settings_def)
  have "shrinks cdir d (disk ?cm)" unfolding load by (rule shrinks_trans [OF shrinks_delete_java shrinks_clean_temp])
  from tidy_cache_shrinks [OF tidy this] ok(4) load
  have pre: "proper_dir (cache_dir ?cm)" "cache_map ?cm = []" "tidy_cache (w_ext w) (is_static_range init) (cache_dir ?cm) (disk ?cm)" by simp_all
  note checks = external.scan_cache_checks [OF ext scan ok(1) pre]
  show "books_balanced w" using checks(1) ok(2) ext by (simp add: books_balanced_def)
  have "authentic_file w k b" if k: "world_contents w k = Some b" for k b
  proof -
    from k obtain f where f: "plain_info k" "stored_info k = k" "b = f_data f"
      "lookup (disk (w_cm w)) (to_path (x_enc (w_ext w)) k cdir) = Some (File f)"
      using checks(2) load(1) by (auto simp: world_contents_def contents_def split: if_splits option.splits node.splits)
    have "entry_range (w_ext w) cdir (to_path (x_enc (w_ext w)) k cdir) \<noteq> None"
      using external.entry_range_to_path [OF ext f(1)] by simp
    with checks(4) f(4) load(1) have "checked_file (w_ext w) True cdir (to_path (x_enc (w_ext w)) k cdir) f" by simp
    from external.checked_contents [OF ext f(1,2) this] f(3) show ?thesis by (simp add: authentic_file_def)
  qed
  then show "clean_start w" using ext by (simp add: clean_start_def sound_world_def)
qed

text \<open>The invariants of the manager and of the client from such a start on.\<close>

interpretation verified: stateful verified_start cm_step books_balanced
  by unfold_locales (auto intro: verified_start_sound life.step_inv)

interpretation verified_node: content_store verified_start node_step sound_world world_contents authentic_file
proof unfold_locales
  show "sound_world w" if "verified_start w" for w using that by (auto simp: verified_start_def sound_world_def)
  show "authentic_file w k d" if "verified_start w" "world_contents w k = Some d" for w k d
    using verified_start_sound(2) [OF that(1)] that(2) by (simp add: clean_start_def)
qed (blast intro: node.step_inv node.good_keep dest: node.arrival)+

section \<open>Properties\<close>

text \<open>
  A verified start is sound, and stays so: whatever a tidy cache directory held when the client was started
  with a verifying scan (ranges no longer assigned, files of the wrong size, corrupted files), after the start and
  after any sequence of operations the recorded numbers and sizes are those of the files on disk; and as long as
  only downloads are imported, every file in the cache has the hash and the length of its identity.
\<close>

theorem verified_start_stays_sound:
  assumes "reach verified_start step w"
  shows "(step = cm_step \<longrightarrow> accounted (w_ext w) (w_size w) (w_cm w) \<and>
      total_size (w_cm w) = sum_mset (image_mset snd (cached_files (w_ext w) (w_size w) (w_cm w)))) \<and>
    (step = node_step \<longrightarrow> (\<forall>k d. contents (w_ext w) (w_cm w) k = Some d \<longrightarrow>
      x_sha1 (w_ext w) d = fi_hash k \<and> length d = unat (fi_size k)))"
proof (intro conjI impI allI)
  assume "step = cm_step"
  with assms verified.reach_inv have b: "external (w_ext w)" "accounted (w_ext w) (w_size w) (w_cm w)"
    by (auto simp: books_balanced_def)
  then show "accounted (w_ext w) (w_size w) (w_cm w)" by simp
  with external.accounted_total_size [OF b]
  show "total_size (w_cm w) = sum_mset (image_mset snd (cached_files (w_ext w) (w_size w) (w_cm w)))" by (simp add: accounted_def)
next
  fix k d assume "step = node_step" "contents (w_ext w) (w_cm w) k = Some d"
  with assms verified_node.content_good [of w k d] have "authentic_file w k d" by (simp add: world_contents_def)
  then show "x_sha1 (w_ext w) d = fi_hash k" "length d = unat (fi_size k)" by (simp_all add: authentic_file_def)
qed

text \<open>With a working disk a start gets through when the cache directory exists and at most twenty ranges are assigned.\<close>

lemma scan_l2_ok: "io_ok E \<Longrightarrow> \<exists>dirs' d'. scan_l2 E ranges l1 p entries dirs d = (Inr dirs', d')"
  by (induction entries arbitrary: dirs d) (auto simp: Let_def io_ok_def split: option.split)

lemma scan_l1_ok: "io_ok E \<Longrightarrow> \<exists>dirs' d'. scan_l1 E ranges root entries dirs d = (Inr dirs', d')"
proof (induction entries arbitrary: dirs d)
  case (Cons e entries)
  obtain l1 nd where e: "e = (l1, nd)" by (metis surj_pair)
  show ?case
  proof (cases "is_dir E (push_path root l1) d")
    case True
    then have "fs_read_dir E (push_path root l1) d = Some (list_dir (push_path root l1) d)"
      using Cons.prems by (simp add: is_dir_def fs_metadata_def fs_read_dir_def io_ok_def)
    moreover obtain dirs' d' where "scan_l2 E ranges l1 (push_path root l1) (list_dir (push_path root l1) d) dirs d = (Inr dirs', d')"
      using scan_l2_ok [OF Cons.prems] by blast
    ultimately show ?thesis using Cons by (simp add: e Let_def io_ok_def)
  next
    case False
    then show ?thesis using Cons by (simp add: e Let_def io_ok_def)
  qed
qed simp

lemma start_succeeds:
  assumes "io_ok E" "cm = cm_load E data_dir cdir tdir limit init saved d" "lookup (disk cm) (cache_dir cm) = Some Dir"
    and "length (is_static_range init) \<le> 20"
  shows "\<exists>cm'. scan_cache X E (is_static_range init) (verify_cache init) cm = (Inr (), cm') \<and>
    cm_new X E data_dir cdir tdir limit init force saved d = Started cm'"
proof -
  have rd: "fs_read_dir E (cache_dir cm) (disk cm) = Some (list_dir (cache_dir cm) (disk cm))"
    using assms(1,3) by (simp add: fs_read_dir_def io_ok_def)
  obtain dirs d' where "scan_l1 E (is_static_range init) (cache_dir cm) (list_dir (cache_dir cm) (disk cm)) [] (disk cm) = (Inr dirs, d')"
    using scan_l1_ok [OF assms(1)] by blast
  with rd assms(4) have "\<exists>cm'. scan_cache X E (is_static_range init) (verify_cache init) cm = (Inr (), cm')"
    by (auto simp: scan_cache_def split: prod.split)
  then show ?thesis using assms(2) by (auto simp: cm_new_def Let_def)
qed

text \<open>A cache with a good file, a corrupted one and a range that is no longer assigned.\<close>

definition bad_info :: cache_file_info where
  "bad_info = download_info\<lparr>fi_hash := checksum [9]\<rparr>"

definition start_disk :: disk where
  "start_disk = [(''c'', Dir), (''c/00'', Dir), (''c/00/00'', Dir), (''c/ff'', Dir), (''c/ff/00'', Dir),
     (''c/00/00/'' @ file_name hex_encode download_info, File \<lparr>f_data = [1, 2, 3, 4], f_mtime = 0\<rparr>),
     (''c/00/00/'' @ file_name hex_encode bad_info, File \<lparr>f_data = [1, 2, 3, 4], f_mtime = 0\<rparr>)]"

lemma plain_bad_info [simp]: "plain_info bad_info"
  by (simp add: bad_info_def plain_info_def wf_info_def download_info_def checksum_def Let_def proper_type_def file_type_from_def)

lemma zero_range:
  assumes "i = download_info \<or> i = bad_info"
  shows "to_path hex_encode i ''c'' = ''c/00/00/'' @ file_name hex_encode i"
proof -
  have "take 2 (fi_hash i) = [0, 0]" using assms by (auto simp: download_info_def bad_info_def checksum_def Let_def numeral_2_eq_2)
  then have "static_range hex_encode i = ''0000''"
    using hex_digit_01 by (simp add: static_range_def)
  moreover have "plain_info i" using assms by auto
  ultimately show ?thesis using hx.to_path_dir [of i "''c''"] by (simp add: plain_info_def range_dir_def push_path_def)
qed

lemma stored_zero [simp]: "stored_info download_info = download_info" "stored_info bad_info = bad_info"
  by (simp_all add: stored_info_def download_info_def bad_info_def)

lemma start_names:
  "from_file_id hex_decode_to_array (file_name hex_encode download_info) = Some download_info"
  "from_file_id hex_decode_to_array (file_name hex_encode bad_info) = Some bad_info"
  "CHR ''/'' \<notin> set (file_name hex_encode download_info)" "CHR ''/'' \<notin> set (file_name hex_encode bad_info)"
  "file_name hex_encode download_info \<noteq> []" "file_name hex_encode bad_info \<noteq> []"
  "file_name hex_encode download_info \<noteq> file_name hex_encode bad_info"
proof -
  have wf: "wf_info download_info" "wf_info bad_info" using plain_download_info plain_bad_info by (simp_all add: plain_info_def)
  show a: "from_file_id hex_decode_to_array (file_name hex_encode download_info) = Some download_info"
    and b: "from_file_id hex_decode_to_array (file_name hex_encode bad_info) = Some bad_info"
    using hx.file_name_roundtrip [OF wf(1)] hx.file_name_roundtrip [OF wf(2)] by simp_all
  have "download_info \<noteq> bad_info" by (simp add: bad_info_def download_info_def checksum_def Let_def)
  with a b show "file_name hex_encode download_info \<noteq> file_name hex_encode bad_info" by auto
qed (simp_all add: hx.file_name_no_slash, simp_all add: file_name_def)

lemma start_disk_dirs: "lookup start_disk p = Some Dir \<longleftrightarrow> p \<in> set [''c'', ''c/00'', ''c/00/00'', ''c/ff'', ''c/ff/00'']"
  using start_names(5,6) by (auto simp: start_disk_def)

lemma start_disk_files: "lookup start_disk p = Some (File f) \<Longrightarrow>
  p = ''c/00/00/'' @ file_name hex_encode download_info \<or> p = ''c/00/00/'' @ file_name hex_encode bad_info"
  by (auto simp: start_disk_def split: if_splits)

lemma start_disk_tree: "tree_disk ''c'' start_disk"
proof -
  have parents: "parent p \<in> set [''c'', ''c/00'', ''c/00/00'', ''c/ff'', ''c/ff/00'']" if "lookup start_disk p = Some nd" "p \<noteq> ''c''" for p nd
  proof (cases nd)
    case Dir
    then have "p \<in> set [''c'', ''c/00'', ''c/00/00'', ''c/ff'', ''c/ff/00'']" using that(1) by (simp only: start_disk_dirs)
    with that(2) show ?thesis by (auto simp: parent_def)
  next
    case (File f)
    with that start_disk_files [of p f] parent_append [OF start_names(3), of "''c/00/00''"] parent_append [OF start_names(4), of "''c/00/00''"]
    show ?thesis by auto
  qed
  show ?thesis
    unfolding tree_disk_def
  proof (intro allI impI)
    fix q n nd
    assume l: "lookup start_disk (q @ CHR ''/'' # n) = Some nd" and n: "CHR ''/'' \<notin> set n"
    have "CHR ''/'' \<in> set (q @ CHR ''/'' # n)" "CHR ''/'' \<notin> set ''c''" by simp_all
    then have "q @ CHR ''/'' # n \<noteq> ''c''" by metis
    from parents [OF l this] parent_append [OF n, of q] show "lookup start_disk q = Some Dir" by (simp only: start_disk_dirs)
  qed
qed

lemma start_disk_tidy: "tidy_cache sample_ext [''0000''] ''c'' start_disk"
proof -
  have wf: "wf_map start_disk" using start_names(5-7) by (auto simp: start_disk_def wf_map_def)
  have dir: "range_dir ''c'' ''0000'' = ''c/00/00''" by (simp add: range_dir_def push_path_def)
  have ab: "a = ''00'' \<and> b = ''00'' \<or> a = ''ff'' \<and> b = ''00''"
    if "CHR ''/'' \<notin> set a" "CHR ''/'' \<notin> set b" "lookup start_disk (''c'' @ CHR ''/'' # a @ CHR ''/'' # b) = Some Dir" for a b
  proof -
    from that(3) have "CHR ''/'' # a @ CHR ''/'' # b \<in> set [''/00'', ''/00/00'', ''/ff'', ''/ff/00'']"
      by (auto simp: start_disk_dirs)
    then consider "a @ CHR ''/'' # b = ''00''" | "a @ CHR ''/'' # b = ''00/00''" | "a @ CHR ''/'' # b = ''ff''" | "a @ CHR ''/'' # b = ''ff/00''"
      by auto
    then show ?thesis
    proof cases
      case 1
      then have "CHR ''/'' \<in> set ''00''" by (metis in_set_conv_decomp)
      then show ?thesis by simp
    next
      case 2
      with that(1) slash_free_prefix [of a b "''00''" "''00''"] show ?thesis by simp
    next
      case 3
      then have "CHR ''/'' \<in> set ''ff''" by (metis in_set_conv_decomp)
      then show ?thesis by simp
    next
      case 4
      with that(1) slash_free_prefix [of a b "''ff''" "''00''"] show ?thesis by simp
    qed
  qed
  have names: "tidy_dir sample_ext ''c'' ''c/00/00'' start_disk"
    unfolding tidy_dir_def
  proof (intro allI impI)
    fix n info
    assume n: "CHR ''/'' \<notin> set n" "lookup start_disk (''c/00/00'' @ CHR ''/'' # n) \<noteq> None"
      and id: "from_file_id (x_dec sample_ext) n = Some info"
    from n(2) obtain nd where nd: "lookup start_disk (''c/00/00'' @ CHR ''/'' # n) = Some nd" by blast
    have "nd \<noteq> Dir" using nd start_disk_dirs [of "''c/00/00'' @ CHR ''/'' # n"] by auto
    then obtain f where "nd = File f" by (cases nd) auto
    with nd start_disk_files [of "''c/00/00'' @ CHR ''/'' # n" f]
    have "n = file_name hex_encode download_info \<or> n = file_name hex_encode bad_info" by auto
    with id start_names(1,2) zero_range show "to_path (x_enc sample_ext) info ''c'' = ''c/00/00'' @ CHR ''/'' # n" by auto
  qed
  have "''c'' @ CHR ''/'' # a @ CHR ''/'' # b = range_dir ''c'' sr \<and> proper_dir (range_dir ''c'' sr) \<and> tidy_dir sample_ext ''c'' (range_dir ''c'' sr) start_disk"
    if "CHR ''/'' \<notin> set a" "CHR ''/'' \<notin> set b" "lookup start_disk (''c'' @ CHR ''/'' # a @ CHR ''/'' # b) = Some Dir"
      "find (\<lambda>sr. eq_ignore_ascii_case (a @ b) sr) [''0000''] = Some sr" for a b sr
  proof -
    from that(4) have sr: "sr = ''0000''" "eq_ignore_ascii_case (a @ b) ''0000''" by (auto split: if_splits)
    moreover have "\<not> eq_ignore_ascii_case (''ff'' @ ''00'') ''0000''" by (simp add: eq_ignore_ascii_case_def) code_simp
    ultimately have "a = ''00''" "b = ''00''" using ab [OF that(1-3)] by auto
    then show ?thesis using names sr(1) dir by (simp add: proper_dir_def)
  qed
  moreover have "length start_disk < 2 ^ 64" by (simp add: start_disk_def)
  ultimately show ?thesis using wf start_disk_tree unfolding tidy_cache_def by blast
qed

theorem verified_start_stays_sound_witness:
  "\<exists>w. reach verified_start node_step w \<and> reach verified_start cm_step w \<and> contents sample_ext (w_cm w) download_info = Some [1, 2, 3, 4] \<and>
     contents sample_ext (w_cm w) bad_info = None \<and> accounted sample_ext (real_size sample_env) (w_cm w)"
proof -
  let ?init = "\<lparr>verify_cache = True, is_static_range = [''0000'']\<rparr>"
  let ?cm = "cm_load sample_env ''d'' ''c'' ''t'' 9 ?init None start_disk"
  let ?f = "\<lparr>f_data = [1, 2, 3, 4], f_mtime = 0\<rparr>" and ?p = "''c/00/00/'' @ file_name hex_encode download_info"
  have "lookup start_disk ''t'' \<noteq> Some Dir" by (simp add: start_disk_dirs)
  then have "clean_temp_dir sample_env ''t'' start_disk = start_disk" by (simp add: clean_temp_dir_def fs_read_dir_def)
  moreover have "delete_java_cache_data sample_env ''d'' start_disk = start_disk"
    by (simp add: delete_java_cache_data_def try_remove_def fs_remove_file_def start_disk_def push_path_def)
  ultimately have load: "cache_dir ?cm = ''c''" "disk ?cm = start_disk" by (simp_all add: cm_load_def Let_def cm_update_settings_def)
  obtain cm where scan: "scan_cache sample_ext sample_env [''0000''] True ?cm = (Inr (), cm)"
    and new: "cm_new sample_ext sample_env ''d'' ''c'' ''t'' 9 ?init False None start_disk = Started cm"
    using start_succeeds [of sample_env ?cm "''d''" "''c''" "''t''" 9 ?init None start_disk sample_ext False] load
    by (auto simp: start_disk_dirs)
  let ?w = "\<lparr>w_ext = sample_ext, w_size = real_size sample_env, w_cm = cm\<rparr>"
  have start: "verified_start ?w"
    by (rule verified_startI [OF _ _ _ _ _ _ new]) (simp_all add: sx.external_axioms proper_dir_def start_disk_tidy)
  then have r: "reach verified_start node_step ?w" "reach verified_start cm_step ?w" by (simp_all add: reach_init)
  have "lookup (disk cm) ?p = Some (File ?f)"
  proof -
    have "assigned [''0000''] ''c'' ?p"
      unfolding assigned_def by (rule exI [of _ "''00''"], rule exI [of _ "''00''"]) (simp add: eq_ignore_ascii_case_def)
    moreover have "valid_file sample_ext sample_env True ?p ?f"
      using basename_append [OF start_names(3), of "''c/00/00''"] start_names(1)
      by (simp add: valid_file_def) (simp add: download_info_def)
    moreover have "lookup start_disk ?p = Some (File ?f)" using start_names(5) by (simp add: start_disk_def)
    moreover have "wf_map start_disk" using start_disk_tidy by (simp add: tidy_cache_def)
    ultimately show ?thesis
      using scan_cache_keeps [of ?cm "[''0000'']" ?p ?f sample_ext sample_env True] load scan by (simp add: proper_dir_def)
  qed
  moreover have cm: "cache_dir cm = ''c''" "shrinks ''c'' start_disk (disk cm)"
    using sx.scan_cache_checks(2,3) [OF scan] load start_disk_tidy by (simp_all add: proper_dir_def cm_load_def Let_def cm_update_settings_def)
  ultimately have good: "contents sample_ext cm download_info = Some [1, 2, 3, 4]"
    by (simp add: contents_def zero_range)
  note sound = verified_start_stays_sound [OF r(1)] verified_start_stays_sound [OF r(2)]
  have "contents sample_ext cm bad_info = None"
  proof (rule ccontr)
    assume "contents sample_ext cm bad_info \<noteq> None"
    then obtain d where d: "contents sample_ext cm bad_info = Some d" by blast
    then obtain f where f: "lookup (disk cm) (''c/00/00/'' @ file_name hex_encode bad_info) = Some (File f)" "d = f_data f"
      using cm(1) zero_range [of bad_info] by (auto simp: contents_def split: if_splits option.splits node.splits)
    have "lookup start_disk (''c/00/00/'' @ file_name hex_encode bad_info) = Some (File f)"
      using cm(2) f(1) unfolding shrinks_def sub_disk_def by blast
    then have "d = [1, 2, 3, 4]" using f(2) start_names(6,7) by (auto simp: start_disk_def)
    moreover have "checksum d = fi_hash bad_info" using sound(1) d by simp
    ultimately show False by (simp add: bad_info_def checksum_def Let_def)
  qed
  with r good sound(2) show ?thesis by (intro exI [of _ ?w]) simp
qed

text \<open>
  Why the directory has to be tidy: a directory is skipped when the number of its entries is the recorded one, and a good file
  in the wrong directory is recorded for the range in its name.  A single misplaced file thus makes a verifying scan
  keep a corrupted file.
\<close>

theorem misplaced_file_hides_corruption:
  assumes "open_dir E dir (disk cm) = Some [(n, nd)]" "open_dir E q (disk cm) = Some [(n', nd')]" "io_ok E"
    and "fs_metadata E (push_path dir n) (disk cm) = Some (File f)" "from_file_id (x_dec X) n = Some info"
    and "length (f_data f) = unat (fi_size info)" "x_sha1 X (f_data f) = fi_hash info" "cache_map cm = []"
  shows "disk (snd (scan_dirs X E True [(sr, dir), (static_range (x_enc X) info, q)] counter cm)) = disk cm"
proof -
  have same: "cm\<lparr>cache_map := []\<rparr> = cm" using assms(8) by (cases cm) simp
  have one: "scan_dir X E True (sr, dir) cm = (True, scan_file X E True dir n cm)"
    using assms(1,3,8) by (simp add: scan_dir_def list_files_def io_ok_def Let_def) (simp only: same)
  define cm1 where "cm1 = scan_file X E True dir n cm"
  obtain s where "cm1 = cm\<lparr>cache_map := [(static_range (x_enc X) info, s)]\<rparr>" "file_count s = 1"
    using assms(3-8) by (auto simp: cm1_def scan_file_def Let_def fs_filesize_def io_ok_def read_for_hash_def add_file_def default_state_def)
  then have "scan_dir X E True (static_range (x_enc X) info, q) cm1 = (True, cm1)" "disk cm1 = disk cm"
    using assms(2,3) by (simp_all add: scan_dir_def list_files_def io_ok_def Let_def)
  then show ?thesis by (simp add: one cm1_def [symmetric])
qed

end
