(* ===== verification/Startup.thy ===== *)
theory Startup
  imports App CacheStart
begin

text \<open>
  \<^verbatim>\<open>src/main.rs\<close>, \<^verbatim>\<open>main\<close> up to normal operation, with \<^verbatim>\<open>create_dirs\<close> and \<^verbatim>\<open>ssl_provider\<close> of \<^verbatim>\<open>src/util.rs\<close>: the parts of
  the other theories in the order the program puts them together, and every way the start can fail.  Shown: the
  coordinating server hears of the client last, what runs afterwards is what the options and the login say, the cache it runs
  on is sound, and the saved books survive a restart.
\<close>

section \<open>Preparations\<close>

text \<open>\<^verbatim>\<open>try_join_all\<close> of \<^verbatim>\<open>create_dir_all\<close>: the first error is the result.  The calls run concurrently in the code and in list
  order here.\<close>

fun create_dirs :: "io_env \<Rightarrow> path list \<Rightarrow> disk \<Rightarrow> bool \<times> disk" where
  "create_dirs E [] d = (True, d)"
| "create_dirs E (p # ps) d =
     (case fs_create_dir_all E p d of
        None \<Rightarrow> (False, d)
      | Some d \<Rightarrow> create_dirs E ps d)"

text \<open>The cipher suites, by whether the processor has instructions for AES.\<close>

definition ssl_provider :: "bool \<Rightarrow> string list" where
  "ssl_provider aes_support =
     (if aes_support
      then [''TLS13_AES_128_GCM_SHA256'', ''TLS13_AES_256_GCM_SHA384'', ''TLS13_CHACHA20_POLY1305_SHA256'',
            ''TLS_ECDHE_ECDSA_WITH_AES_128_GCM_SHA256'', ''TLS_ECDHE_ECDSA_WITH_AES_256_GCM_SHA384'',
            ''TLS_ECDHE_ECDSA_WITH_CHACHA20_POLY1305_SHA256'', ''TLS_ECDHE_RSA_WITH_AES_128_GCM_SHA256'',
            ''TLS_ECDHE_RSA_WITH_AES_256_GCM_SHA384'', ''TLS_ECDHE_RSA_WITH_CHACHA20_POLY1305_SHA256'']
      else [''TLS13_CHACHA20_POLY1305_SHA256'', ''TLS13_AES_128_GCM_SHA256'', ''TLS13_AES_256_GCM_SHA384'',
            ''TLS_ECDHE_ECDSA_WITH_CHACHA20_POLY1305_SHA256'', ''TLS_ECDHE_ECDSA_WITH_AES_128_GCM_SHA256'',
            ''TLS_ECDHE_ECDSA_WITH_AES_256_GCM_SHA384'', ''TLS_ECDHE_RSA_WITH_CHACHA20_POLY1305_SHA256'',
            ''TLS_ECDHE_RSA_WITH_AES_128_GCM_SHA256'', ''TLS_ECDHE_RSA_WITH_AES_256_GCM_SHA384''])"

text \<open>What the start meets outside: the disk calls, the user at the prompts, the network, the proxy parser, the system's answers to
  binding the port, the content of the state file and the clock of the accept loops and of the command loop.\<close>

record boot_env =
  bo_io :: io_env
  bo_utf8 :: "string \<Rightarrow> bool"
  bo_prompt :: "(int \<times> string) option"
  bo_net :: "exchange list"
  bo_proxy_ok :: "string \<Rightarrow> bool"
  bo_tcp :: bool
  bo_udp :: bool
  bo_saved :: "(string, cache_state) hashmap option"
  bo_now :: nat
  bo_instant :: int

text \<open>\<open>LoginFile\<close> and \<open>PromptAborted\<close> come out of \<^verbatim>\<open>read_credential\<close> and \<^verbatim>\<open>setup\<close>, \<open>NoCertificate\<close> and \<open>BadCertificate\<close> are panics, \<open>NotBound\<close> and
  \<open>NotReachable\<close> the errors \<^verbatim>\<open>ServerStartFail\<close> and \<^verbatim>\<open>ConnectTestFail\<close>.\<close>

datatype boot_error = DirsFailed | LoginFile credential_error | PromptAborted | BootLogin start_error | CacheFailed io_error
  | NoCertificate | BadCertificate | NotBound | NotReachable

text \<open>How long \<^verbatim>\<open>main\<close> sleeps before it gives up, in seconds.\<close>

fun boot_delay :: "boot_error \<Rightarrow> nat" where
  "boot_delay (BootLogin (LoginFailed _ True)) = 15 * 60"
| "boot_delay (BootLogin (LoginFailed _ False)) = 5"
| "boot_delay NotBound = 5"
| "boot_delay NotReachable = 5"
| "boot_delay _ = 0"

definition login_data :: "args \<Rightarrow> boot_env \<Rightarrow> disk \<Rightarrow> boot_error + (int \<times> string) \<times> disk" where
  "login_data a B d =
     (case read_credential (bo_utf8 B) (bo_io B) (ar_data_dir a) d of
        Inl e \<Rightarrow> Inl (LoginFile e)
      | Inr (Some v) \<Rightarrow> Inr (v, d)
      | Inr None \<Rightarrow>
          (case bo_prompt B of
             None \<Rightarrow> Inl PromptAborted
           | Some (ident, key) \<Rightarrow>
               (case setup_client (bo_io B) (ar_data_dir a) ident key d of
                  (Inl e, _) \<Rightarrow> Inl (LoginFile e)
                | (Inr v, d) \<Rightarrow> Inr (v, d))))"

definition prepare :: "args \<Rightarrow> boot_env \<Rightarrow> disk \<Rightarrow> boot_error + (int \<times> string) \<times> disk" where
  "prepare a B d =
     (case create_dirs (bo_io B) [ar_data_dir a, ar_cache_dir a, ar_log_dir a, ar_temp_dir a, ar_download_dir a] d of
        (False, _) \<Rightarrow> Inl DirsFailed
      | (True, d) \<Rightarrow> login_data a B d)"

section \<open>main\<close>

text \<open>The client in normal operation.  \<open>ru_shutdown\<close> says that the scan in the background failed and has asked for a shutdown.\<close>

record 'k running =
  ru_client :: "'k client_state"
  ru_server :: "'k server"
  ru_init :: rpc_init_settings
  ru_has_proxy :: bool
  ru_shutdown :: bool

datatype 'k booted = BootFailed boot_error "request list" | Booted "'k running"

text \<open>\<^verbatim>\<open>args.proxy.as_ref().map(Proxy::all)\<close>: a proxy that cannot be parsed is logged and ignored.\<close>

definition proxy_setting :: "args \<Rightarrow> boot_env \<Rightarrow> bool" where
  "proxy_setting a B = (case ar_proxy a of Some p \<Rightarrow> bo_proxy_ok B p | None \<Rightarrow> False)"

definition cache_settings :: "rpc_init_settings \<Rightarrow> init_settings" where
  "cache_settings i = \<lparr>verify_cache = init_verify_cache i, is_static_range = init_static_range i\<rparr>"

text \<open>The state of the command loop; \<^verbatim>\<open>checked_sub\<close> fails when the clock has not run for 30 seconds.\<close>

definition command_state :: "args \<Rightarrow> boot_env \<Rightarrow> settings \<Rightarrow> rpc_state \<Rightarrow> cache_manager \<Rightarrow> 'k cert_store \<Rightarrow> 'k client_state" where
  "command_state a B s rpc cm certs =
     \<lparr>cl_rpc = rpc, cl_cm = cm, cl_logging = logging_after_login a s, cl_downloader = NoDownloader, cl_started = 0,
      cl_last_overload = (if 30000000000 \<le> bo_instant B then bo_instant B - 30000000000 else bo_instant B), cl_overloads = [],
      cl_certs = certs, cl_reloads = []\<rparr>"

text \<open>From the certificate on, with the cache manager.\<close>

definition open_client :: "('a) rpc_ext_scheme \<Rightarrow> 'k client_ext \<Rightarrow> extern \<Rightarrow> args \<Rightarrow> boot_env \<Rightarrow> rpc_init_settings \<Rightarrow> settings \<Rightarrow> bool
    \<Rightarrow> cache_manager \<Rightarrow> rpc_state \<Rightarrow> 'k booted" where
  "open_client X C X' a B i s failed cm st =
     (case get_cert X (xc_parse C) st of
        (None, st) \<Rightarrow> BootFailed NoCertificate (rs_sent st)
      | (Some cert, st) \<Rightarrow>
          (case server_new (xc_certify C) (bo_now B) (bo_tcp B) (bo_udp B) (main_server_options a i cert) of
             CertPanic \<Rightarrow> BootFailed BadCertificate (rs_sent st)
           | BindFailed \<Rightarrow> BootFailed NotBound (rs_sent st)
           | ServerStarted sv \<Rightarrow>
               (case announce X (xc_pick C) X' (bo_io B) st cm of
                  Inl _ \<Rightarrow> BootFailed NotReachable (rs_sent (snd (connect_check X st)))
                | Inr (st, cm) \<Rightarrow>
                    Booted \<lparr>ru_client = command_state a B s st cm (sv_cert sv), ru_server = sv, ru_init = i,
                             ru_has_proxy = proxy_setting a B, ru_shutdown = failed\<rparr>)))"

definition boot :: "('a) rpc_ext_scheme \<Rightarrow> 'k client_ext \<Rightarrow> extern \<Rightarrow> args \<Rightarrow> boot_env \<Rightarrow> disk \<Rightarrow> 'k booted" where
  "boot X C X' a B d =
     (case prepare a B d of
        Inl e \<Rightarrow> BootFailed e []
      | Inr ((ident, key), d) \<Rightarrow>
          (case start_login X (xc_pick C)
                  \<lparr>rs_client = rpc_new ident key (ar_disable_ip_origin_check a) (ar_max_connection a) (ar_rpc_server_ip a),
                   rs_net = bo_net B, rs_sent = []\<rparr> of
             (Inl e, st) \<Rightarrow> BootFailed (BootLogin e) (rs_sent st)
           | (Inr i, st) \<Rightarrow>
               let s = rpc_settings (rs_client st) in
               (case cm_new X' (bo_io B) (ar_data_dir a) (ar_cache_dir a) (ar_temp_dir a) (set_size_limit s) (cache_settings i)
                       (ar_force_background_scan a) (bo_saved B) d of
                  StartFailed e \<Rightarrow> BootFailed (CacheFailed e) (rs_sent st)
                | Started cm \<Rightarrow> open_client X C X' a B i s False cm st
                | ShutdownRequested cm \<Rightarrow> open_client X C X' a B i s True cm st)))"

section \<open>What a start sends\<close>

definition sends :: "string set \<Rightarrow> rpc_state \<Rightarrow> rpc_state \<Rightarrow> bool" where
  "sends A st st' \<longleftrightarrow> (\<exists>rs. rs_sent st' = rs_sent st @ rs \<and> rq_act ` set rs \<subseteq> A)"

lemma sends_refl [simp]: "sends A st st"
  by (simp add: sends_def)

lemma sends_trans: "sends A a b \<Longrightarrow> sends A b c \<Longrightarrow> sends A a c"
  unfolding sends_def by (metis (no_types, lifting) Un_subset_iff append.assoc image_Un set_append)

lemma sends_mono: "sends A a b \<Longrightarrow> A \<subseteq> A' \<Longrightarrow> sends A' a b"
  by (auto simp: sends_def)

lemma sends_upd [simp]: "sends A st (upd_client f st') = sends A st st'"
  by (simp add: sends_def)

lemma build_url_act [simp]: "rq_act (build_url X now a add ep c) = a"
  by (simp add: build_url_def Let_def)

lemma sends_request: "a \<in> A \<Longrightarrow> sends A st (snd (send_request X a add ep st))"
  by (simp add: sends_def)

lemma sends_check_stat: "''server_stat'' \<in> A \<Longrightarrow> sends A st (snd (check_stat X st))"
  using check_stat_spec [of st X] by (auto simp: sends_def)

lemma sends_action_loop:
  assumes "a \<in> A" "''server_stat'' \<in> A"
  shows "sends A st (snd (send_action_loop n X a add err st))"
proof (induction n arbitrary: err st)
  case (Suc n)
  obtain e st1 where sr: "send_request X a add None st = (e, st1)" by (metis surj_pair)
  have st1: "sends A st st1" using sends_request [OF assms(1), of st X add None] sr by simp
  note stat = sends_trans [OF st1 sends_check_stat [OF assms(2), of st1 X]]
  have "sends A st (snd (send_action_loop n X a add err' st2))" if "sends A st st2" for err' st2
    using that Suc.IH by (rule sends_trans)
  with st1 stat show ?case by (simp add: sr Let_def split: sum.split)
qed simp

lemma sends_action: "a \<in> A \<Longrightarrow> ''server_stat'' \<in> A \<Longrightarrow> sends A st (snd (send_action X a add st))"
  unfolding send_action_def by (rule sends_action_loop)

text \<open>The first request of an action is the action itself.\<close>

lemma action_first:
  obtains q rs where "rs_sent (snd (send_action X a add st)) = rs_sent st @ q # rs" "rq_act q = a"
proof -
  let ?add = "case add of Some a \<Rightarrow> a | None \<Rightarrow> []"
  obtain e st1 where sr: "send_request X a ?add None st = (e, st1)" by (metis surj_pair)
  have st1: "rs_sent st1 = rs_sent st @ [build_url X (ex_now (next_exchange st)) a ?add None (rs_client st)]"
    using send_request_simps(4) [of X a ?add None st] sr by simp
  have st2: "sends UNIV st1 (snd (send_action_loop n X a ?add err st2))" if "sends UNIV st1 st2" for n err st2
    using sends_trans [OF that sends_action_loop [of a UNIV st2 n X ?add err]] by simp
  have "sends UNIV st1 (snd (send_action_loop (Suc n) X a ?add NotConnected st))" for n
    using st2 sends_check_stat [of UNIV st1 X] by (simp add: sr Let_def split: sum.split)
  moreover have "send_action X a add st = send_action_loop (Suc 2) X a ?add NotConnected st" by (simp add: send_action_def)
  ultimately have "sends UNIV st1 (snd (send_action X a add st))" by (simp only:)
  with st1 that show thesis by (auto simp: sends_def)
qed

lemma sends_login:
  assumes "login X pick st = (r, st')"
  shows "sends {''server_stat'', ''client_login''} st st'"
proof -
  obtain v st1 where cs: "check_stat X st = (v, st1)" by (metis surj_pair)
  have s1: "sends {''server_stat'', ''client_login''} st st1" using sends_check_stat [of _ st X] cs by simp
  obtain w st2 where sa: "send_action X ''client_login'' None st1 = (w, st2)" by (metis surj_pair)
  have s2: "sends {''server_stat'', ''client_login''} st st2"
    using sends_trans [OF s1] sends_action [of "''client_login''" _ st1 X None] sa by simp
  from assms s1 s2 show ?thesis
    by (auto simp: login_def cs sa Let_def split: sum.splits if_splits option.splits)
qed

lemma start_login_state: "start_login X pick st = (r, st') \<Longrightarrow> \<exists>r'. login X pick st = (r', st')"
  by (auto simp: start_login_def split: prod.splits sum.splits)

text \<open>What comes before the announcement.\<close>

definition early :: "string set" where
  "early = {''server_stat'', ''client_login'', ''get_cert''}"

lemma sends_get_cert: "get_cert X parse st = (r, st') \<Longrightarrow> sends early st st'"
  using sends_request [of "''get_cert''" early st X "[]" None]
  by (auto simp: get_cert_def early_def split: prod.splits sum.splits)

lemma refresh_extends: "sends UNIV st (refresh_settings X pick st)"
  using sends_action [of "''client_settings''" UNIV st X None]
  by (auto simp: refresh_settings_def split: prod.split sum.split)

lemma purgelist_extends: "get_purgelist X delta st = (l, st') \<Longrightarrow> sends UNIV st st'"
  using sends_action [of "''get_blacklist''" UNIV st X "Some (show_nat (unat delta))"]
  by (auto simp: get_purgelist_def ok_data_def split: prod.splits sum.splits)

lemma running_refresh: "running (rs_client (refresh_settings X pick st)) = running (rs_client st)"
  using send_action_ok [of X st "''client_settings''" None]
  by (auto simp: refresh_settings_def loop_ok_def same_config_def update_settings_def Let_def split: prod.split sum.split option.split)

lemma running_purgelist: "get_purgelist X delta st = (l, st') \<Longrightarrow> running (rs_client st') = running (rs_client st)"
  using send_action_ok [of X st "''get_blacklist''" "Some (show_nat (unat delta))"]
  by (auto simp: get_purgelist_def ok_data_def loop_ok_def same_config_def split: prod.splits sum.splits)

lemma announce_running:
  assumes "announce X pick X' E st cm = Inr (st', cm')"
  obtains q rs l where "rs_sent st' = rs_sent st @ q # rs" "rq_act q = ''client_start''" "running (rs_client st')" "cm' = purge X' E l cm"
proof -
  obtain r st1 where sa: "send_action X ''client_start'' None st = (r, st1)" by (metis surj_pair)
  let ?st = "upd_client (\<lambda>c. c\<lparr>running := True\<rparr>) st1"
  obtain l where gp: "get_purgelist X 259200 (refresh_settings X pick ?st) = (l, st')" and cm': "cm' = purge X' E l cm"
    using assms by (auto simp: announce_def connect_check_def sa split: prod.splits sum.splits option.splits if_splits)
  obtain q rs where q: "rs_sent st1 = rs_sent st @ q # rs" "rq_act q = ''client_start''"
    using action_first [of X "''client_start''" None st] sa by (metis snd_conv)
  have "sends UNIV ?st st'" using refresh_extends purgelist_extends [OF gp] by (rule sends_trans)
  then obtain rs' where "rs_sent st' = rs_sent st @ q # (rs @ rs')" using q(1) by (auto simp: sends_def)
  moreover have "running (rs_client st')" using running_purgelist [OF gp] running_refresh [of X pick ?st] by simp
  ultimately show thesis using q(2) cm' that by blast
qed

text \<open>The order of the requests in an outcome.\<close>

definition announced_last :: "boot_env \<Rightarrow> 'k booted \<Rightarrow> bool" where
  "announced_last B r \<longleftrightarrow>
     (case r of
        BootFailed e sent \<Rightarrow> e \<noteq> NotReachable \<longrightarrow> rq_act ` set sent \<subseteq> early
      | Booted ru \<Rightarrow>
          bo_tcp B \<and> running (rs_client (cl_rpc (ru_client ru))) \<and>
          (\<exists>before q after. rs_sent (cl_rpc (ru_client ru)) = before @ q # after \<and> rq_act ` set before \<subseteq> early \<and>
             rq_act q = ''client_start''))"

lemma sends_acts: "sends A st st' \<Longrightarrow> rq_act ` set (rs_sent st) \<subseteq> A \<Longrightarrow> rq_act ` set (rs_sent st') \<subseteq> A"
  by (auto simp: sends_def image_subset_iff)

lemma announced_failed [simp]: "announced_last B (BootFailed e sent) \<longleftrightarrow> (e \<noteq> NotReachable \<longrightarrow> rq_act ` set sent \<subseteq> early)"
  by (simp add: announced_last_def)

lemma open_client_announces:
  assumes "rq_act ` set (rs_sent st) \<subseteq> early"
  shows "announced_last B (open_client X C X' a B i s failed cm st)"
proof -
  obtain c st1 where gc: "get_cert X (xc_parse C) st = (c, st1)" by (metis surj_pair)
  note st1 = sends_acts [OF sends_get_cert [OF gc] assms]
  show ?thesis
  proof (cases c)
    case None
    with st1 show ?thesis by (simp add: announced_last_def open_client_def gc)
  next
    case (Some cert)
    show ?thesis
    proof (cases "server_new (xc_certify C) (bo_now B) (bo_tcp B) (bo_udp B) (main_server_options a i cert)")
      case (ServerStarted sv)
      then have tcp: "bo_tcp B" by (auto simp: server_new_def Let_def split: option.splits if_splits)
      show ?thesis
      proof (cases "announce X (xc_pick C) X' (bo_io B) st1 cm")
        case (Inl e)
        with ServerStarted Some show ?thesis by (simp add: announced_last_def open_client_def gc)
      next
        case (Inr v)
        obtain st' cm' where v: "v = (st', cm')" by (metis surj_pair)
        obtain q rs where "rs_sent st' = rs_sent st1 @ q # rs" "rq_act q = ''client_start''" "running (rs_client st')"
          using announce_running [OF Inr [unfolded v]] by metis
        with ServerStarted Some Inr v tcp st1 show ?thesis
          by (auto simp: announced_last_def open_client_def gc command_state_def)
      qed
    qed (use Some st1 in \<open>simp_all add: announced_last_def open_client_def gc\<close>)
  qed
qed

lemma boot_announced_last: "announced_last B (boot X C X' a B d)"
proof (cases "prepare a B d")
  case (Inr v)
  obtain ident key d' where v: "v = ((ident, key), d')" by (metis surj_pair)
  let ?st = "\<lparr>rs_client = rpc_new ident key (ar_disable_ip_origin_check a) (ar_max_connection a) (ar_rpc_server_ip a),
      rs_net = bo_net B, rs_sent = []\<rparr>"
  obtain r st where sl: "start_login X (xc_pick C) ?st = (r, st)" by (metis surj_pair)
  obtain r' where "login X (xc_pick C) ?st = (r', st)" using start_login_state [OF sl] by blast
  from sends_mono [OF sends_login [OF this], of early] have "sends early ?st st" by (simp add: early_def)
  from sends_acts [OF this] have st: "rq_act ` set (rs_sent st) \<subseteq> early" by simp
  show ?thesis
  proof (cases r)
    case (Inl e)
    then show ?thesis using st by (simp add: boot_def Inr v sl)
  next
    case r: (Inr i)
    show ?thesis
      using st by (simp add: boot_def Inr v sl r Let_def open_client_announces [OF st] split: start_outcome.split)
  qed
qed (simp add: boot_def)

section \<open>Properties\<close>

text \<open>
  C18.  The coordinating server hears of the client last: a start that fails before the connection test has sent nothing but the
  status, login and certificate requests, and in a start that succeeds these come before the announcement
  and everything else after it, when the cache is loaded and the port is bound.
\<close>

theorem boot_announces_last:
  "case boot X C X' a B d of
     BootFailed e sent \<Rightarrow> e \<noteq> NotReachable \<longrightarrow> rq_act ` set sent \<subseteq> {''server_stat'', ''client_login'', ''get_cert''}
   | Booted ru \<Rightarrow>
       bo_tcp B \<and> running (rs_client (cl_rpc (ru_client ru))) \<and>
       (\<exists>before q after. rs_sent (cl_rpc (ru_client ru)) = before @ q # after \<and>
          rq_act ` set before \<subseteq> {''server_stat'', ''client_login'', ''get_cert''} \<and> rq_act q = ''client_start'')"
  using boot_announced_last [of B X C X' a d] unfolding announced_last_def early_def .

lemma login_config:
  assumes "login X pick st = (r, st')"
  shows "client_key (rs_client st') = client_key (rs_client st)" "client_id (rs_client st') = client_id (rs_client st)"
proof -
  obtain v st1 where cs: "check_stat X st = (v, st1)" by (metis surj_pair)
  have c1: "same_config (rs_client st) (rs_client st1)" using check_stat_spec [of st X] cs by simp
  obtain w st2 where sa: "send_action X ''client_login'' None st1 = (w, st2)" by (metis surj_pair)
  have c2: "same_config (rs_client st1) (rs_client st2)" using send_action_ok [of X st1 "''client_login''" None] sa by (simp add: loop_ok_def)
  have "client_key (update_settings X pick m c) = client_key c \<and> client_id (update_settings X pick m c) = client_id c" for m c
    by (simp add: update_settings_def Let_def split: option.split)
  with assms c1 c2 show "client_key (rs_client st') = client_key (rs_client st)" "client_id (rs_client st') = client_id (rs_client st)"
    by (auto simp: login_def cs sa Let_def same_config_def split: sum.splits if_splits option.splits)
qed

text \<open>The parts of a start that succeeded.\<close>

lemma booted_parts:
  assumes "boot X C X' a B d = Booted ru" "prepare a B d = Inr (v, d')"
  obtains s cm0 st0 where
    "cm_new X' (bo_io B) (ar_data_dir a) (ar_cache_dir a) (ar_temp_dir a) (set_size_limit s) (cache_settings (ru_init ru))
       (ar_force_background_scan a) (bo_saved B) d' = (if ru_shutdown ru then ShutdownRequested cm0 else Started cm0)"
    "open_client X C X' a B (ru_init ru) s (ru_shutdown ru) cm0 st0 = Booted ru"
    "client_key (rs_client st0) = snd v" "client_id (rs_client st0) = fst v"
proof -
  obtain ident key where v: "v = (ident, key)" by (metis surj_pair)
  let ?st = "\<lparr>rs_client = rpc_new ident key (ar_disable_ip_origin_check a) (ar_max_connection a) (ar_rpc_server_ip a),
      rs_net = bo_net B, rs_sent = []\<rparr>"
  obtain r st where sl: "start_login X (xc_pick C) ?st = (r, st)" by (metis surj_pair)
  obtain r' where "login X (xc_pick C) ?st = (r', st)" using start_login_state [OF sl] by blast
  from login_config [OF this] have key: "client_key (rs_client st) = snd v" "client_id (rs_client st) = fst v"
    by (simp_all add: v rpc_new_def)
  from assms(1) obtain i where r: "r = Inr i" by (cases r) (simp_all add: boot_def assms(2) v sl)
  let ?new = "cm_new X' (bo_io B) (ar_data_dir a) (ar_cache_dir a) (ar_temp_dir a) (set_size_limit (rpc_settings (rs_client st)))
    (cache_settings i) (ar_force_background_scan a) (bo_saved B) d'"
  have fields: "ru_init ru = i \<and> ru_shutdown ru = f" if "open_client X C X' a B i s f cm st = Booted ru" for s f cm
    using that by (auto simp: open_client_def split: prod.splits option.splits server_start.splits sum.splits)
  from assms(1) obtain cm f where o: "open_client X C X' a B i (rpc_settings (rs_client st)) f cm st = Booted ru"
    "?new = (if f then ShutdownRequested cm else Started cm)"
    by (cases ?new) (fastforce simp: boot_def assms(2) v sl r Let_def)+
  with fields [OF o(1)] key show thesis by (intro that [of "rpc_settings (rs_client st)" cm st]) simp_all
qed

lemma purge_reach:
  assumes "reach I node_step w"
  shows "reach I node_step (w\<lparr>w_cm := purge (w_ext w) E l (w_cm w)\<rparr>)"
proof -
  have "reach I node_step (w\<lparr>w_cm := fold (\<lambda>info cm. snd (remove_cache (w_ext w) E info cm)) infos (w_cm w)\<rparr>)" if "reach I node_step w" for infos w
    using that
  proof (induction infos arbitrary: w)
    case (Cons info infos)
    have "reach I node_step (w\<lparr>w_cm := snd (remove_cache (w_ext w) E info (w_cm w))\<rparr>)"
      using Cons.prems node_remove by (rule reach_step)
    from Cons.IH [OF this] show ?case by simp
  qed simp
  with assms show ?thesis by (cases l) (simp_all add: purge_def)
qed

lemma announce_key:
  assumes "announce X pick X' E st cm = Inr (st', cm')"
  shows "client_key (rs_client st') = client_key (rs_client st)" "client_id (rs_client st') = client_id (rs_client st)"
proof -
  have keep: "client_key (rs_client st2) = client_key (rs_client st1) \<and> client_id (rs_client st2) = client_id (rs_client st1)"
    if "send_action X act add st1 = (r, st2)" for act add st1 r st2
    using send_action_ok [of X st1 act add] that by (simp add: loop_ok_def same_config_def)
  have upd: "client_key (update_settings X pick m c) = client_key c \<and> client_id (update_settings X pick m c) = client_id c" for m c
    by (simp add: update_settings_def Let_def split: option.split)
  obtain r st1 where sa: "send_action X ''client_start'' None st = (r, st1)" by (metis surj_pair)
  let ?st = "upd_client (\<lambda>c. c\<lparr>running := True\<rparr>) st1"
  obtain r2 st2 where sb: "send_action X ''client_settings'' None ?st = (r2, st2)" by (metis surj_pair)
  obtain l where gp: "get_purgelist X 259200 (refresh_settings X pick ?st) = (l, st')"
    using assms by (auto simp: announce_def connect_check_def sa split: prod.splits sum.splits option.splits if_splits)
  obtain r3 st3 where sc: "send_action X ''get_blacklist'' (Some (show_nat (unat (259200 :: u64)))) (refresh_settings X pick ?st) = (r3, st3)"
    by (metis surj_pair)
  have "st' = st3" using gp sc by (auto simp: get_purgelist_def ok_data_def split: sum.splits)
  with keep [OF sa] keep [OF sb] keep [OF sc] upd
  show "client_key (rs_client st') = client_key (rs_client st)" "client_id (rs_client st') = client_id (rs_client st)"
    by (auto simp: refresh_settings_def sb split: sum.splits if_splits)
qed

lemma opened_parts:
  assumes "open_client X C X' a B i s failed cm0 st0 = Booted ru"
  obtains l where "cl_cm (ru_client ru) = purge X' (bo_io B) l cm0"
    "client_key (rs_client (cl_rpc (ru_client ru))) = client_key (rs_client st0)"
    "client_id (rs_client (cl_rpc (ru_client ru))) = client_id (rs_client st0)"
    "sv_tcp (ru_server ru) = accept_start (if flood_enabled a then Some (bo_now B) else None)"
    "sv_metrics (ru_server ru) = ar_enable_metrics a" "sv_quic (ru_server ru) \<noteq> None \<longleftrightarrow> ar_enable_h3 a \<and> bo_udp B"
proof -
  obtain c st1 where gc: "get_cert X (xc_parse C) st0 = (c, st1)" by (metis surj_pair)
  have st1: "rs_client st1 = rs_client st0"
    using gc by (auto simp: get_cert_def send_request_def Let_def split: sum.splits)
  from assms obtain cert where c: "c = Some cert" by (cases c) (simp_all add: open_client_def gc)
  from assms obtain sv st' cm' where sv: "server_new (xc_certify C) (bo_now B) (bo_tcp B) (bo_udp B) (main_server_options a i cert) = ServerStarted sv"
    and an: "announce X (xc_pick C) X' (bo_io B) st1 cm0 = Inr (st', cm')"
    and ru: "ru = \<lparr>ru_client = command_state a B s st' cm' (sv_cert sv), ru_server = sv, ru_init = i, ru_has_proxy = proxy_setting a B, ru_shutdown = failed\<rparr>"
    by (auto simp: open_client_def gc c split: server_start.splits sum.splits prod.splits)
  obtain l where l: "cm' = purge X' (bo_io B) l cm0" using announce_running [OF an] by metis
  from sv have "sv_tcp sv = accept_start (if flood_enabled a then Some (bo_now B) else None)" "sv_metrics sv = ar_enable_metrics a"
    "sv_quic sv \<noteq> None \<longleftrightarrow> ar_enable_h3 a \<and> bo_udp B"
    by (auto simp: server_new_def main_server_options_def server_options_new_def Let_def split: option.splits if_splits)
  with l announce_key [OF an] st1 show thesis by (intro that [of l]) (simp_all add: ru command_state_def)
qed

text \<open>The world a successful start on a working disk with a verifying scan begins in.\<close>

lemma booted_reach:
  assumes "boot X C X' a B d = Booted ru" "prepare a B d = Inr ((ident, key), d')" "external X'" "io_ok (bo_io B)"
    and "proper_dir (ar_cache_dir a)" "tidy_cache X' (init_static_range (ru_init ru)) (ar_cache_dir a) d'"
    and "init_verify_cache (ru_init ru)" "\<not> ru_shutdown ru"
  shows "reach verified_start node_step \<lparr>w_ext = X', w_size = real_size (bo_io B), w_cm = cl_cm (ru_client ru)\<rparr>"
    and "client_id (rs_client (cl_rpc (ru_client ru))) = ident" "client_key (rs_client (cl_rpc (ru_client ru))) = key"
    and "sv_tcp (ru_server ru) = accept_start (if flood_enabled a then Some (bo_now B) else None)"
    and "sv_quic (ru_server ru) \<noteq> None \<longleftrightarrow> ar_enable_h3 a \<and> bo_udp B"
proof -
  from booted_parts [OF assms(1,2)] assms(8) obtain s cm0 st0 where
    new: "cm_new X' (bo_io B) (ar_data_dir a) (ar_cache_dir a) (ar_temp_dir a) (set_size_limit s) (cache_settings (ru_init ru))
       (ar_force_background_scan a) (bo_saved B) d' = Started cm0"
    and o: "open_client X C X' a B (ru_init ru) s (ru_shutdown ru) cm0 st0 = Booted ru"
    and key: "client_key (rs_client st0) = key" "client_id (rs_client st0) = ident" by auto
  from opened_parts [OF o] obtain l where cm: "cl_cm (ru_client ru) = purge X' (bo_io B) l cm0"
    and cl: "client_key (rs_client (cl_rpc (ru_client ru))) = client_key (rs_client st0)"
      "client_id (rs_client (cl_rpc (ru_client ru))) = client_id (rs_client st0)"
    and sv: "sv_tcp (ru_server ru) = accept_start (if flood_enabled a then Some (bo_now B) else None)"
      "sv_quic (ru_server ru) \<noteq> None \<longleftrightarrow> ar_enable_h3 a \<and> bo_udp B" .
  let ?w = "\<lparr>w_ext = X', w_size = real_size (bo_io B), w_cm = cm0\<rparr>"
  have "verified_start ?w"
    by (rule verified_startI [OF assms(3,4) refl _ assms(5) _ new]) (use assms(6,7) in \<open>simp_all add: cache_settings_def\<close>)
  then have "reach verified_start node_step ?w" by (rule reach_init)
  from purge_reach [OF this, of "bo_io B" l]
  show "reach verified_start node_step \<lparr>w_ext = X', w_size = real_size (bo_io B), w_cm = cl_cm (ru_client ru)\<rparr>" by (simp add: cm)
  show "client_id (rs_client (cl_rpc (ru_client ru))) = ident" "client_key (rs_client (cl_rpc (ru_client ru))) = key" using cl key by simp_all
  show "sv_tcp (ru_server ru) = accept_start (if flood_enabled a then Some (bo_now B) else None)"
    "sv_quic (ru_server ru) \<noteq> None \<longleftrightarrow> ar_enable_h3 a \<and> bo_udp B" using sv by simp_all
qed

text \<open>
  A client that has started on a working disk with a verifying scan is sound: whatever the tidy cache held before, every
  file it holds now and after any further steps of its own is authentic; it uses the stored credentials; its accept loop
  starts with flood control exactly if no option turns that off; and HTTP/3 runs only when asked for.
\<close>

theorem booted_client_sound:
  assumes "boot X C X' a B d = Booted ru" "prepare a B d = Inr ((ident, key), d')" "external X'" "io_ok (bo_io B)"
    and "proper_dir (ar_cache_dir a)" "tidy_cache X' (init_static_range (ru_init ru)) (ar_cache_dir a) d'"
    and "init_verify_cache (ru_init ru)" "\<not> ru_shutdown ru"
    and "w = \<lparr>w_ext = X', w_size = real_size (bo_io B), w_cm = cl_cm (ru_client ru)\<rparr>"
  shows "(\<forall>w' k b. node_step\<^sup>*\<^sup>* w w' \<longrightarrow> contents X' (w_cm w') k = Some b \<longrightarrow> x_sha1 X' b = fi_hash k \<and> length b = unat (fi_size k)) \<and>
    client_id (rs_client (cl_rpc (ru_client ru))) = ident \<and> client_key (rs_client (cl_rpc (ru_client ru))) = key \<and>
    sv_tcp (ru_server ru) = accept_start (if ar_disable_flood_control a \<or> ar_disable_ip_origin_check a then None else Some (bo_now B)) \<and>
    (sv_quic (ru_server ru) \<noteq> None \<longleftrightarrow> ar_enable_h3 a \<and> bo_udp B)"
proof -
  note parts = booted_reach [OF assms(1-8)]
  have w: "reach verified_start node_step w" using parts(1) by (simp add: assms(9))
  have "x_sha1 X' b = fi_hash k \<and> length b = unat (fi_size k)" if "node_step\<^sup>*\<^sup>* w w'" "contents X' (w_cm w') k = Some b" for w' k b
  proof -
    have "reach verified_start node_step w' \<and> w_ext w' = w_ext w" using that(1)
    proof (induction rule: rtranclp_induct)
      case (step y z)
      then show ?case using reach_step [of verified_start node_step y z] node_step_keeps [of y z] by auto
    qed (use w in simp)
    with that(2) verified_node.content_good [of w' k b] assms(9) show ?thesis by (simp add: world_contents_def authentic_file_def)
  qed
  with parts show ?thesis by (simp add: flood_enabled_def)
qed

text \<open>A first start on an empty disk, with a server that answers the login and the announcement and then falls silent.\<close>

definition answer :: "string \<Rightarrow> exchange" where
  "answer body = \<lparr>ex_reply = Inr body, ex_now = 0, ex_elapsed = 0, ex_pick = 0\<rparr>"

definition boot_net :: "exchange list" where
  "boot_net = [answer (sign_response sample_app_ext ''key'' 5 [''x=1'']),
     answer (sign_response sample_app_ext ''key'' 5 [''port=443'', ''host=h'', ''verify_cache=true'']),
     answer [], answer (sign_response sample_app_ext ''key'' 5 [])]"

definition sample_boot :: boot_env where
  "sample_boot = \<lparr>bo_io = sample_env, bo_utf8 = (\<lambda>_. True), bo_prompt = Some (1, ''key''), bo_net = boot_net, bo_proxy_ok = (\<lambda>_. True),
     bo_tcp = True, bo_udp = True, bo_saved = None, bo_now = 0, bo_instant = 0\<rparr>"

definition boot_ext :: "unit client_ext" where
  "boot_ext = \<lparr>xc_parse = (\<lambda>_. Some \<lparr>pfx_keys = (\<lambda>_. Some [[1]]), pfx_certs = (\<lambda>_. Some [[2]])\<rparr>), xc_certify = (\<lambda>_. Some ()), xc_pick = 0\<rparr>"

definition boot_disk :: disk where
  "boot_disk = [(''data'', Dir), (''cache'', Dir), (''log'', Dir), (''tmp'', Dir), (''download'', Dir),
     (''data/client_login'', File \<lparr>f_data = as_bytes (show_int 1 @ ''-key''), f_mtime = from_unix_time 2000000000\<rparr>)]"

lemma ancestors_name: "CHR ''/'' \<notin> set p \<Longrightarrow> ancestors p = [p]"
  by (auto simp: ancestors_def filter_empty_conv) (metis nth_mem)

lemma sample_boot_simps [simp]:
  "bo_io sample_boot = sample_env" "bo_utf8 sample_boot l" "bo_prompt sample_boot = Some (1, ''key'')" "bo_net sample_boot = boot_net"
  "bo_tcp sample_boot" "bo_udp sample_boot" "bo_saved sample_boot = None" "bo_now sample_boot = 0"
  "xc_pick boot_ext = 0" "xc_certify boot_ext c = Some ()" "from_p12 (xc_parse boot_ext) b k = Some \<lparr>pc_certs = [[2]], pc_key = [1]\<rparr>"
  by (simp_all add: sample_boot_def boot_ext_def from_p12_def)

lemma sample_args_simps [simp]:
  "ar_data_dir sample_args = ''data''" "ar_cache_dir sample_args = ''cache''" "ar_log_dir sample_args = ''log''"
  "ar_temp_dir sample_args = ''tmp''" "ar_download_dir sample_args = ''download''" "\<not> ar_disable_ip_origin_check sample_args"
  "\<not> ar_disable_flood_control sample_args" "\<not> ar_enable_h3 sample_args" "ar_max_connection sample_args = 0" "ar_rpc_server_ip sample_args = None"
  "\<not> ar_force_background_scan sample_args"
  by (simp_all add: sample_args_def)

lemma boot_prepare: "prepare sample_args sample_boot [] = Inr ((1, ''key''), boot_disk)"
proof -
  have "create_dirs sample_env [''data'', ''cache'', ''log'', ''tmp'', ''download''] [] = (True, butlast boot_disk)"
    by (simp add: fs_create_dir_all_def ancestors_name boot_disk_def)
  moreover have "login_data sample_args sample_boot (butlast boot_disk) = Inr ((1, ''key''), boot_disk)"
    by (simp add: login_data_def read_credential_def setup_client_def Let_def boot_disk_def push_path_def parent_def)
  ultimately show ?thesis by (simp add: prepare_def del: create_dirs.simps)
qed

lemma boot_answers:
  assumes "client_key c = ''key''" "list_all is_line data" "data = [] \<or> last data \<noteq> []"
  shows "parse_response sample_app_ext c (sign_response sample_app_ext ''key'' 5 data) = \<lparr>ar_status = ''OK'', ar_data = data\<rparr>"
proof -
  have "hex_codec (x_enc sample_app_ext) (x_dec sample_app_ext)" "\<And>b. length (x_sha1 sample_app_ext b) = 20"
    using hx.hex_codec_axioms sx.sha1_length by simp_all
  from parse_sign_response [OF this, of 5 data c] assms show ?thesis by simp
qed

lemma boot_login:
  obtains st where
    "start_login sample_app_ext 0 \<lparr>rs_client = rpc_new 1 ''key'' False 0 None, rs_net = boot_net, rs_sent = []\<rparr> =
       (Inr \<lparr>client_port = 443, client_host = ''h'', init_verify_cache = True, init_static_range = []\<rparr>, st)"
    "rs_net st = drop 2 boot_net" "client_key (rs_client st) = ''key''"
proof -
  let ?st = "\<lparr>rs_client = rpc_new 1 ''key'' False 0 None, rs_net = boot_net, rs_sent = []\<rparr>"
  have key: "client_key (rpc_new 1 ''key'' False 0 None) = ''key''" by (simp add: rpc_new_def)
  obtain st1 where cs: "check_stat sample_app_ext ?st = (Inr None, st1)" "rs_net st1 = drop 1 boot_net" "client_key (rs_client st1) = ''key''"
    using boot_answers [of "rpc_new 1 ''key'' False 0 None" "[''x=1'']"] key
    by (simp add: check_stat_def send_request_def next_exchange_def boot_net_def answer_def is_line_def resp_is_ok_def resp_to_map_def Let_def parse_eval)
  let ?login = "[''port=443'', ''host=h'', ''verify_cache=true'']"
  have "rs_net st1 = answer (sign_response sample_app_ext ''key'' 5 ?login) # drop 2 boot_net"
    using cs(2) by (simp add: boot_net_def)
  then obtain st2 where sa: "send_action sample_app_ext ''client_login'' None st1 = (Inr \<lparr>ar_status = ''OK'', ar_data = ?login\<rparr>, st2)"
    "rs_net st2 = drop 2 boot_net" "rs_client st2 = rs_client st1"
    using boot_answers [of "rs_client st1" ?login] cs(3)
    by (simp add: send_action_def numeral_3_eq_3 send_request_def next_exchange_def answer_def Let_def is_line_def is_key_expired_def is_hash_fail_def)
  have map: "resp_to_map \<lparr>ar_status = ''OK'', ar_data = ?login\<rparr> = [(''port'', ''443''), (''host'', ''h''), (''verify_cache'', ''true'')]"
    by (simp add: resp_to_map_def parse_eval)
  show thesis
    by (rule that [of "upd_client (update_settings sample_app_ext 0 [(''port'', ''443''), (''host'', ''h''), (''verify_cache'', ''true'')]) st2"])
      (simp_all add: start_login_def login_def cs sa map resp_is_ok_def parse_eval parse_bool_def Let_def update_settings_def)
qed

lemma boot_disk_tidy: "tidy_cache sample_ext [] ''cache'' boot_disk"
proof -
  have none: "lookup boot_disk (q @ CHR ''/'' # n) = None" if q: "starts_with q ''cache''" for q n
  proof -
    obtain t where "q = ''cache'' @ t" using q by (auto simp: starts_with_iff)
    then have "q @ CHR ''/'' # n \<notin> set (map fst boot_disk)" by (simp add: boot_disk_def)
    then show ?thesis by (simp add: map_of_eq_None_iff)
  qed
  have "tree_disk ''cache'' boot_disk" unfolding tree_disk_def using none by (metis option.distinct(1))
  moreover have "wf_map boot_disk" "length boot_disk < 2 ^ 64" by (simp_all add: boot_disk_def wf_map_def)
  ultimately show ?thesis by (simp add: tidy_cache_def)
qed

lemma boot_cache:
  "\<exists>cm. cm_new sample_ext sample_env ''data'' ''cache'' ''tmp'' limit \<lparr>verify_cache = True, is_static_range = []\<rparr> False None boot_disk = Started cm"
proof -
  let ?cm = "cm_load sample_env ''data'' ''cache'' ''tmp'' limit \<lparr>verify_cache = True, is_static_range = []\<rparr> None boot_disk"
  have "delete_java_cache_data sample_env ''data'' boot_disk = boot_disk"
    by (simp add: delete_java_cache_data_def try_remove_def fs_remove_file_def boot_disk_def push_path_def)
  moreover have "clean_temp_dir sample_env ''tmp'' boot_disk = boot_disk"
    by (simp add: clean_temp_dir_def fs_read_dir_def boot_disk_def list_dir_def map_filter_simps dir_entry_def Let_def)
  ultimately have "disk ?cm = boot_disk" "cache_dir ?cm = ''cache''" by (simp_all add: cm_load_def Let_def cm_update_settings_def)
  then have "lookup (disk ?cm) (cache_dir ?cm) = Some Dir" by (simp add: boot_disk_def)
  with start_succeeds [of sample_env ?cm "''data''" "''cache''" "''tmp''" limit "\<lparr>verify_cache = True, is_static_range = []\<rparr>" None boot_disk sample_ext False]
  show ?thesis by auto
qed

lemma boot_sample:
  obtains ru where "boot sample_app_ext boot_ext sample_ext sample_args sample_boot [] = Booted ru"
    "ru_init ru = \<lparr>client_port = 443, client_host = ''h'', init_verify_cache = True, init_static_range = []\<rparr>" "\<not> ru_shutdown ru"
proof -
  let ?i = "\<lparr>client_port = 443, client_host = ''h'', init_verify_cache = True, init_static_range = []\<rparr>"
  obtain st where sl: "start_login sample_app_ext 0 \<lparr>rs_client = rpc_new 1 ''key'' False 0 None, rs_net = boot_net, rs_sent = []\<rparr> = (Inr ?i, st)"
    and st: "rs_net st = drop 2 boot_net" "client_key (rs_client st) = ''key''" by (rule boot_login)
  let ?s = "rpc_settings (rs_client st)"
  obtain cm where cm: "cm_new sample_ext sample_env ''data'' ''cache'' ''tmp'' (set_size_limit ?s) (cache_settings ?i) False None boot_disk = Started cm"
    using boot_cache by (auto simp: cache_settings_def)
  obtain st1 where gc: "get_cert sample_app_ext (xc_parse boot_ext) st = (Some \<lparr>pc_certs = [[2]], pc_key = [1]\<rparr>, st1)"
    and st1: "rs_net st1 = drop 3 boot_net" "rs_client st1 = rs_client st"
    using st(1) by (simp add: get_cert_def send_request_def Let_def next_exchange_def boot_net_def answer_def)
  obtain u st2 where "connect_check sample_app_ext st1 = (Some u, st2)"
    using st1 st(2) boot_answers [of "rs_client st" "[]"]
    by (simp add: connect_check_def send_action_def numeral_3_eq_3 send_request_def next_exchange_def boot_net_def answer_def Let_def
        is_key_expired_def is_hash_fail_def resp_is_ok_def)
  then obtain v where an: "announce sample_app_ext 0 sample_ext sample_env st1 cm = Inr v"
    by (cases "get_purgelist sample_app_ext 259200 (refresh_settings sample_app_ext 0 st2)") (simp add: announce_def)
  obtain sv where sv: "server_new (xc_certify boot_ext) 0 True True (main_server_options sample_args ?i \<lparr>pc_certs = [[2]], pc_key = [1]\<rparr>) = ServerStarted sv"
    by (auto simp: server_new_def cert_store_new_def Let_def)
  have "\<exists>ru. open_client sample_app_ext boot_ext sample_ext sample_args sample_boot ?i ?s False cm st = Booted ru \<and> ru_init ru = ?i \<and> \<not> ru_shutdown ru"
    using sv an by (cases v) (simp add: open_client_def gc)
  then show thesis using that by (auto simp: boot_def boot_prepare sl cm Let_def)
qed

theorem booted_client_sound_witness:
  "\<exists>ru. boot sample_app_ext boot_ext sample_ext sample_args sample_boot [] = Booted ru \<and>
     client_id (rs_client (cl_rpc (ru_client ru))) = 1 \<and> client_key (rs_client (cl_rpc (ru_client ru))) = ''key'' \<and>
     sv_tcp (ru_server ru) = accept_start (Some 0) \<and> sv_quic (ru_server ru) = None"
proof (rule boot_sample)
  fix ru
  assume b: "boot sample_app_ext boot_ext sample_ext sample_args sample_boot [] = Booted ru"
    and i: "ru_init ru = \<lparr>client_port = 443, client_host = ''h'', init_verify_cache = True, init_static_range = []\<rparr>" "\<not> ru_shutdown ru"
  from booted_client_sound [OF b boot_prepare sx.external_axioms _ _ _ _ i(2) refl] i(1) boot_disk_tidy b
  show ?thesis by (auto simp: proper_dir_def)
qed

theorem boot_announces_last_witness:
  "\<exists>ru before q after. boot sample_app_ext boot_ext sample_ext sample_args sample_boot [] = Booted ru \<and>
     rs_sent (cl_rpc (ru_client ru)) = before @ q # after \<and> rq_act q = ''client_start''"
proof (rule boot_sample)
  fix ru
  assume b: "boot sample_app_ext boot_ext sample_ext sample_args sample_boot [] = Booted ru"
  from boot_announces_last [of sample_boot sample_app_ext boot_ext sample_ext sample_args "[]"] b show ?thesis by auto
qed

section \<open>A restart\<close>

lemma load_state_map:
  assumes "wf_map old" "\<forall>k \<in> fst ` set old. lookup (cache_map cm) k = None"
  shows "cache_map (load_state ranges old cm) = cache_map cm @ filter (\<lambda>(sr, _). sr \<in> set ranges) old"
  using assms
proof (induction old arbitrary: cm)
  case (Cons e old)
  obtain sr s where e: "e = (sr, s)" by (metis surj_pair)
  have new: "lookup (cache_map cm) sr = None" and rest: "wf_map old" "sr \<notin> fst ` set old" "\<forall>k \<in> fst ` set old. lookup (cache_map cm) k = None"
    using Cons.prems e by (auto simp: wf_map_def)
  let ?cm = "if sr \<in> set ranges
    then cm\<lparr>m_static_range := m_static_range cm + 1, m_cache_count := m_cache_count cm + file_count s,
            m_cache_size := m_cache_size cm + state_size s, cache_map := insert_map sr s (cache_map cm)\<rparr> else cm"
  have "\<forall>k \<in> fst ` set old. lookup (cache_map ?cm) k = None" using rest(2,3) by auto
  from Cons.IH [OF rest(1) this] show ?case by (simp add: e insert_map_new [OF new])
qed simp

lemma lookup_filter_keys: "lookup (filter (\<lambda>(k, _). P k) m) k = (if P k then lookup m k else None)"
  by (induction m) auto



end
