(* ===== verification/RequestLog.thy ===== *)
theory RequestLog
  imports Middleware
begin

text \<open>
  \<^verbatim>\<open>src/middleware/logger.rs\<close>, the requests in flight: the number a request gets, the two lines it leaves in the log,
  and the counters it adds to when its response body is dropped.  Durations are not modelled.
\<close>

section \<open>The finalizer and the counters\<close>

text \<open>A request is with the inner service, then its body is sent, then the body is dropped.  A request that fails or is
  cancelled before its response has no finalizer.\<close>

datatype logged_phase = Calling | Sending | Finished | Cancelled

record logged_request =
  lr_count :: u64
  lr_ip :: string
  lr_head :: bool
  lr_line :: string
  lr_version :: string
  lr_code :: u16
  lr_size :: u64
  lr_phase :: logged_phase

datatype access_line = Begun u64 string u16 u64 string | Done u64 string u16 u64

record request_log =
  rl_sent :: u64
  rl_sizes :: "(string, u64) hashmap"
  rl_requests :: "logged_request list"
  rl_lines :: "access_line list"

definition request_log_new :: request_log where
  "request_log_new = \<lparr>rl_sent = 0, rl_sizes = [], rl_requests = [], rl_lines = []\<rparr>"

text \<open>\<^verbatim>\<open>call\<close> up to the call of the inner service; the counter returns its value before the increment.\<close>

definition logger_call :: "string option \<Rightarrow> string \<Rightarrow> string \<Rightarrow> string option \<Rightarrow> string \<Rightarrow> request_log \<Rightarrow> request_log" where
  "logger_call addr meth path query version st =
     (let count = rl_sent st + 1;
          ip = (case addr of Some a \<Rightarrow> a | None \<Rightarrow> ''-'');
          r = \<lparr>lr_count = count, lr_ip = ip, lr_head = (meth = ''HEAD''), lr_line = request_line meth path query version,
               lr_version = version, lr_code = 0, lr_size = 0, lr_phase = Calling\<rparr>
      in st\<lparr>rl_sent := count, rl_requests := rl_requests st @ [r]\<rparr>)"

text \<open>The inner service has answered.\<close>

definition logger_respond :: "u16 \<Rightarrow> string option \<Rightarrow> logged_request \<Rightarrow> request_log \<Rightarrow> logged_request \<times> request_log" where
  "logger_respond code content_length r st =
     (r\<lparr>lr_code := code, lr_phase := Sending\<rparr>,
      st\<lparr>rl_lines := rl_lines st @ [Begun (lr_count r) (lr_ip r) code (announced_size (lr_head r) content_length) (lr_line r)]\<rparr>)"

text \<open>\<^verbatim>\<open>LoggerFinalizer::drop\<close>.\<close>

definition logger_drop :: "logged_request \<Rightarrow> request_log \<Rightarrow> logged_request \<times> request_log" where
  "logger_drop r st =
     (let old = (case lookup (rl_sizes st) (lr_version r) of Some n \<Rightarrow> n | None \<Rightarrow> 0)
      in (r\<lparr>lr_phase := Finished\<rparr>,
          st\<lparr>rl_lines := rl_lines st @ [Done (lr_count r) (lr_ip r) (lr_code r) (lr_size r)],
             rl_sizes := insert_map (lr_version r) (old + lr_size r) (rl_sizes st)\<rparr>))"

text \<open>The interleaving of the requests; a request is named by its position.  \<open>Frame\<close> is a frame that was polled,
  with its number of data bytes, \<open>Fail\<close> an error of the inner service, \<open>Gone\<close> the dropping of a
  request or of its body.\<close>

datatype logger_event =
  Call "string option" string string "string option" string | Respond nat u16 "string option" | Frame nat nat | Fail nat | Gone nat

definition set_logged :: "nat \<Rightarrow> logged_request \<times> request_log \<Rightarrow> request_log" where
  "set_logged i p = (case p of (r, st) \<Rightarrow> st\<lparr>rl_requests := (rl_requests st)[i := r]\<rparr>)"

definition on_request :: "nat \<Rightarrow> logged_phase \<Rightarrow> (logged_request \<Rightarrow> request_log \<Rightarrow> logged_request \<times> request_log) \<Rightarrow> request_log \<Rightarrow> request_log" where
  "on_request i ph f st =
     (if i < length (rl_requests st) \<and> lr_phase (rl_requests st ! i) = ph then set_logged i (f (rl_requests st ! i) st) else st)"

definition logger_step :: "logger_event \<Rightarrow> request_log \<Rightarrow> request_log" where
  "logger_step e st =
     (case e of
        Call addr m p q v \<Rightarrow> logger_call addr m p q v st
      | Respond i code cl \<Rightarrow> on_request i Calling (logger_respond code cl) st
      | Frame i n \<Rightarrow> on_request i Sending (\<lambda>r st. (r\<lparr>lr_size := lr_size r + of_nat n\<rparr>, st)) st
      | Fail i \<Rightarrow> on_request i Calling (\<lambda>r st. (r\<lparr>lr_phase := Cancelled\<rparr>, st)) st
      | Gone i \<Rightarrow> on_request i Calling (\<lambda>r st. (r\<lparr>lr_phase := Cancelled\<rparr>, st)) (on_request i Sending logger_drop st))"

section \<open>The access log and the counters agree\<close>

definition sent_by :: "string \<Rightarrow> logged_request \<Rightarrow> u64" where
  "sent_by v r = (if lr_phase r = Finished \<and> lr_version r = v then lr_size r else 0)"

definition sent_total :: "string \<Rightarrow> request_log \<Rightarrow> u64" where
  "sent_total v st = sum_list (map (sent_by v) (rl_requests st))"

definition counted :: "string \<Rightarrow> request_log \<Rightarrow> u64" where
  "counted v st = (case lookup (rl_sizes st) v of Some n \<Rightarrow> n | None \<Rightarrow> 0)"

definition log_inv :: "request_log \<Rightarrow> bool" where
  "log_inv st \<longleftrightarrow>
     rl_sent st = of_nat (length (rl_requests st)) \<and>
     (\<forall>i < length (rl_requests st). lr_count (rl_requests st ! i) = of_nat (Suc i)) \<and>
     (\<forall>v. counted v st = sent_total v st)"

lemma sum_list_update_group:
  fixes f :: "'a \<Rightarrow> 'b::ab_group_add"
  shows "i < length xs \<Longrightarrow> sum_list (map f (xs[i := x])) = sum_list (map f xs) - f (xs ! i) + f x"
  by (induction xs arbitrary: i) (auto simp: algebra_simps split: nat.split)

lemma on_request_inv:
  assumes "log_inv st"
    and "\<And>r st'. lr_phase r = ph \<Longrightarrow> log_inv st' \<Longrightarrow>
      lr_count (fst (f r st')) = lr_count r \<and> rl_requests (snd (f r st')) = rl_requests st' \<and> rl_sent (snd (f r st')) = rl_sent st' \<and>
      (\<forall>v. counted v (snd (f r st')) = counted v st' - sent_by v r + sent_by v (fst (f r st')))"
  shows "log_inv (on_request i ph f st)"
proof (cases "i < length (rl_requests st) \<and> lr_phase (rl_requests st ! i) = ph")
  case True
  let ?r = "rl_requests st ! i"
  obtain r' st' where f: "f ?r st = (r', st')" by fastforce
  with assms(2) [of ?r st] True assms(1) have law: "lr_count r' = lr_count ?r" "rl_requests st' = rl_requests st"
      "rl_sent st' = rl_sent st" "\<And>v. counted v st' = counted v st - sent_by v ?r + sent_by v r'" by auto
  have eq: "on_request i ph f st = st'\<lparr>rl_requests := (rl_requests st)[i := r']\<rparr>"
    using True f law(2) by (simp add: on_request_def set_logged_def)
  have c: "counted v (st'\<lparr>rl_requests := rs\<rparr>) = counted v st'" for v rs by (simp add: counted_def)
  show ?thesis
    using assms(1) law True
    by (auto simp: log_inv_def eq c nth_list_update sent_total_def sum_list_update_group)
qed (use assms(1) in \<open>auto simp: on_request_def\<close>)

lemma logger_call_inv: "log_inv st \<Longrightarrow> log_inv (logger_call addr m p q v st)"
  by (auto simp: log_inv_def logger_call_def Let_def counted_def sent_total_def sent_by_def nth_append less_Suc_eq)

lemma logger_step_inv: "log_inv st \<Longrightarrow> log_inv (logger_step e st)"
proof (cases e)
  case (Gone i)
  moreover assume "log_inv st"
  ultimately show ?thesis
    by (auto simp: logger_step_def logger_drop_def Let_def counted_def sent_by_def intro!: on_request_inv split: option.split)
qed (auto simp: logger_step_def logger_respond_def counted_def sent_by_def intro!: on_request_inv logger_call_inv)

interpretation access: stateful "\<lambda>st. st = request_log_new" "\<lambda>st st'. \<exists>e. st' = logger_step e st" log_inv
proof unfold_locales
  show "st = request_log_new \<Longrightarrow> log_inv st" for st
    by (simp add: log_inv_def request_log_new_def counted_def sent_total_def)
qed (auto intro: logger_step_inv)

text \<open>
  The counters account for the traffic: however requests interleave and end, the requests are numbered in the order of their
  arrival, and the counter of a protocol version is the number of bytes that the finished bodies of this version delivered.
\<close>

theorem access_counters_account:
  fixes es :: "logger_event list"
  defines "st \<equiv> fold logger_step es request_log_new"
  shows "counted v st = sent_total v st \<and> (\<forall>i < length (rl_requests st). lr_count (rl_requests st ! i) = of_nat (Suc i))"
proof -
  have "log_inv s \<Longrightarrow> log_inv (fold logger_step es s)" for s by (induction es arbitrary: s) (auto intro: logger_step_inv)
  from this [OF access.init_inv [OF refl]] show ?thesis by (simp add: log_inv_def st_def)
qed

end
