(* ===== verification/System.thy ===== *)
theory System
  imports Startup RequestLog
begin

text \<open>
  The client in operation, as one transition system: the parts that \<^verbatim>\<open>main\<close> has put together (\<open>boot\<close>) share the
  state of the RPC client, the cache manager, the connection counter with the command channel and the request log; requests,
  downloads, verifying tasks, the cleaner, the command loop, the keep-alive task and the shutdown take steps in any
  order.  A step between two points where the code waits is atomic; the finer interleavings of one
  download are those of \<^verbatim>\<open>Miss\<close> and \<^verbatim>\<open>Coalesce\<close>.  A request that waits for a download may go on at any time here, which allows
  more runs than the channels of \<^verbatim>\<open>Miss\<close> do.  Shown for every run, in \<^verbatim>\<open>SystemRun\<close>: the files stay authentic, the
  books exact, the counters and the log agree, strangers have no influence on the settings, and what the coordinating server hears of a
  shutdown.
\<close>

section \<open>The state\<close>

text \<open>Where the handler of a request stands: it has not run, it waits for room in the command channel with its response
  ready, it waits for the first byte of a download, or its response is out (or it is gone).\<close>

datatype handler = Handling | AwaitRoom command http_response | AwaitLoad cache_file_info | Answered

record live_request =
  lv_tcp :: bool
  lv_request :: http_request
  lv_state :: handler

text \<open>A running download: its key in \<^verbatim>\<open>download_state\<close> is the hash.\<close>

record load =
  ld_info :: cache_file_info
  ld_temp :: path
  ld_sources :: nat

datatype stage = Operating | Stopping | Stopped

text \<open>\<^verbatim>\<open>AppState\<close> with what the tasks of \<^verbatim>\<open>main\<close> hold.  The command channel is the one of the connection counter; \<open>sy_asked\<close> counts
  the messages in the shutdown channel.\<close>

record 'k system =
  sy_client :: "'k client_state"
  sy_server :: "'k server"
  sy_proxy :: bool
  sy_conn :: conn_state
  sy_log :: request_log
  sy_reqs :: "live_request list"
  sy_loads :: "load list"
  sy_checks :: "verify_task list"
  sy_ticks :: u32
  sy_keepalive :: bool
  sy_asked :: nat
  sy_stage :: stage

abbreviation sys_rpc :: "'k system \<Rightarrow> rpc_state" where
  "sys_rpc s \<equiv> cl_rpc (sy_client s)"

abbreviation sys_cm :: "'k system \<Rightarrow> cache_manager" where
  "sys_cm s \<equiv> cl_cm (sy_client s)"

definition system_start :: "'k running \<Rightarrow> 'k system" where
  "system_start ru =
     \<lparr>sy_client = ru_client ru, sy_server = ru_server ru, sy_proxy = ru_has_proxy ru, sy_conn = conn_new, sy_log = request_log_new,
      sy_reqs = [], sy_loads = [], sy_checks = [], sy_ticks = 0, sy_keepalive = True, sy_asked = (if ru_shutdown ru then 1 else 0),
      sy_stage = Operating\<rparr>"

definition put_client :: "rpc_state \<Rightarrow> cache_manager \<Rightarrow> 'k system \<Rightarrow> 'k system" where
  "put_client rpc cm s = s\<lparr>sy_client := (sy_client s)\<lparr>cl_rpc := rpc, cl_cm := cm\<rparr>\<rparr>"

definition set_handler :: "nat \<Rightarrow> handler \<Rightarrow> 'k system \<Rightarrow> 'k system" where
  "set_handler i h s = s\<lparr>sy_reqs := (sy_reqs s)[i := (sy_reqs s ! i)\<lparr>lv_state := h\<rparr>]\<rparr>"

section \<open>Requests\<close>

text \<open>A new request passes the connection counter, then the logger.\<close>

definition incoming :: "bool \<Rightarrow> string \<Rightarrow> string option \<Rightarrow> http_request \<Rightarrow> 'k system \<Rightarrow> 'k system" where
  "incoming tcp version query rq s =
     s\<lparr>sy_conn := conn_step (conn_event.Call (max_connection (rpc_settings (rs_client (sys_rpc s))))) (sy_conn s),
       sy_log := logger_step (logger_event.Call (Some (rq_addr rq)) (rq_method rq) (rq_path rq) query version) (sy_log s),
       sy_reqs := sy_reqs s @ [\<lparr>lv_tcp = tcp, lv_request = rq, lv_state = Handling\<rparr>]\<rparr>"

text \<open>The response passes the two layers in the other order.\<close>

definition settle :: "nat \<Rightarrow> http_response \<Rightarrow> 'k system \<Rightarrow> 'k system" where
  "settle i r s =
     set_handler i Answered
       (s\<lparr>sy_log := logger_step (logger_event.Respond i (word_of_nat (h_status r)) (lookup (h_headers r) ''Content-Length'')) (sy_log s),
          sy_conn := conn_step (ServiceOk i) (sy_conn s)\<rparr>)"

text \<open>The connection has dropped the handler or the body, or the handler has panicked.\<close>

definition abandon :: "nat \<Rightarrow> 'k system \<Rightarrow> 'k system" where
  "abandon i s =
     set_handler i Answered
       (s\<lparr>sy_log := logger_step (logger_event.Gone i) (sy_log s),
          sy_conn := conn_step (DropBody i) (conn_step (DropFuture i) (sy_conn s))\<rparr>)"

text \<open>\<^verbatim>\<open>TimeoutLayer\<close> with its \<^verbatim>\<open>HandleErrorLayer\<close>, inside the logger: after 181 seconds the handler is dropped.\<close>

definition timeout_response :: http_response where
  "timeout_response = \<lparr>h_status = 503, h_headers = [], h_body = EmptyBody\<rparr>"

text \<open>\<^verbatim>\<open>create_temp_file\<close>, with the random part of the name; a failure is the \<^verbatim>\<open>unwrap\<close> of its result.  \<open>drop_temp\<close> is
  the end of the \<^verbatim>\<open>TempPath\<close>.\<close>

definition create_temp_file :: "io_env \<Rightarrow> string \<Rightarrow> cache_manager \<Rightarrow> (path \<times> cache_manager) option" where
  "create_temp_file E name cm =
     (let p = push_path (temp_dir cm) (''proxyfile_'' @ name) in
      if io_fails E OpCreate p \<or> lookup (disk cm) p \<noteq> None then None
      else Some (p, cm\<lparr>disk := insert_map p (File \<lparr>f_data = [], f_mtime = clock E\<rparr>) (disk cm)\<rparr>))"

definition drop_temp :: "io_env \<Rightarrow> path \<Rightarrow> cache_manager \<Rightarrow> cache_manager" where
  "drop_temp E p cm = (case fs_remove_file E p (disk cm) of None \<Rightarrow> cm | Some d \<Rightarrow> cm\<lparr>disk := d\<rparr>)"

text \<open>A miss joins the download of the same hash or starts one.\<close>

definition start_load :: "('a) app_ext_scheme \<Rightarrow> string \<Rightarrow> io_env \<Rightarrow> string \<Rightarrow> nat \<Rightarrow> cache_file_info \<Rightarrow> string \<Rightarrow> string \<Rightarrow> string
    \<Rightarrow> 'k system \<Rightarrow> 'k system" where
  "start_load X server E name i info file_index xres file_id s =
     (if list_ex (\<lambda>l. fi_hash (ld_info l) = fi_hash info) (sy_loads s) then set_handler i (AwaitLoad info) s
      else
        (case create_temp_file E name (sys_cm s) of
           None \<Rightarrow> abandon i s
         | Some (p, cm) \<Rightarrow>
             (case sr_fetch X file_index xres file_id (sys_rpc s) of
                (None, rpc) \<Rightarrow>
                  settle i (layer_response server (lv_tcp (sy_reqs s ! i)) (sy_server s) not_found) (put_client rpc (drop_temp E p cm) s)
              | (Some sources, rpc) \<Rightarrow>
                  set_handler i (AwaitLoad info)
                    ((put_client rpc cm s)\<lparr>sy_loads := sy_loads s @ [\<lparr>ld_info = info, ld_temp = p, ld_sources = length sources\<rparr>]\<rparr>))))"

text \<open>The verifying task a response has started.\<close>

definition spawned :: "http_body \<Rightarrow> verify_task list" where
  "spawned b = (case b of StreamBody (TaskStream t) \<Rightarrow> [t] | RangeBody _ (TaskStream t) \<Rightarrow> [t] | _ \<Rightarrow> [])"

text \<open>A handler that sends a command waits for room in the channel before it responds.\<close>

definition handle_request :: "('a) app_ext_scheme \<Rightarrow> string \<Rightarrow> io_env \<Rightarrow> (nat \<times> (nat \<times> nat) option list) list \<Rightarrow> string \<Rightarrow> nat
    \<Rightarrow> 'k system \<Rightarrow> 'k system" where
  "handle_request X server E threads name i s =
     (let lv = sy_reqs s ! i in
      case app X E server (lv_tcp lv) (sy_server s) (rs_client (sys_rpc s)) threads (lv_request lv) (sys_cm s) of
        (hath_result.Respond r, cm, cmds) \<Rightarrow>
          let s = (put_client (sys_rpc s) cm s)\<lparr>sy_checks := sy_checks s @ spawned (h_body r)\<rparr>
          in (case cmds of [] \<Rightarrow> settle i r s | c # _ \<Rightarrow> set_handler i (AwaitRoom c r) s)
      | (CacheMiss info file_index xres file_id, cm, cmds) \<Rightarrow>
          start_load X server E name i info file_index xres file_id (put_client (sys_rpc s) cm s))"

text \<open>The name in the link, for the response to a miss.\<close>

definition link_name :: "('a) app_ext_scheme \<Rightarrow> http_request \<Rightarrow> string" where
  "link_name X rq =
     (case match_route False (rq_path rq) of
        HathRoute p1 p2 p3 \<Rightarrow> (case path_params X [p1, p2, p3] of Some [_, _, name] \<Rightarrow> name | _ \<Rightarrow> [])
      | _ \<Rightarrow> [])"

text \<open>\<^verbatim>\<open>send\<close> on the channel, which holds one command.\<close>

definition send_command :: "command \<Rightarrow> conn_state \<Rightarrow> conn_state option" where
  "send_command c st = (if cs_channel st = [] then Some (st\<lparr>cs_channel := [c]\<rparr>) else None)"

definition resume_handler :: "('a) app_ext_scheme \<Rightarrow> string \<Rightarrow> nat \<Rightarrow> 'k system \<Rightarrow> 'k system" where
  "resume_handler X server i s =
     (let lv = sy_reqs s ! i in
      case lv_state lv of
        AwaitRoom c r \<Rightarrow> (case send_command c (sy_conn s) of None \<Rightarrow> s | Some st \<Rightarrow> settle i r (s\<lparr>sy_conn := st\<rparr>))
      | AwaitLoad info \<Rightarrow>
          settle i (layer_response server (lv_tcp lv) (sy_server s) (miss_response X info (link_name X (lv_request lv)))) s
      | _ \<Rightarrow> s)"

definition time_out :: "string \<Rightarrow> nat \<Rightarrow> 'k system \<Rightarrow> 'k system" where
  "time_out server i s =
     (if lv_state (sy_reqs s ! i) = Answered then s
      else settle i (layer_response server (lv_tcp (sy_reqs s ! i)) (sy_server s) timeout_response) s)"

section \<open>Background tasks\<close>

text \<open>The end of a download worker; its temporary file is moved into the cache or dropped.\<close>

definition end_load :: "('a) app_ext_scheme \<Rightarrow> io_env \<Rightarrow> attempt list \<Rightarrow> nat \<Rightarrow> 'k system \<Rightarrow> 'k system" where
  "end_load X E attempts k s =
     (let l = sy_loads s ! k; X' = extern.truncate X;
          r = dl_attempts (ld_sources l) X' (ld_info l) 0 attempts (new_download (sy_proxy s))
      in (put_client (sys_rpc s) (drop_temp E (ld_temp l) (finish_download X' E (ld_info l) (ld_temp l) r (sys_cm s))) s)
           \<lparr>sy_loads := take k (sy_loads s) @ drop (Suc k) (sy_loads s)\<rparr>)"

text \<open>The end of a verifying task, if its reads have come to the end.\<close>

definition end_check :: "('a) app_ext_scheme \<Rightarrow> io_env \<Rightarrow> (io_error + nat) option list \<Rightarrow> nat \<Rightarrow> 'k system \<Rightarrow> 'k system" where
  "end_check X E joins k s =
     (case run_verify (extern.truncate X) E joins (sy_checks s ! k) (sys_cm s) of
        None \<Rightarrow> s
      | Some (_, cm) \<Rightarrow> (put_client (sys_rpc s) cm s)\<lparr>sy_checks := take k (sy_checks s) @ drop (Suc k) (sy_checks s)\<rparr>)"

text \<open>A turn of the background task of the cache, every ten minutes.\<close>

definition run_cleaner :: "('a) app_ext_scheme \<Rightarrow> io_env \<Rightarrow> clean_event list \<Rightarrow> 'k system \<Rightarrow> 'k system" where
  "run_cleaner X E evs s =
     (let cm = save_state E (sys_cm s) in
      case check_cache_usage (extern.truncate X) E evs cm of
        Some (Some cm') \<Rightarrow> put_client (sys_rpc s) cm' s
      | _ \<Rightarrow> put_client (sys_rpc s) cm s)"

text \<open>The command loop takes the command out of the channel and handles it.\<close>

definition take_command :: "('a) app_ext_scheme \<Rightarrow> 'k client_ext \<Rightarrow> args \<Rightarrow> int \<Rightarrow> 'k system \<Rightarrow> 'k system" where
  "take_command X C a now s =
     (case cs_channel (sy_conn s) of
        [] \<Rightarrow> s
      | c # _ \<Rightarrow> s\<lparr>sy_client := client_step X C a (now, Command c) (sy_client s), sy_conn := conn_step conn_event.Recv (sy_conn s)\<rparr>)"

text \<open>The timer of a failed reload sends the command again.\<close>

definition retry_reload :: "'k system \<Rightarrow> 'k system" where
  "retry_reload s =
     (case cl_reloads (sy_client s) of
        [] \<Rightarrow> s
      | _ # ts \<Rightarrow>
          (case send_command ReloadCert (sy_conn s) of
             None \<Rightarrow> s
           | Some st \<Rightarrow> s\<lparr>sy_conn := st, sy_client := (sy_client s)\<lparr>cl_reloads := ts\<rparr>\<rparr>))"

definition tick :: "('a) app_ext_scheme \<Rightarrow> io_env \<Rightarrow> 'k system \<Rightarrow> 'k system" where
  "tick X E s =
     (if \<not> sy_keepalive s then s
      else
        let k = keepalive_tick X (extern.truncate X) E
                  \<lparr>ka_counter = sy_ticks s, ka_rpc = sys_rpc s, ka_cm = sys_cm s, ka_stopped = False, ka_shutdowns = sy_asked s\<rparr>
        in (put_client (ka_rpc k) (ka_cm k) s)
             \<lparr>sy_ticks := ka_counter k, sy_keepalive := \<not> ka_stopped k, sy_asked := ka_shutdowns k\<rparr>)"

section \<open>Shutdown\<close>

text \<open>\<^verbatim>\<open>wait_shutdown_signal\<close> returns on a signal or on a message in the shutdown channel.\<close>

datatype stop_cause = CtrlC | Terminate | ShutdownMessage

definition wait_shutdown_signal :: "stop_cause \<Rightarrow> nat \<Rightarrow> bool" where
  "wait_shutdown_signal cause asked \<longleftrightarrow> (case cause of ShutdownMessage \<Rightarrow> 0 < asked | _ \<Rightarrow> True)"

text \<open>The keep-alive task is aborted, the coordinating server told, the gallery downloader aborted.  Then \<^verbatim>\<open>main\<close> sleeps for
  fifteen seconds, during which everything else goes on.\<close>

definition begin_shutdown :: "('a) app_ext_scheme \<Rightarrow> 'k system \<Rightarrow> 'k system" where
  "begin_shutdown X s = s\<lparr>sy_keepalive := False, sy_client := stop_client X (sy_client s), sy_stage := Stopping\<rparr>"

text \<open>\<^verbatim>\<open>Drop for RPCClient\<close>: a client that is still announced is taken back; a failure of that is a panic.\<close>

definition rpc_drop :: "('a) rpc_ext_scheme \<Rightarrow> rpc_state \<Rightarrow> rpc_state option" where
  "rpc_drop X st =
     (if running (rs_client st)
      then (case send_action X ''client_stop'' None st of (Inl _, _) \<Rightarrow> None | (Inr _, st) \<Rightarrow> Some st)
      else Some st)"

definition handle_shutdown :: "accept_state \<Rightarrow> accept_state" where
  "handle_shutdown st = fold accept_step [StoreFlag, NotifyWaiters] st"

text \<open>The server is stopped and the state of the cache saved; nothing runs after \<^verbatim>\<open>main\<close> has returned.\<close>

definition finish_shutdown :: "io_env \<Rightarrow> 'k system \<Rightarrow> 'k system" where
  "finish_shutdown E s =
     s\<lparr>sy_server := (sy_server s)\<lparr>sv_tcp := handle_shutdown (sv_tcp (sy_server s))\<rparr>,
       sy_client := (sy_client s)\<lparr>cl_cm := save_state E (sys_cm s)\<rparr>, sy_stage := Stopped\<rparr>"

section \<open>Steps\<close>

datatype sys_event =
  Incoming bool string "string option" http_request
| Handle nat io_env "(nat \<times> (nat \<times> nat) option list) list" string
| Resume nat
| TimeOut nat
| SendFrame nat nat
| Dropped nat
| LoadEnds nat io_env "attempt list"
| CheckEnds nat io_env "(io_error + nat) option list"
| Clean io_env "clean_event list"
| TakeCommand int
| RetryReload
| GalleryEnds bool
| Tick io_env
| StopSignal stop_cause
| ShutDown io_env

definition sys_step :: "('a) app_ext_scheme \<Rightarrow> 'k client_ext \<Rightarrow> args \<Rightarrow> string \<Rightarrow> sys_event \<Rightarrow> 'k system \<Rightarrow> 'k system" where
  "sys_step X C a server e s =
     (if sy_stage s = Stopped then s
      else case e of
        Incoming tcp version query rq \<Rightarrow> incoming tcp version query rq s
      | Handle i E threads name \<Rightarrow>
          if i < length (sy_reqs s) \<and> lv_state (sy_reqs s ! i) = Handling then handle_request X server E threads name i s else s
      | Resume i \<Rightarrow> if i < length (sy_reqs s) then resume_handler X server i s else s
      | TimeOut i \<Rightarrow> if i < length (sy_reqs s) then time_out server i s else s
      | SendFrame i n \<Rightarrow> s\<lparr>sy_log := logger_step (Frame i n) (sy_log s)\<rparr>
      | Dropped i \<Rightarrow> if i < length (sy_reqs s) then abandon i s else s
      | LoadEnds k E attempts \<Rightarrow> if k < length (sy_loads s) then end_load X E attempts k s else s
      | CheckEnds k E joins \<Rightarrow> if k < length (sy_checks s) then end_check X E joins k s else s
      | Clean E evs \<Rightarrow> run_cleaner X E evs s
      | TakeCommand now \<Rightarrow> take_command X C a now s
      | RetryReload \<Rightarrow> retry_reload s
      | GalleryEnds ok \<Rightarrow>
          s\<lparr>sy_client := client_step X C a (0, if ok then DownloaderDone else DownloaderPanic) (sy_client s)\<rparr>
      | Tick E \<Rightarrow> tick X E s
      | StopSignal cause \<Rightarrow>
          if sy_stage s = Operating \<and> wait_shutdown_signal cause (sy_asked s) then begin_shutdown X s else s
      | ShutDown E \<Rightarrow> if sy_stage s = Stopping then finish_shutdown E s else s)"

section \<open>What the parts of a step leave alone\<close>

lemma put_client_simps [simp]:
  "sy_client (put_client rpc cm s) = (sy_client s)\<lparr>cl_rpc := rpc, cl_cm := cm\<rparr>"
  "sy_server (put_client rpc cm s) = sy_server s" "sy_proxy (put_client rpc cm s) = sy_proxy s"
  "sy_conn (put_client rpc cm s) = sy_conn s" "sy_log (put_client rpc cm s) = sy_log s" "sy_reqs (put_client rpc cm s) = sy_reqs s"
  "sy_loads (put_client rpc cm s) = sy_loads s" "sy_checks (put_client rpc cm s) = sy_checks s"
  "sy_keepalive (put_client rpc cm s) = sy_keepalive s" "sy_stage (put_client rpc cm s) = sy_stage s"
  by (simp_all add: put_client_def)

lemma set_handler_simps [simp]:
  "sy_client (set_handler i h s) = sy_client s" "sy_server (set_handler i h s) = sy_server s" "sy_proxy (set_handler i h s) = sy_proxy s"
  "sy_conn (set_handler i h s) = sy_conn s" "sy_log (set_handler i h s) = sy_log s"
  "sy_loads (set_handler i h s) = sy_loads s" "sy_checks (set_handler i h s) = sy_checks s"
  "sy_keepalive (set_handler i h s) = sy_keepalive s" "sy_stage (set_handler i h s) = sy_stage s"
  "length (sy_reqs (set_handler i h s)) = length (sy_reqs s)"
  by (simp_all add: set_handler_def)

lemma settle_simps [simp]:
  "sy_client (settle i r s) = sy_client s" "sy_server (settle i r s) = sy_server s" "sy_proxy (settle i r s) = sy_proxy s"
  "sy_loads (settle i r s) = sy_loads s" "sy_checks (settle i r s) = sy_checks s"
  "sy_keepalive (settle i r s) = sy_keepalive s" "sy_stage (settle i r s) = sy_stage s"
  "cs_channel (sy_conn (settle i r s)) = cs_channel (sy_conn s)"
  by (simp_all add: settle_def conn_step_def)

lemma abandon_simps [simp]:
  "sy_client (abandon i s) = sy_client s" "sy_server (abandon i s) = sy_server s" "sy_proxy (abandon i s) = sy_proxy s"
  "sy_loads (abandon i s) = sy_loads s" "sy_checks (abandon i s) = sy_checks s"
  "sy_keepalive (abandon i s) = sy_keepalive s" "sy_stage (abandon i s) = sy_stage s"
  "cs_channel (sy_conn (abandon i s)) = cs_channel (sy_conn s)"
  by (simp_all add: abandon_def conn_step_def leave_def)

section \<open>Counter, log and handlers agree\<close>

text \<open>How far the three see a request.\<close>

definition phase_match :: "req_phase \<Rightarrow> logged_phase \<Rightarrow> handler \<Rightarrow> bool" where
  "phase_match p l h \<longleftrightarrow>
     (case p of
        InService \<Rightarrow> l = Calling \<and> h \<noteq> Answered
      | InBody \<Rightarrow> l = Sending \<and> h = Answered
      | req_phase.Gone \<Rightarrow> (l = Finished \<or> l = Cancelled) \<and> h = Answered)"

definition coupled :: "'k system \<Rightarrow> bool" where
  "coupled s \<longleftrightarrow>
     length (cs_requests (sy_conn s)) = length (sy_reqs s) \<and> length (rl_requests (sy_log s)) = length (sy_reqs s) \<and>
     (\<forall>i < length (sy_reqs s). phase_match (cs_requests (sy_conn s) ! i) (lr_phase (rl_requests (sy_log s) ! i)) (lv_state (sy_reqs s ! i)))"

definition traffic_inv :: "'k system \<Rightarrow> bool" where
  "traffic_inv s \<longleftrightarrow> conn_inv (sy_conn s) \<and> log_inv (sy_log s) \<and> coupled s"

lemma coupled_phases:
  assumes "coupled s" "i < length (sy_reqs s)"
  shows "lv_state (sy_reqs s ! i) \<noteq> Answered \<Longrightarrow> cs_requests (sy_conn s) ! i = InService \<and> lr_phase (rl_requests (sy_log s) ! i) = Calling"
    and "phase_match (cs_requests (sy_conn s) ! i) (lr_phase (rl_requests (sy_log s) ! i)) (lv_state (sy_reqs s ! i))"
proof -
  show m: "phase_match (cs_requests (sy_conn s) ! i) (lr_phase (rl_requests (sy_log s) ! i)) (lv_state (sy_reqs s ! i))"
    using assms by (simp add: coupled_def)
  show "cs_requests (sy_conn s) ! i = InService \<and> lr_phase (rl_requests (sy_log s) ! i) = Calling" if "lv_state (sy_reqs s ! i) \<noteq> Answered"
    using m that by (cases "cs_requests (sy_conn s) ! i") (simp_all add: phase_match_def)
qed

lemma traffic_cong:
  "sy_conn s' = sy_conn s \<Longrightarrow> sy_log s' = sy_log s \<Longrightarrow> sy_reqs s' = sy_reqs s \<Longrightarrow> traffic_inv s' = traffic_inv s"
  by (simp add: traffic_inv_def coupled_def)

lemma traffic_put [simp]: "traffic_inv (put_client rpc cm s) = traffic_inv s"
  by (rule traffic_cong) simp_all

text \<open>One event of each layer for the request \<open>i\<close> keeps the agreement if it moves the three on together.\<close>

lemma coupled_move:
  assumes "coupled s" "i < length (sy_reqs s)"
    and "cs_requests c = (cs_requests (sy_conn s))[i := p]" "rl_requests l = (rl_requests (sy_log s))[i := r]"
    and "phase_match p (lr_phase r) h"
  shows "coupled (set_handler i h (s\<lparr>sy_log := l, sy_conn := c\<rparr>))"
  using assms by (auto simp: coupled_def set_handler_def nth_list_update)

lemma traffic_settle:
  assumes "traffic_inv s" "i < length (sy_reqs s)" "lv_state (sy_reqs s ! i) \<noteq> Answered"
  shows "traffic_inv (settle i r s)"
proof -
  have c: "coupled s" and inv: "conn_inv (sy_conn s)" "log_inv (sy_log s)" using assms(1) by (simp_all add: traffic_inv_def)
  from coupled_phases(1) [OF c assms(2,3)] have ph: "cs_requests (sy_conn s) ! i = InService" "lr_phase (rl_requests (sy_log s) ! i) = Calling"
    by auto
  have len: "i < length (cs_requests (sy_conn s))" "i < length (rl_requests (sy_log s))" using c assms(2) by (simp_all add: coupled_def)
  let ?e = "logger_event.Respond i (word_of_nat (h_status r)) (lookup (h_headers r) ''Content-Length'')"
  have "coupled (settle i r s)"
    unfolding settle_def
  proof (rule coupled_move [OF c assms(2)])
    show "cs_requests (conn_step (ServiceOk i) (sy_conn s)) = (cs_requests (sy_conn s))[i := InBody]"
      using ph len by (simp add: conn_step_def)
    show "rl_requests (logger_step ?e (sy_log s)) =
        (rl_requests (sy_log s))[i := (rl_requests (sy_log s) ! i)\<lparr>lr_code := word_of_nat (h_status r), lr_phase := Sending\<rparr>]"
      using ph len by (simp add: logger_step_def on_request_def set_logged_def logger_respond_def)
  qed (simp add: phase_match_def)
  moreover have "conn_inv (sy_conn (settle i r s))" "log_inv (sy_log (settle i r s))"
    using inv by (simp_all add: settle_def conn_inv_step logger_step_inv)
  ultimately show ?thesis by (simp add: traffic_inv_def)
qed

lemma traffic_abandon:
  assumes "traffic_inv s" "i < length (sy_reqs s)"
  shows "traffic_inv (abandon i s)"
proof -
  have c: "coupled s" and inv: "conn_inv (sy_conn s)" "log_inv (sy_log s)" using assms(1) by (simp_all add: traffic_inv_def)
  have len: "i < length (cs_requests (sy_conn s))" "i < length (rl_requests (sy_log s))" using c assms(2) by (simp_all add: coupled_def)
  note ph = coupled_phases(2) [OF c assms(2)]
  have "cs_requests (conn_step (DropBody i) (conn_step (DropFuture i) (sy_conn s))) = (cs_requests (sy_conn s))[i := req_phase.Gone]"
    using len list_update_id [of "cs_requests (sy_conn s)" i]
    by (cases "cs_requests (sy_conn s) ! i") (simp_all add: conn_step_def leave_def)
  moreover obtain r where "rl_requests (logger_step (logger_event.Gone i) (sy_log s)) = (rl_requests (sy_log s))[i := r]"
    "lr_phase r = Finished \<or> lr_phase r = Cancelled"
  proof -
    have "\<exists>r. rl_requests (logger_step (logger_event.Gone i) (sy_log s)) = (rl_requests (sy_log s))[i := r] \<and>
        (lr_phase r = Finished \<or> lr_phase r = Cancelled)"
      using len ph
      by (cases "lr_phase (rl_requests (sy_log s) ! i)")
        (auto simp: logger_step_def on_request_def set_logged_def logger_drop_def Let_def phase_match_def
          intro: exI [of _ "(rl_requests (sy_log s) ! i)\<lparr>lr_phase := Finished\<rparr>"] exI [of _ "(rl_requests (sy_log s) ! i)\<lparr>lr_phase := Cancelled\<rparr>"]
            exI [of _ "rl_requests (sy_log s) ! i"] split: req_phase.splits)
    then show ?thesis using that by blast
  qed
  ultimately have "coupled (abandon i s)"
    unfolding abandon_def by (intro coupled_move [OF c assms(2)]) (auto simp: phase_match_def)
  moreover have "conn_inv (sy_conn (abandon i s))" "log_inv (sy_log (abandon i s))"
    using inv by (simp_all add: abandon_def conn_inv_step logger_step_inv)
  ultimately show ?thesis by (simp add: traffic_inv_def)
qed

lemma traffic_wait:
  assumes "traffic_inv s" "i < length (sy_reqs s)" "lv_state (sy_reqs s ! i) \<noteq> Answered" "h \<noteq> Answered"
  shows "traffic_inv (set_handler i h s)"
proof -
  have c: "coupled s" using assms(1) by (simp add: traffic_inv_def)
  from coupled_phases(1) [OF c assms(2,3)] have ph: "cs_requests (sy_conn s) ! i = InService" "lr_phase (rl_requests (sy_log s) ! i) = Calling"
    by auto
  have "coupled (set_handler i h (s\<lparr>sy_log := sy_log s, sy_conn := sy_conn s\<rparr>))"
  proof (rule coupled_move [OF c assms(2)])
    show "cs_requests (sy_conn s) = (cs_requests (sy_conn s))[i := InService]" using ph list_update_id [of "cs_requests (sy_conn s)" i] by simp
    show "rl_requests (sy_log s) = (rl_requests (sy_log s))[i := rl_requests (sy_log s) ! i]" by simp
  qed (use ph assms(4) in \<open>simp add: phase_match_def\<close>)
  then show ?thesis using assms(1) by (simp add: traffic_inv_def)
qed

lemma traffic_fields [simp]:
  "traffic_inv (s\<lparr>sy_client := c\<rparr>) = traffic_inv s" "traffic_inv (s\<lparr>sy_server := sv\<rparr>) = traffic_inv s"
  "traffic_inv (s\<lparr>sy_loads := ls\<rparr>) = traffic_inv s" "traffic_inv (s\<lparr>sy_checks := ts\<rparr>) = traffic_inv s"
  "traffic_inv (s\<lparr>sy_ticks := n\<rparr>) = traffic_inv s" "traffic_inv (s\<lparr>sy_keepalive := b\<rparr>) = traffic_inv s"
  "traffic_inv (s\<lparr>sy_asked := m\<rparr>) = traffic_inv s" "traffic_inv (s\<lparr>sy_stage := st\<rparr>) = traffic_inv s"
  by (simp_all add: traffic_inv_def coupled_def)

lemma traffic_incoming: "traffic_inv s \<Longrightarrow> traffic_inv (incoming tcp version query rq s)"
  by (auto simp: traffic_inv_def incoming_def conn_inv_step logger_step_inv)
    (auto simp: coupled_def conn_step_def conn_call_def logger_step_def logger_call_def Let_def nth_append less_Suc_eq phase_match_def)

lemma traffic_channel:
  assumes "traffic_inv s" "cs_requests c = cs_requests (sy_conn s)" "cs_counter c = cs_counter (sy_conn s)" "length (cs_channel c) \<le> 1"
  shows "traffic_inv (s\<lparr>sy_conn := c\<rparr>)"
  using assms by (simp add: traffic_inv_def coupled_def conn_inv_def live_requests_def)

lemma traffic_frame: "traffic_inv s \<Longrightarrow> traffic_inv (s\<lparr>sy_log := logger_step (Frame i n) (sy_log s)\<rparr>)"
proof -
  assume inv: "traffic_inv s"
  have "coupled (s\<lparr>sy_log := logger_step (Frame i n) (sy_log s)\<rparr>)"
    using inv by (auto simp: traffic_inv_def coupled_def logger_step_def on_request_def set_logged_def nth_list_update)
  with inv show ?thesis by (simp add: traffic_inv_def logger_step_inv)
qed

lemma traffic_start_load:
  assumes "traffic_inv s" "i < length (sy_reqs s)" "lv_state (sy_reqs s ! i) \<noteq> Answered"
  shows "traffic_inv (start_load X server E name i info file_index xres file_id s)"
  using assms
  by (auto simp: start_load_def intro!: traffic_wait traffic_abandon traffic_settle split: option.split prod.split)

lemma traffic_handle:
  assumes "traffic_inv s" "i < length (sy_reqs s)" "lv_state (sy_reqs s ! i) \<noteq> Answered"
  shows "traffic_inv (handle_request X server E threads name i s)"
  using assms
  by (auto simp: handle_request_def Let_def intro!: traffic_start_load traffic_wait traffic_settle
      split: prod.split hath_result.split list.split)

lemma traffic_resume:
  assumes "traffic_inv s" "i < length (sy_reqs s)"
  shows "traffic_inv (resume_handler X server i s)"
proof (cases "lv_state (sy_reqs s ! i)")
  case (AwaitRoom c r)
  have "traffic_inv (s\<lparr>sy_conn := (sy_conn s)\<lparr>cs_channel := [c]\<rparr>\<rparr>)" by (rule traffic_channel [OF assms(1)]) simp_all
  then show ?thesis
    using assms AwaitRoom by (auto simp: resume_handler_def Let_def send_command_def intro!: traffic_settle)
qed (use assms in \<open>auto simp: resume_handler_def Let_def intro!: traffic_settle\<close>)

text \<open>Whatever happens next, the three agree.\<close>

lemma traffic_step: "traffic_inv s \<Longrightarrow> traffic_inv (sys_step X C a server e s)"
proof (cases e)
  case (TimeOut i)
  moreover assume "traffic_inv s"
  ultimately show ?thesis by (auto simp: sys_step_def time_out_def intro: traffic_settle)
next
  case (TakeCommand now)
  assume inv: "traffic_inv s"
  then have "traffic_inv (s\<lparr>sy_conn := conn_step conn_event.Recv (sy_conn s)\<rparr>)"
    by (intro traffic_channel) (auto simp: conn_step_def traffic_inv_def conn_inv_def)
  then have "traffic_inv (s\<lparr>sy_client := c, sy_conn := conn_step conn_event.Recv (sy_conn s)\<rparr>)" for c
    by (simp add: traffic_inv_def coupled_def)
  with inv show ?thesis by (simp add: TakeCommand sys_step_def take_command_def split: list.split)
next
  case RetryReload
  assume inv: "traffic_inv s"
  then have "traffic_inv (s\<lparr>sy_conn := (sy_conn s)\<lparr>cs_channel := [ReloadCert]\<rparr>\<rparr>)" by (intro traffic_channel) simp_all
  with inv show ?thesis by (simp add: RetryReload sys_step_def retry_reload_def send_command_def split: list.split)
qed (auto simp: sys_step_def traffic_incoming traffic_frame traffic_handle traffic_resume traffic_abandon end_load_def end_check_def
    run_cleaner_def tick_def begin_shutdown_def finish_shutdown_def Let_def split: option.split prod.split)

lemma traffic_start: "traffic_inv (system_start ru)"
  using conn_inv_new access.init_inv by (simp add: traffic_inv_def system_start_def coupled_def) (simp add: conn_new_def request_log_new_def)

end
