(* ===== verification/SystemRun.thy ===== *)
theory SystemRun
  imports System
begin

text \<open>
  Runs of the client in operation (\<^verbatim>\<open>System\<close>).  \<open>proper\<close> and \<open>steady\<close> say what is asked of the outside along a run (\<open>along\<close>).  Each of the
  invariants \<open>store_inv\<close>, \<open>books_inv\<close>, \<open>told\<close> and \<open>undisturbed\<close> comes with its \<^verbatim>\<open>_step\<close> lemma, which goes through the events once; the properties
  follow by induction on the run: every file stays authentic, the gauges stay those of the files on disk, the counter and the log agree, strangers
  change nothing that belongs to the coordinating server, and the coordinating server is told of the end exactly once.
\<close>

section \<open>What the outside does\<close>

text \<open>No link encodes a slash in its file id (see \<open>encoded_slash_leaves_range\<close>), and the random part of a temporary name has none.\<close>

definition plain_link :: "('a) app_ext_scheme \<Rightarrow> bool \<Rightarrow> http_request \<Rightarrow> bool" where
  "plain_link X metrics rq \<longleftrightarrow>
     (case match_route metrics (rq_path rq) of
        HathRoute p1 p2 p3 \<Rightarrow> (case x_pct X p1 of Some file_id \<Rightarrow> CHR ''/'' \<notin> set file_id | None \<Rightarrow> True)
      | _ \<Rightarrow> True)"

definition proper :: "('a) app_ext_scheme \<Rightarrow> sys_event \<Rightarrow> 'k system \<Rightarrow> bool" where
  "proper X e s \<longleftrightarrow>
     (case e of
        Handle i E threads name \<Rightarrow>
          CHR ''/'' \<notin> set name \<and> (i < length (sy_reqs s) \<longrightarrow> plain_link X (sv_metrics (sy_server s)) (lv_request (sy_reqs s ! i)))
      | _ \<Rightarrow> True)"

text \<open>The purge list a tick gets.\<close>

definition tick_list :: "('a) app_ext_scheme \<Rightarrow> 'k system \<Rightarrow> string list option" where
  "tick_list X s =
     (if purge_due (sy_ticks s)
      then fst (get_purgelist X 43200 (if alive_due (sy_ticks s) then snd (still_alive X False (sys_rpc s)) else sys_rpc s))
      else None)"

text \<open>The cache directory answers, and the allocated size of a file is always the same.\<close>

definition steady_env :: "(fnode \<Rightarrow> u64) \<Rightarrow> io_env \<Rightarrow> bool" where
  "steady_env rs E \<longleftrightarrow> real_size E = rs \<and> size_law E \<and> (\<forall>p. stable_path E p)"

definition steady :: "('a) app_ext_scheme \<Rightarrow> (fnode \<Rightarrow> u64) \<Rightarrow> sys_event \<Rightarrow> 'k system \<Rightarrow> bool" where
  "steady X rs e s \<longleftrightarrow>
     (case e of
        Handle i E threads name \<Rightarrow> steady_env rs E
      | LoadEnds k E attempts \<Rightarrow> steady_env rs E
      | CheckEnds k E joins \<Rightarrow> steady_env rs E
      | Clean E evs \<Rightarrow> list_all (\<lambda>(E, l). real_size E = rs) evs
      | Tick E \<Rightarrow> steady_env rs E \<and> (case tick_list X s of Some ids \<Rightarrow> list_all (\<lambda>n. CHR ''/'' \<notin> set n) ids | None \<Rightarrow> True)
      | _ \<Rightarrow> True)"

section \<open>What a handler leaves behind\<close>

lemma get_file_task:
  "get_file X E info offset cm = (Full (TaskStream t), cm') \<Longrightarrow> vt_info t = info"
  "get_file X E info offset cm = (Partial (TaskStream t), cm') \<Longrightarrow> vt_info t = info"
  by (auto simp: get_file_def Let_def split: option.splits node.splits if_splits sum.splits prod.splits)

lemma hit_response_spawned:
  "spawned (h_body (hit_response X info name rg st)) = (case st of TaskStream t \<Rightarrow> [t] | ReaderStream r \<Rightarrow> [])"
  by (simp add: hit_response_def spawned_def Let_def split: option.split file_stream.split)

lemma spawned_simps [simp]: "spawned EmptyBody = []" "spawned (TextBody t) = []" "spawned (RandomBody n) = []" "spawned (FollowBody n) = []"
  by (simp_all add: spawned_def)

lemma spawned_simple [simp]:
  "spawned (h_body forbidden) = []" "spawned (h_body (text_response t)) = []" "spawned (h_body (random_response n)) = []"
  "spawned (h_body (empty_response st)) = []"
  by (simp_all add: forbidden_def text_response_def random_response_def empty_response_def)

text \<open>What a response or a miss names is plain.\<close>

definition plain_result :: "hath_result \<Rightarrow> bool" where
  "plain_result res \<longleftrightarrow>
     (case res of
        hath_result.Respond r \<Rightarrow> list_all (\<lambda>t. plain_info (vt_info t)) (spawned (h_body r))
      | CacheMiss info _ _ _ \<Rightarrow> plain_info info)"

lemma plain_result_empty: "spawned (h_body r) = [] \<Longrightarrow> plain_result (hath_result.Respond r)"
  by (simp add: plain_result_def)

lemma hath_plain:
  assumes "external (extern.truncate X)" "CHR ''/'' \<notin> set file_id"
  shows "plain_result (fst (hath X E c file_id additional name hs cm))"
proof -
  have plain: "plain_info info" if "from_file_id (x_dec X) file_id = Some info" for info
    using external.from_file_id_plain [OF assms(1), of file_id info] assms(2) that by (simp add: extern.truncate_def)
  have hit: "plain_result (hath_result.Respond (hit_response X info name rg st))"
    if "from_file_id (x_dec X) file_id = Some info" "get_file (extern.truncate X) E info off cm = (r, cm')" "r = Full st \<or> r = Partial st"
    for info rg st off r cm'
    using that plain get_file_task [of "extern.truncate X" E info off cm _ cm']
    by (cases st) (auto simp: plain_result_def hit_response_spawned)
  show ?thesis
    using plain hit
    by (auto simp: hath_def Let_def forbidden_def not_found_def plain_result_empty split: option.split prod.split cache_file_result.split)
      (auto simp: plain_result_def)
qed

lemma servercmd_spawned: "spawned (h_body (fst (servercmd X now c ip command additional time hash threads))) = []"
  by (simp add: servercmd_def Let_def split: option.split)

lemma run_route_plain:
  assumes "external (extern.truncate X)"
    and "case rt of HathRoute p1 p2 p3 \<Rightarrow> (case x_pct X p1 of Some file_id \<Rightarrow> CHR ''/'' \<notin> set file_id | None \<Rightarrow> True) | _ \<Rightarrow> True"
  shows "plain_result (fst (run_route X E c threads rq rt cm))"
proof (cases rt)
  case (HathRoute p1 p2 p3)
  show ?thesis
  proof (cases "path_params X [p1, p2, p3]")
    case (Some ps)
    then obtain a b n where ps: "ps = [a, b, n]" "x_pct X p1 = Some a"
      by (auto simp: path_params_def split: option.splits)
    then have "CHR ''/'' \<notin> set a" using assms(2) HathRoute by simp
    from hath_plain [OF assms(1) this, of E c b n "rq_headers rq" cm] show ?thesis
      by (auto simp: run_route_def HathRoute Some ps split: prod.splits)
  qed (simp add: run_route_def HathRoute plain_result_empty bad_request_def)
next
  case (ServercmdRoute p1 p2 p3 p4)
  have "plain_result (hath_result.Respond (fst (servercmd X now c ip cmd additional t hash threads)))" for now ip cmd additional t hash
    by (rule plain_result_empty) (rule servercmd_spawned)
  then show ?thesis
    by (simp add: run_route_def ServercmdRoute plain_result_empty bad_request_def case_prod_unfold split: option.split list.split)
next
  case (SpeedtestRoute p1 p2 p3 p4)
  have "plain_result (hath_result.Respond (speedtest X now c sz t hash))" for now sz t hash
    by (rule plain_result_empty) (simp add: speedtest_def)
  then show ?thesis
    by (simp add: run_route_def SpeedtestRoute plain_result_empty bad_request_def split: option.split list.split)
qed (simp_all add: run_route_def plain_result_empty favicon_def robots_def metrics_response_def default_route_def)

lemma app_plain:
  assumes "external (extern.truncate X)" "plain_link X (sv_metrics sv) rq"
  shows "plain_result (fst (app X E server tcp sv c threads rq cm))"
proof -
  have "h_body (layer_response server tcp sv r) = h_body r" for r
    by (simp add: layer_response_def default_headers_def Let_def split: option.split)
  with run_route_plain [OF assms(1) assms(2) [unfolded plain_link_def], of E c threads rq cm] show ?thesis
    by (auto simp: app_def plain_result_def method_not_allowed_def split: prod.splits hath_result.splits)
qed

section \<open>Temporary files\<close>

context external
begin

text \<open>A name that begins with \<^verbatim>\<open>proxyfile_\<close> is not the name of a cached file.\<close>

lemma temp_file_outside:
  assumes "CHR ''/'' \<notin> set n"
  shows "entry_range X dir (push_path td (''proxyfile_'' @ n)) = None"
proof (rule ccontr)
  let ?n = "''proxyfile_'' @ n" and ?p = "push_path td (''proxyfile_'' @ n)"
  assume "entry_range X dir ?p \<noteq> None"
  then obtain info where info: "from_file_id (x_dec X) (basename ?p) = Some info" "to_path (x_enc X) info dir = ?p"
    by (auto simp: entry_range_def split: option.splits if_splits)
  have base: "basename ?p = ?n"
  proof -
    obtain d where "td = [] \<or> td = d @ ''/'' \<or> last td \<noteq> CHR ''/''" by (metis append_butlast_last_id)
    then show ?thesis
      using assms basename_append [of ?n d] basename_append [of ?n td] 
      by (auto simp: push_path_def starts_with_iff basename_def takeWhile_append2)
  qed
  have "CHR ''/'' \<notin> set ?n" using assms by simp
  from from_file_id_plain [OF info(1)] base this have plain: "plain_info info" by simp
  have "basename ?p = file_name (x_enc X) info"
    using info(2) plain file_name_no_slash [OF plain] basename_append [of "file_name (x_enc X) info"]
    by (metis append_Cons append_Nil plain_info_def to_path_dir)
  moreover have "hd (file_name (x_enc X) info) \<in> set hex_chars"
  proof -
    have "length (fi_hash info) = 20" using plain by (simp add: plain_info_def wf_info_def)
    then have "x_enc X (fi_hash info) \<noteq> []" using enc_length [of "fi_hash info"] by auto
    then have "hd (x_enc X (fi_hash info)) \<in> set (x_enc X (fi_hash info))" by simp
    then show ?thesis using enc_chars [of "fi_hash info"] \<open>x_enc X (fi_hash info) \<noteq> []\<close> by (auto simp: file_name_def)
  qed
  ultimately show False using base by (simp add: hex_chars_def)
qed

end

context external
begin

lemma contents_removed:
  assumes "entry_range X (cache_dir cm) temp = None"
  shows "contents X (cm\<lparr>disk := remove_map temp (disk cm)\<rparr>) = contents X cm"
proof
  fix k
  have "to_path (x_enc X) k (cache_dir cm) \<noteq> temp" if "plain_info k"
    using entry_range_to_path [OF that, of "cache_dir cm"] assms by auto
  then show "contents X (cm\<lparr>disk := remove_map temp (disk cm)\<rparr>) k = contents X cm k" by (simp add: contents_def)
qed

lemma contents_drop_temp: "entry_range X (cache_dir cm) p = None \<Longrightarrow> contents X (drop_temp E p cm) = contents X cm"
  using contents_removed by (auto simp: drop_temp_def fs_remove_file_def split: option.splits node.splits if_splits)

lemma accounted_temp:
  assumes "accounted X rs cm" "entry_range X (cache_dir cm) p = None"
  shows "accounted X rs (cm\<lparr>disk := insert_map p n (disk cm)\<rparr>)" "accounted X rs (drop_temp E p cm)"
proof -
  have wf: "wf_map (disk cm)" using assms(1) by (simp add: accounted_def)
  show "accounted X rs (cm\<lparr>disk := insert_map p n (disk cm)\<rparr>)"
  proof (rule accounted_disk [OF assms(1)])
    show "disk_files (entry_range X (cache_dir cm)) rs (insert_map p n (disk cm)) = disk_files (entry_range X (cache_dir cm)) rs (disk cm)"
      using assms(2) wf by (cases "lookup (disk cm) p") (simp_all add: disk_files_insert_new disk_files_insert_old)
  qed (use wf in simp)
  have "accounted X rs (cm\<lparr>disk := remove_map p (disk cm)\<rparr>)" if "lookup (disk cm) p = Some m" for m
    using disk_files_remove [OF wf that, of "entry_range X (cache_dir cm)" rs] assms(2) wf
    by (intro accounted_disk [OF assms(1)]) simp_all
  with assms(1) show "accounted X rs (drop_temp E p cm)"
    by (auto simp: drop_temp_def fs_remove_file_def split: option.splits node.splits if_splits)
qed

lemma accounted_finish_download:
  assumes "accounted X (real_size E) cm" "plain_info info" "entry_range X (cache_dir cm) temp = None"
    and "stable_path E (to_path (x_enc X) info (cache_dir cm))"
  shows "accounted X (real_size E) (finish_download X E info temp r cm)"
proof (cases r)
  case (Verified d)
  have "accounted X (real_size E) (cm\<lparr>disk := insert_map temp (File \<lparr>f_data = d, f_mtime = clock E\<rparr>) (disk cm)\<rparr>)"
    using accounted_temp(1) [OF assms(1,3)] .
  from accounted_import_cache [OF this assms(2)] assms(3,4) Verified show ?thesis by (simp add: finish_download_def)
qed (simp_all add: finish_download_def assms(1))

end

lemma drop_temp_dir [simp]: "cache_dir (drop_temp E p cm) = cache_dir cm"
  by (simp add: drop_temp_def split: option.split)

lemma finish_download_dir [simp]: "cache_dir (finish_download X E info temp r cm) = cache_dir cm"
  by (simp add: finish_download_def split: dl_result.split)

section \<open>The store during a run\<close>

text \<open>Whether the contents are known to be authentic (\<open>G\<close>) depends on the start.\<close>

definition good_store :: "extern \<Rightarrow> cache_manager \<Rightarrow> bool" where
  "good_store X cm \<longleftrightarrow> (\<forall>k d. contents X cm k = Some d \<longrightarrow> x_sha1 X d = fi_hash k \<and> length d = unat (fi_size k))"

definition load_ok :: "extern \<Rightarrow> path \<Rightarrow> load \<Rightarrow> bool" where
  "load_ok X dir l \<longleftrightarrow> plain_info (ld_info l) \<and> entry_range X dir (ld_temp l) = None"

definition store_inv :: "bool \<Rightarrow> ('a) app_ext_scheme \<Rightarrow> 'k system \<Rightarrow> bool" where
  "store_inv G X s \<longleftrightarrow>
     external (extern.truncate X) \<and> (G \<longrightarrow> good_store (extern.truncate X) (sys_cm s)) \<and>
     list_all (load_ok (extern.truncate X) (cache_dir (sys_cm s))) (sy_loads s) \<and>
     list_all (\<lambda>t. plain_info (vt_info t)) (sy_checks s)"

definition books_inv :: "('a) app_ext_scheme \<Rightarrow> (fnode \<Rightarrow> u64) \<Rightarrow> 'k system \<Rightarrow> bool" where
  "books_inv X rs s \<longleftrightarrow> store_inv False X s \<and> accounted (extern.truncate X) rs (sys_cm s)"

lemma good_no_new: "good_store X cm \<Longrightarrow> no_new_files cm cm' \<Longrightarrow> good_store X cm'"
  using no_new_contents [of cm cm' X] unfolding good_store_def map_le_def by (metis domI)

lemma store_cong:
  "sys_cm s' = sys_cm s \<Longrightarrow> sy_loads s' = sy_loads s \<Longrightarrow> sy_checks s' = sy_checks s \<Longrightarrow> store_inv G X s' = store_inv G X s"
  by (simp add: store_inv_def)

text \<open>An operation on the cache that adds no file.\<close>

lemma store_no_new:
  assumes "store_inv G X s" "no_new_files (sys_cm s) cm"
  shows "store_inv G X (put_client rpc cm s)"
  using assms good_no_new [OF _ assms(2)] by (simp add: store_inv_def) (simp add: no_new_files_def)

lemma store_start_load:
  assumes "store_inv G X s" "plain_info info" "CHR ''/'' \<notin> set name"
  shows "store_inv G X (start_load X server E name i info file_index xres file_id s)"
proof -
  let ?X = "extern.truncate X" and ?cm = "sys_cm s"
  have ext: "external ?X" and good: "G \<longrightarrow> good_store ?X ?cm" and loads: "list_all (load_ok ?X (cache_dir ?cm)) (sy_loads s)"
    and checks: "list_all (\<lambda>t. plain_info (vt_info t)) (sy_checks s)"
    using assms(1) by (simp_all add: store_inv_def)
  show ?thesis
  proof (cases "create_temp_file E name ?cm")
    case (Some v)
    obtain p cm where v: "v = (p, cm)" by (metis surj_pair)
    with Some have p: "p = push_path (temp_dir ?cm) (''proxyfile_'' @ name)"
      and cm: "cm = ?cm\<lparr>disk := insert_map p (File \<lparr>f_data = [], f_mtime = clock E\<rparr>) (disk ?cm)\<rparr>"
      by (auto simp: create_temp_file_def Let_def split: if_splits)
    have out: "entry_range ?X (cache_dir ?cm) p = None" unfolding p by (rule external.temp_file_outside [OF ext assms(3)])
    have "contents ?X cm = contents ?X ?cm" unfolding cm by (rule external.contents_temp [OF ext out])
    moreover have "contents ?X (drop_temp E p cm) = contents ?X cm" using out by (intro external.contents_drop_temp [OF ext]) (simp add: cm)
    ultimately have "G \<longrightarrow> good_store ?X cm" "G \<longrightarrow> good_store ?X (drop_temp E p cm)" using good by (simp_all add: good_store_def)
    moreover have "cache_dir cm = cache_dir ?cm" by (simp add: cm)
    ultimately show ?thesis
      using assms(1,2) ext loads checks out
      by (auto simp: start_load_def Some v store_inv_def load_ok_def split: option.split prod.split)
  qed (use assms(1) in \<open>simp add: start_load_def store_inv_def\<close>)
qed

lemma store_handle:
  assumes "store_inv G X s" "plain_link X (sv_metrics (sy_server s)) (lv_request (sy_reqs s ! i))" "CHR ''/'' \<notin> set name"
  shows "store_inv G X (handle_request X server E threads name i s)"
proof -
  let ?lv = "sy_reqs s ! i"
  obtain res cm cmds where a: "app X E server (lv_tcp ?lv) (sy_server s) (rs_client (sys_rpc s)) threads (lv_request ?lv) (sys_cm s) = (res, cm, cmds)"
    by (metis surj_pair)
  have "external (extern.truncate X)" using assms(1) by (simp add: store_inv_def)
  from app_plain [OF this assms(2), of E server "lv_tcp ?lv" "rs_client (sys_rpc s)" threads "sys_cm s"] a have plain: "plain_result res" by simp
  have "no_new_files (sys_cm s) cm"
    using a run_route_effects [of X E "rs_client (sys_rpc s)" threads "lv_request ?lv" "match_route (sv_metrics (sy_server s)) (rq_path (lv_request ?lv))" "sys_cm s"]
    by (auto simp: app_def split: if_splits prod.splits hath_result.splits)
  from store_no_new [OF assms(1) this] have st: "store_inv G X (put_client rpc cm s)" for rpc .
  show ?thesis
  proof (cases res)
    case (Respond r)
    with plain st [of "sys_rpc s"] show ?thesis
      by (auto simp: handle_request_def a Let_def plain_result_def store_inv_def split: list.split)
  next
    case (CacheMiss info fi xr fid)
    with plain have "plain_info info" by (simp add: plain_result_def)
    from store_start_load [OF st this assms(3)] CacheMiss show ?thesis by (simp add: handle_request_def a Let_def)
  qed
qed

lemma keepalive_tick_parts:
  assumes "k = keepalive_tick X X' E \<lparr>ka_counter = n, ka_rpc = rpc, ka_cm = cm, ka_stopped = False, ka_shutdowns = m\<rparr>"
    and "l = (if purge_due n then fst (get_purgelist X 43200 (if alive_due n then snd (still_alive X False rpc) else rpc)) else None)"
  shows "ka_cm k = (if running (rs_client rpc) then purge X' E l cm else cm)"
proof -
  obtain ok rpc1 where sa: "still_alive X False rpc = (ok, rpc1)" by (metis surj_pair)
  obtain l1 st1 where g1: "get_purgelist X 43200 rpc1 = (l1, st1)" by (metis surj_pair)
  obtain l2 st2 where g2: "get_purgelist X 43200 rpc = (l2, st2)" by (metis surj_pair)
  show ?thesis unfolding assms by (simp add: keepalive_tick_def Let_def sa g1 g2) (simp add: purge_def)
qed

lemma purge_no_new: "no_new_files cm (purge X E l cm)"
proof -
  have "no_new_files cm (fold (\<lambda>info cm. snd (remove_cache X E info cm)) infos cm)" for infos
    by (induction infos arbitrary: cm) (auto intro: no_new_trans no_new_remove)
  then show ?thesis by (simp add: purge_def split: option.split)
qed

lemma tick_cm: "sys_cm (tick X E s) = (if sy_keepalive s \<and> running (rs_client (sys_rpc s)) then purge (extern.truncate X) E (tick_list X s) (sys_cm s) else sys_cm s)"
  using keepalive_tick_parts [OF refl refl, of X "extern.truncate X" E "sy_ticks s" "sys_rpc s" "sys_cm s" "sy_asked s"]
  by (simp add: tick_def Let_def tick_list_def)

lemma tick_frame [simp]:
  "sy_loads (tick X E s) = sy_loads s" "sy_checks (tick X E s) = sy_checks s" "sy_server (tick X E s) = sy_server s"
  "sy_conn (tick X E s) = sy_conn s" "sy_reqs (tick X E s) = sy_reqs s" "sy_stage (tick X E s) = sy_stage s"
  by (simp_all add: tick_def Let_def)

lemma client_step_cm: "\<exists>l. sys_cm (s\<lparr>sy_client := client_step X C a ev (sy_client s)\<rparr>) = sys_cm s \<or>
    sys_cm (s\<lparr>sy_client := client_step X C a ev (sy_client s)\<rparr>) = cm_update_settings l (sys_cm s)"
  by (cases ev; cases "snd ev")
    (auto simp: client_step_def handle_command_def reload_cert_def Let_def split: command.split prod.split option.split bool.split)

lemma good_update_settings [simp]: "good_store X (cm_update_settings l cm) = good_store X cm" "cache_dir (cm_update_settings l cm) = cache_dir cm"
  by (simp_all add: good_store_def contents_def cm_update_settings_def)

lemma good_save_state [simp]: "good_store X (save_state E cm) = good_store X cm" "cache_dir (save_state E cm) = cache_dir cm"
  by (simp_all add: good_store_def contents_def save_state_def)

lemma list_all_remove_nth: "list_all P xs \<Longrightarrow> list_all P (take k xs @ drop (Suc k) xs)"
  by (auto simp: list_all_iff dest: in_set_takeD in_set_dropD)

lemma store_end_load:
  assumes "store_inv G X s" "k < length (sy_loads s)"
  shows "store_inv G X (end_load X E attempts k s)"
proof -
  let ?X = "extern.truncate X" and ?l = "sy_loads s ! k"
  let ?r = "dl_attempts (ld_sources ?l) ?X (ld_info ?l) 0 attempts (new_download (sy_proxy s))"
  let ?cm = "finish_download ?X E (ld_info ?l) (ld_temp ?l) ?r (sys_cm s)"
  have ext: "external ?X" and good: "G \<longrightarrow> good_store ?X (sys_cm s)" using assms(1) by (simp_all add: store_inv_def)
  have l: "plain_info (ld_info ?l)" "entry_range ?X (cache_dir (sys_cm s)) (ld_temp ?l) = None"
    using assms by (auto simp: store_inv_def list_all_length load_ok_def)
  have "G \<longrightarrow> good_store ?X ?cm"
    using good external.finish_download_contents [OF ext l refl] unfolding good_store_def by blast
  moreover have "contents ?X (drop_temp E (ld_temp ?l) ?cm) = contents ?X ?cm"
    using l(2) by (intro external.contents_drop_temp [OF ext]) simp
  ultimately have "G \<longrightarrow> good_store ?X (drop_temp E (ld_temp ?l) ?cm)" by (simp add: good_store_def)
  with assms(1) show ?thesis
    by (simp add: store_inv_def end_load_def Let_def list_all_remove_nth del: list_all_append)
qed

lemma store_end_check:
  assumes "store_inv G X s"
  shows "store_inv G X (end_check X E joins k s)"
proof (cases "run_verify (extern.truncate X) E joins (sy_checks s ! k) (sys_cm s)")
  case (Some v)
  obtain sent cm where v: "v = (sent, cm)" by (metis surj_pair)
  from store_no_new [OF assms no_new_verify [OF Some [unfolded v]]] show ?thesis
    by (simp add: end_check_def Some v store_inv_def list_all_remove_nth del: list_all_append)
qed (simp add: end_check_def assms)

lemma store_step:
  assumes "store_inv G X s" "proper X e s"
  shows "store_inv G X (sys_step X C a server e s)"
proof -
  have client: "store_inv G X (s\<lparr>sy_client := client_step X C a ev (sy_client s)\<rparr>)" for ev
    using client_step_cm [where s = s and X = X and C = C and a = a and ev = ev] assms(1) by (auto simp: store_inv_def)
  show ?thesis
  proof (cases e)
    case (Handle i E threads name)
    with assms store_handle [of G X s i name server E threads] show ?thesis by (auto simp: sys_step_def proper_def)
  next
    case (Resume i)
    with assms(1) show ?thesis
      by (auto simp: sys_step_def resume_handler_def Let_def send_command_def store_inv_def split: handler.split option.split)
  next
    case (TakeCommand now)
    have "store_inv G X (s\<lparr>sy_client := client_step X C a (now, Command c) (sy_client s), sy_conn := conn\<rparr>)" for c conn
      using client [of "(now, Command c)"] by (simp add: store_inv_def)
    with assms(1) show ?thesis by (simp add: TakeCommand sys_step_def take_command_def split: list.split)
  next
    case (Tick E)
    have "no_new_files (sys_cm s) (sys_cm (tick X E s))" by (simp add: tick_cm purge_no_new)
    from store_no_new [OF assms(1) this] have "store_inv G X (tick X E s)" by (simp add: store_inv_def)
    with assms(1) show ?thesis by (simp add: Tick sys_step_def)
  next
    case (Clean E evs)
    have saved: "no_new_files (sys_cm s) (save_state E (sys_cm s))" by (simp add: save_state_def)
    have "no_new_files (sys_cm s) cm" if "check_cache_usage (extern.truncate X) E evs (save_state E (sys_cm s)) = Some (Some cm)" for cm
      using no_new_trans [OF saved no_new_check_cache_usage [OF that]] .
    with assms(1) saved show ?thesis by (auto simp: Clean sys_step_def run_cleaner_def Let_def intro: store_no_new split: option.split)
  next
    case (LoadEnds k E attempts)
    with assms(1) show ?thesis by (simp add: sys_step_def store_end_load)
  next
    case (CheckEnds k E joins)
    with assms(1) show ?thesis by (simp add: sys_step_def store_end_check)
  qed (use assms(1) client in \<open>auto simp: sys_step_def store_inv_def incoming_def time_out_def
        retry_reload_def send_command_def begin_shutdown_def stop_client_def finish_shutdown_def split: list.split option.split\<close>)
qed

section \<open>The books during a run\<close>

text \<open>All a handler does with the cache is to look up one file.\<close>

lemma run_route_cm:
  "fst (snd (run_route X E c threads rq rt cm)) = cm \<or>
   (\<exists>info off. fst (snd (run_route X E c threads rq rt cm)) = snd (get_file (extern.truncate X) E info off cm))"
proof (cases rt)
  case (HathRoute p1 p2 p3)
  have h: "snd (hath X E c f ad n hs cm) = cm \<or> (\<exists>info off. snd (hath X E c f ad n hs cm) = snd (get_file (extern.truncate X) E info off cm))"
    for f ad n hs
    by (auto simp: hath_def Let_def split: option.split prod.split cache_file_result.split) (metis snd_conv)+
  show ?thesis
    using h [of _ _ _ "rq_headers rq"] by (auto simp: run_route_def HathRoute split: option.split list.split prod.split) (metis snd_conv)+
qed (auto simp: run_route_def split: option.split list.split prod.split)

lemma app_accounted:
  assumes "external (extern.truncate X)" "accounted (extern.truncate X) rs cm" "steady_env rs E"
    and "app X E server tcp sv c threads rq cm = (res, cm', cmds)"
  shows "accounted (extern.truncate X) rs cm'"
proof -
  have "cm' = cm \<or> (\<exists>info off. cm' = snd (get_file (extern.truncate X) E info off cm))"
    using run_route_cm [of X E c threads rq "match_route (sv_metrics sv) (rq_path rq)" cm] assms(4)
    by (auto simp: app_def split: if_splits prod.splits hath_result.splits)
  then show ?thesis using accounted_get_file [OF assms(1), of E cm] assms(2,3) by (auto simp: steady_env_def)
qed

lemma books_put:
  assumes "books_inv X rs s" "no_new_files (sys_cm s) cm" "accounted (extern.truncate X) rs cm"
  shows "books_inv X rs (put_client rpc cm s)"
  using assms store_no_new [of False X s cm rpc] by (simp add: books_inv_def)

lemma books_start_load:
  assumes "books_inv X rs s" "CHR ''/'' \<notin> set name"
  shows "accounted (extern.truncate X) rs (sys_cm (start_load X server E name i info file_index xres file_id s))"
proof (cases "create_temp_file E name (sys_cm s)")
  case (Some v)
  let ?X = "extern.truncate X" and ?cm = "sys_cm s"
  have ext: "external ?X" and acc: "accounted ?X rs ?cm" using assms(1) by (simp_all add: books_inv_def store_inv_def)
  obtain p cm where v: "v = (p, cm)" by (metis surj_pair)
  with Some have p: "p = push_path (temp_dir ?cm) (''proxyfile_'' @ name)"
    and cm: "cm = ?cm\<lparr>disk := insert_map p (File \<lparr>f_data = [], f_mtime = clock E\<rparr>) (disk ?cm)\<rparr>"
    by (auto simp: create_temp_file_def Let_def split: if_splits)
  have out: "entry_range ?X (cache_dir ?cm) p = None" unfolding p by (rule external.temp_file_outside [OF ext assms(2)])
  have "accounted ?X rs cm" unfolding cm by (rule external.accounted_temp(1) [OF ext acc out])
  moreover from external.accounted_temp(2) [OF ext this] out have "accounted ?X rs (drop_temp E p cm)" by (simp add: cm)
  ultimately show ?thesis using acc by (simp add: start_load_def Some v split: option.split prod.split)
qed (use assms in \<open>simp add: start_load_def books_inv_def\<close>)

lemma books_handle:
  assumes "books_inv X rs s" "CHR ''/'' \<notin> set name" "steady_env rs E"
  shows "accounted (extern.truncate X) rs (sys_cm (handle_request X server E threads name i s))"
proof -
  let ?lv = "sy_reqs s ! i"
  obtain res cm cmds where a: "app X E server (lv_tcp ?lv) (sy_server s) (rs_client (sys_rpc s)) threads (lv_request ?lv) (sys_cm s) = (res, cm, cmds)"
    by (metis surj_pair)
  have inv: "external (extern.truncate X)" "accounted (extern.truncate X) rs (sys_cm s)" using assms(1) by (simp_all add: books_inv_def store_inv_def)
  have acc: "accounted (extern.truncate X) rs cm" by (rule app_accounted [OF inv assms(3) a])
  have "no_new_files (sys_cm s) cm"
    using a run_route_effects [of X E "rs_client (sys_rpc s)" threads "lv_request ?lv" "match_route (sv_metrics (sy_server s)) (rq_path (lv_request ?lv))" "sys_cm s"]
    by (auto simp: app_def split: if_splits prod.splits hath_result.splits)
  from books_put [OF assms(1) this acc] have "books_inv X rs (put_client (sys_rpc s) cm s)" .
  from books_start_load [OF this assms(2)] acc show ?thesis
    by (simp add: handle_request_def a Let_def split: hath_result.split list.split)
qed

lemma plain_ids:
  assumes "external X" "case l of Some ids \<Rightarrow> list_all (\<lambda>n. CHR ''/'' \<notin> set n) ids | None \<Rightarrow> True"
  shows "\<forall>ids. l = Some ids \<longrightarrow> list_all plain_info (List.map_filter (from_file_id (x_dec X)) ids)"
  using assms external.from_file_id_plain [OF assms(1)]
  by (auto simp: list_all_iff List.map_filter_def split: option.splits)

lemma books_step:
  assumes "books_inv X rs s" "proper X e s" "steady X rs e s"
  shows "books_inv X rs (sys_step X C a server e s)"
proof -
  let ?X = "extern.truncate X"
  have st: "store_inv False X s" and acc: "accounted ?X rs (sys_cm s)" and ext: "external ?X"
    using assms(1) by (simp_all add: books_inv_def store_inv_def)
  have client: "accounted ?X rs (cl_cm (client_step X C a ev (sy_client s)))" for ev
    using client_step_cm [where s = s and X = X and C = C and a = a and ev = ev] acc external.accounted_update_settings [OF ext acc] by auto
  have "accounted ?X rs (sys_cm (sys_step X C a server e s))"
  proof (cases e)
    case (Handle i E threads name)
    with acc assms show ?thesis by (auto simp: sys_step_def proper_def steady_def intro: books_handle)
  next
    case (LoadEnds k E attempts)
    let ?l = "sy_loads s ! k"
    have E: "real_size E = rs" "\<And>p. stable_path E p" using assms(3) by (simp_all add: LoadEnds steady_def steady_env_def)
    have "accounted ?X rs (sys_cm (end_load X E attempts k s))" if "k < length (sy_loads s)"
    proof -
      have l: "plain_info (ld_info ?l)" "entry_range ?X (cache_dir (sys_cm s)) (ld_temp ?l) = None"
        using st that by (auto simp: store_inv_def list_all_length load_ok_def)
      have "accounted ?X (real_size E) (finish_download ?X E (ld_info ?l) (ld_temp ?l) r (sys_cm s))" for r
        using acc E l by (intro external.accounted_finish_download [OF ext]) simp_all
      from external.accounted_temp(2) [OF ext this] l(2) E(1) show ?thesis by (simp add: end_load_def Let_def)
    qed
    with acc show ?thesis by (simp add: LoadEnds sys_step_def)
  next
    case (CheckEnds k E joins)
    have E: "real_size E = rs" using assms(3) by (simp add: CheckEnds steady_def steady_env_def)
    have "plain_info (vt_info (sy_checks s ! k))" if "k < length (sy_checks s)"
      using st that by (simp add: store_inv_def list_all_length)
    with acc accounted_run_verify [OF ext, of E "sys_cm s" "sy_checks s ! k" joins] show ?thesis
      by (auto simp: CheckEnds sys_step_def end_check_def E split: option.split)
  next
    case (Clean E evs)
    have saved: "accounted ?X rs (save_state E (sys_cm s))" using acc by (rule external.accounted_save_state [OF ext])
    have "accounted ?X rs cm" if "check_cache_usage ?X E evs (save_state E (sys_cm s)) = Some (Some cm)" for cm
      using that assms(3) by (intro external.accounted_check_cache_usage [OF ext saved]) (auto simp: Clean steady_def list_all_iff)
    with acc saved show ?thesis by (simp add: Clean sys_step_def run_cleaner_def Let_def split: option.split)
  next
    case (Tick E)
    have E: "real_size E = rs" using assms(3) by (simp add: Tick steady_def steady_env_def)
    have "accounted ?X rs (purge ?X E (tick_list X s) (sys_cm s))"
      using purge_keeps_books [OF ext, of E "sys_cm s" "tick_list X s"] plain_ids [OF ext, of "tick_list X s"] acc assms(3)
      by (simp add: E Tick steady_def)
    with acc show ?thesis by (simp add: Tick sys_step_def tick_cm)
  qed (use acc client in \<open>auto simp: sys_step_def incoming_def time_out_def resume_handler_def take_command_def retry_reload_def send_command_def
        begin_shutdown_def stop_client_def finish_shutdown_def Let_def external.accounted_save_state [OF ext] split: list.split option.split handler.split\<close>)
  with store_step [OF st assms(2), of C a server] show ?thesis by (simp add: books_inv_def)
qed

section \<open>The coordinating server\<close>

text \<open>The requests that fall to one action: what they ask, and that they leave the configuration alone.\<close>

lemma send_action_config: "send_action X act add st = (r, st') \<Longrightarrow> same_config (rs_client st) (rs_client st')"
  using send_action_ok [of X st act add] by (simp add: loop_ok_def)

lemma still_alive_config: "same_config (rs_client st) (rs_client (snd (still_alive X resume st)))"
  using send_action_config [of X "''still_alive''" _ st]
  by (auto simp: still_alive_def split: prod.splits sum.splits)

lemma ok_data_config: "same_config (rs_client st) (rs_client (snd (ok_data (send_action X act add st))))"
  using send_action_config [of X act add st] by (auto simp: ok_data_def split: prod.splits sum.splits)

lemma get_purgelist_config: "same_config (rs_client st) (rs_client (snd (get_purgelist X n st)))"
  by (simp add: get_purgelist_def ok_data_config)

lemma sr_fetch_config: "same_config (rs_client st) (rs_client (snd (sr_fetch X f x i st)))"
  by (simp add: sr_fetch_def ok_data_config)

lemma notify_overload_config: "same_config (rs_client st) (rs_client (notify_overload X st))"
  using send_action_config [of X "''overload''" None st] by (metis notify_overload_def surjective_pairing)

definition late :: "string set" where
  "late = {''server_stat'', ''overload'', ''client_settings'', ''srfetch'', ''get_cert''}"

definition alive :: "string set" where
  "alive = late \<union> {''still_alive'', ''get_blacklist''}"

lemma sends_ok_data: "a \<in> A \<Longrightarrow> ''server_stat'' \<in> A \<Longrightarrow> sends A st (snd (ok_data (send_action X a add st)))"
  using sends_action [of a A st X add] by (auto simp: ok_data_def split: prod.splits sum.splits)

lemma sends_sr_fetch: "sends late st (snd (sr_fetch X f x i st))"
  by (simp add: sr_fetch_def sends_ok_data late_def)

lemma sends_purgelist: "sends alive st (snd (get_purgelist X n st))"
  by (simp add: get_purgelist_def sends_ok_data alive_def late_def)

lemma sends_still_alive: "sends alive st (snd (still_alive X resume st))"
  using sends_action [of "''still_alive''" alive st X "Some (if resume then ''resume'' else [])"]
  by (auto simp: still_alive_def alive_def late_def split: prod.splits sum.splits)

lemma sends_refresh: "sends late st (refresh_settings X pick st)"
  using sends_action [of "''client_settings''" late st X None]
  by (auto simp: refresh_settings_def late_def split: prod.splits sum.splits)

lemma sends_overload: "sends late st (notify_overload X st)"
  by (simp add: notify_overload_def sends_action late_def)

lemma sends_late_cert: "get_cert X parse st = (r, st') \<Longrightarrow> sends late st st'"
  using sends_request [of "''get_cert''" late st X "[]" None] by (auto simp: get_cert_def late_def split: prod.splits sum.splits)

lemma get_cert_config: "get_cert X parse st = (r, st') \<Longrightarrow> rs_client st' = rs_client st"
  by (auto simp: get_cert_def send_request_def Let_def split: sum.splits)

lemma client_step_sends: "sends late (cl_rpc st) (cl_rpc (client_step X C a ev st))"
  by (cases ev; cases "snd ev")
    (auto simp: client_step_def handle_command_def reload_cert_def Let_def sends_refresh sends_overload
      split: command.split prod.split option.split bool.split dest: sends_late_cert)

lemma client_step_running: "running (rs_client (cl_rpc (client_step X C a ev st))) = running (rs_client (cl_rpc st))"
proof -
  have "running (rs_client (refresh_settings X pick rpc)) = running (rs_client rpc)" for pick rpc
    using send_action_config [of X "''client_settings''" None rpc]
    by (auto simp: refresh_settings_def update_settings_def Let_def same_config_def split: prod.splits sum.splits option.splits)
  then show ?thesis
    using notify_overload_config [of "cl_rpc st" X]
    by (cases ev; cases "snd ev")
      (auto simp: client_step_def handle_command_def reload_cert_def Let_def same_config_def
        split: command.split prod.split option.split bool.split dest: get_cert_config)
qed

lemma keepalive_tick_rpc:
  assumes "k = keepalive_tick X X' E \<lparr>ka_counter = n, ka_rpc = rpc, ka_cm = cm, ka_stopped = False, ka_shutdowns = m\<rparr>"
  shows "same_config (rs_client rpc) (rs_client (ka_rpc k))" "sends alive rpc (ka_rpc k)"
    "ka_stopped k \<longleftrightarrow> \<not> running (rs_client rpc)"
proof -
  obtain ok rpc1 where sa: "still_alive X False rpc = (ok, rpc1)" by (metis surj_pair)
  obtain l1 st1 where g1: "get_purgelist X 43200 rpc1 = (l1, st1)" by (metis surj_pair)
  obtain l2 st2 where g2: "get_purgelist X 43200 rpc = (l2, st2)" by (metis surj_pair)
  have c: "same_config (rs_client rpc) (rs_client rpc1)" "same_config (rs_client rpc1) (rs_client st1)" "same_config (rs_client rpc) (rs_client st2)"
    using still_alive_config [of rpc X False] get_purgelist_config [of rpc1 X 43200] get_purgelist_config [of rpc X 43200] by (simp_all add: sa g1 g2)
  have s: "sends alive rpc rpc1" "sends alive rpc1 st1" "sends alive rpc st2"
    using sends_still_alive [of rpc X False] sends_purgelist [of rpc1 X 43200] sends_purgelist [of rpc X 43200] by (simp_all add: sa g1 g2)
  show "same_config (rs_client rpc) (rs_client (ka_rpc k))"
    using c same_config_trans [OF c(1,2)] unfolding assms by (simp add: keepalive_tick_def Let_def sa g1 g2)
  show "sends alive rpc (ka_rpc k)"
    using s sends_trans [OF s(1,2)] unfolding assms by (simp add: keepalive_tick_def Let_def sa g1 g2)
  show "ka_stopped k \<longleftrightarrow> \<not> running (rs_client rpc)" unfolding assms by (simp add: keepalive_tick_def Let_def sa g1 g2)
qed

text \<open>What a step that is not the beginning of the shutdown says to the coordinating server.\<close>

definition talk :: "'k system \<Rightarrow> 'k system \<Rightarrow> bool" where
  "talk s s' \<longleftrightarrow> sends (if sy_keepalive s then alive else late) (sys_rpc s) (sys_rpc s') \<and>
     running (rs_client (sys_rpc s')) = running (rs_client (sys_rpc s)) \<and> (sy_keepalive s' \<longrightarrow> sy_keepalive s)"

lemma talk_same: "sys_rpc s' = sys_rpc s \<Longrightarrow> sy_keepalive s' = sy_keepalive s \<Longrightarrow> talk s s'"
  by (simp add: talk_def)

lemma talk_late: "sends late (sys_rpc s) (sys_rpc s') \<Longrightarrow> running (rs_client (sys_rpc s')) = running (rs_client (sys_rpc s)) \<Longrightarrow>
    sy_keepalive s' = sy_keepalive s \<Longrightarrow> talk s s'"
  using sends_mono [of late "sys_rpc s" "sys_rpc s'" alive] unfolding alive_def talk_def by auto

lemma talk_start_load: "talk s (start_load X server E name i info file_index xres file_id s)"
proof (cases "sr_fetch X file_index xres file_id (sys_rpc s)")
  case (Pair r rpc)
  from sends_sr_fetch [of "sys_rpc s" X file_index xres file_id] sr_fetch_config [of "sys_rpc s" X file_index xres file_id]
  have "sends late (sys_rpc s) rpc" "running (rs_client rpc) = running (rs_client (sys_rpc s))" by (simp_all add: Pair same_config_def)
  then show ?thesis
    by (auto simp: start_load_def Pair intro: talk_same talk_late split: option.split prod.split)
qed

lemma talk_handle: "talk s (handle_request X server E threads name i s)"
proof -
  have "talk s s'" if "talk (put_client (sys_rpc s) cm s) s'" for cm s' using that by (simp add: talk_def)
  from this [OF talk_start_load]
  have "talk s (start_load X server E name i info file_index xres file_id (put_client (sys_rpc s) cm s))" for info file_index xres file_id cm .
  then show ?thesis
    by (simp add: handle_request_def Let_def talk_same split: prod.split hath_result.split list.split)
qed

lemma talk_step:
  assumes "\<And>cause. e \<noteq> StopSignal cause"
  shows "talk s (sys_step X C a server e s)"
proof (cases e)
  case (TakeCommand now)
  have "talk s (s\<lparr>sy_client := client_step X C a ev (sy_client s), sy_conn := c\<rparr>)" for ev c
    by (rule talk_late) (simp_all add: client_step_sends client_step_running)
  then show ?thesis by (simp add: TakeCommand sys_step_def take_command_def talk_same split: list.split)
next
  case (GalleryEnds ok)
  have "talk s (s\<lparr>sy_client := client_step X C a ev (sy_client s)\<rparr>)" for ev
    by (rule talk_late) (simp_all add: client_step_sends client_step_running)
  then show ?thesis by (simp add: GalleryEnds sys_step_def talk_same)
next
  case (Tick E)
  show ?thesis
    using keepalive_tick_rpc [OF refl, where X = X and X' = "extern.truncate X" and E = E and n = "sy_ticks s" and rpc = "sys_rpc s"
        and cm = "sys_cm s" and m = "sy_asked s"]
    by (auto simp: Tick sys_step_def tick_def talk_def Let_def same_config_def)
qed (use assms in \<open>auto simp: sys_step_def talk_handle incoming_def resume_handler_def time_out_def end_load_def end_check_def run_cleaner_def
      retry_reload_def send_command_def finish_shutdown_def Let_def intro!: talk_same
      split: option.split list.split handler.split prod.split\<close>)

section \<open>Shutdown\<close>

text \<open>What the coordinating server has been told since the state \<open>s0\<close>.\<close>

definition told :: "'k system \<Rightarrow> 'k system \<Rightarrow> bool" where
  "told s0 s \<longleftrightarrow>
     (if sy_stage s = Operating then sends alive (sys_rpc s0) (sys_rpc s) \<and> running (rs_client (sys_rpc s))
      else \<not> running (rs_client (sys_rpc s)) \<and> \<not> sy_keepalive s \<and>
        (\<exists>st1 st2 q rs. sends alive (sys_rpc s0) st1 \<and> rs_sent st2 = rs_sent st1 @ q # rs \<and> rq_act q = ''client_stop'' \<and>
           rq_act ` set rs \<subseteq> {''client_stop'', ''server_stat''} \<and> length rs \<le> 5 \<and> sends late st2 (sys_rpc s)))"

lemma told_talk:
  assumes "told s0 s" "talk s s'" "sy_stage s' = Operating \<longleftrightarrow> sy_stage s = Operating"
  shows "told s0 s'"
proof (cases "sy_stage s = Operating")
  case True
  have "late \<subseteq> alive" by (auto simp: alive_def)
  then have "sends alive (sys_rpc s) (sys_rpc s')" using assms(2) sends_mono by (auto simp: talk_def split: if_splits)
  with True assms sends_trans show ?thesis by (auto simp: told_def talk_def)
next
  case False
  with assms(1) obtain st1 st2 q rs where ka: "\<not> running (rs_client (sys_rpc s))" "\<not> sy_keepalive s" and sent: "sends alive (sys_rpc s0) st1" "rs_sent st2 = rs_sent st1 @ q # rs"
    "rq_act q = ''client_stop''" "rq_act ` set rs \<subseteq> {''client_stop'', ''server_stat''}" "sends late st2 (sys_rpc s)" "length rs \<le> 5"
    by (auto simp: told_def)
  have "sends late st2 (sys_rpc s')" using assms(2) ka(2) sent(5) sends_trans by (auto simp: talk_def)
  with False assms(2,3) ka sent show ?thesis unfolding told_def talk_def by auto
qed

lemma told_stop:
  assumes "told s0 s" "sy_stage s = Operating"
  shows "told s0 (begin_shutdown X s)"
proof -
  let ?st = "upd_client (\<lambda>c. c\<lparr>running := False\<rparr>) (sys_rpc s)"
  let ?st2 = "snd (send_action X ''client_stop'' None ?st)"
  have run: "running (rs_client (sys_rpc s))" and pre: "sends alive (sys_rpc s0) (sys_rpc s)" using assms by (simp_all add: told_def)
  obtain q rs where q: "rs_sent ?st2 = rs_sent ?st @ q # rs" "rq_act q = ''client_stop''" by (rule action_first)
  have "sends {''client_stop'', ''server_stat''} ?st ?st2" by (rule sends_action) simp_all
  with q have rs: "rq_act ` set rs \<subseteq> {''client_stop'', ''server_stat''}" by (auto simp: sends_def)
  have len: "length rs \<le> 5" using send_action_ok [of X ?st "''client_stop''" None] q(1) by (auto simp: loop_ok_def)
  have "\<not> running (rs_client ?st2)"
    using send_action_config [of X "''client_stop''" None ?st] by (metis (no_types, lifting) same_config_def surjective_pairing upd_client_simps(1) rpc_client.select_convs(6) rpc_client.surjective rpc_client.update_convs(6))
  moreover have "sys_rpc (begin_shutdown X s) = ?st2" using run by (simp add: begin_shutdown_def stop_client_def rpc_shutdown_def)
  moreover have "sends alive (sys_rpc s0) ?st" using pre by simp
  ultimately show ?thesis
    using q rs len sends_refl [of late ?st2] unfolding told_def by (fastforce simp: begin_shutdown_def)
qed

lemma stage_step:
  assumes "\<And>cause. e \<noteq> StopSignal cause"
  shows "sy_stage (sys_step X C a server e s) = Operating \<longleftrightarrow> sy_stage s = Operating"
  using assms
  by (cases e)
    (auto simp: sys_step_def incoming_def handle_request_def start_load_def resume_handler_def time_out_def end_load_def end_check_def run_cleaner_def
      take_command_def retry_reload_def send_command_def finish_shutdown_def Let_def
      split: option.splits list.splits handler.splits prod.splits hath_result.splits)

lemma told_step: "told s0 s \<Longrightarrow> told s0 (sys_step X C a server e s)"
proof (cases "\<exists>cause. e = StopSignal cause")
  case True
  moreover assume "told s0 s"
  ultimately show ?thesis by (auto simp: sys_step_def intro: told_stop)
next
  case False
  moreover assume "told s0 s"
  ultimately show ?thesis by (intro told_talk [OF _ talk_step stage_step]) auto
qed

lemma fold_inv: "(\<And>e s. I s \<Longrightarrow> I (f e s)) \<Longrightarrow> I s \<Longrightarrow> I (fold f es s)"
  by (induction es arbitrary: s) auto

section \<open>Strangers\<close>

text \<open>The part of the state that only the coordinating server should change.\<close>

definition same_client :: "'k client_state \<Rightarrow> 'k client_state \<Rightarrow> bool" where
  "same_client c0 c \<longleftrightarrow>
     (let r0 = rs_client (cl_rpc c0); r = rs_client (cl_rpc c) in
      rpc_settings r = rpc_settings r0 \<and> rpc_servers r = rpc_servers r0 \<and> client_key r = client_key r0 \<and> client_id r = client_id r0 \<and>
      cl_certs c = cl_certs c0 \<and> cl_logging c = cl_logging c0 \<and> cl_downloader c = NoDownloader \<and> cl_reloads c = [])"

definition stranger :: "'k client_state \<Rightarrow> live_request \<Rightarrow> bool" where
  "stranger c0 lv \<longleftrightarrow> \<not> is_vaild_rpc_server (rq_addr (lv_request lv)) (rs_client (cl_rpc c0)) \<and> (\<forall>cmd r. lv_state lv \<noteq> AwaitRoom cmd r)"

definition undisturbed :: "'k client_state \<Rightarrow> 'k system \<Rightarrow> bool" where
  "undisturbed c0 s \<longleftrightarrow> same_client c0 (sy_client s) \<and> set (cs_channel (sy_conn s)) \<subseteq> {Overload} \<and> list_all (stranger c0) (sy_reqs s)"

lemma same_client_cong:
  "same_client c0 c \<Longrightarrow> same_config (rs_client (cl_rpc c)) (rs_client rpc) \<Longrightarrow> same_client c0 (c\<lparr>cl_rpc := rpc, cl_cm := cm\<rparr>)"
  by (simp add: same_client_def same_config_def Let_def)

lemma undisturbed_put:
  "undisturbed c0 s \<Longrightarrow> same_config (rs_client (sys_rpc s)) (rs_client rpc) \<Longrightarrow> undisturbed c0 (put_client rpc cm s)"
  by (simp add: undisturbed_def same_client_cong)

lemma undisturbed_handler:
  assumes "undisturbed c0 s" "i < length (sy_reqs s)" "\<And>cmd r. h \<noteq> AwaitRoom cmd r"
  shows "undisturbed c0 (set_handler i h s)"
  using assms by (auto simp: undisturbed_def set_handler_def list_all_length nth_list_update stranger_def)

lemma undisturbed_settle: "undisturbed c0 s \<Longrightarrow> i < length (sy_reqs s) \<Longrightarrow> undisturbed c0 (settle i r s)"
  unfolding settle_def by (rule undisturbed_handler) (auto simp: undisturbed_def conn_step_def)

lemma undisturbed_abandon: "undisturbed c0 s \<Longrightarrow> i < length (sy_reqs s) \<Longrightarrow> undisturbed c0 (abandon i s)"
  unfolding abandon_def by (rule undisturbed_handler) (auto simp: undisturbed_def conn_step_def leave_def)

lemma undisturbed_fields [simp]:
  "undisturbed c0 (s\<lparr>sy_loads := ls\<rparr>) = undisturbed c0 s" "undisturbed c0 (s\<lparr>sy_checks := ts\<rparr>) = undisturbed c0 s"
  "undisturbed c0 (s\<lparr>sy_log := l\<rparr>) = undisturbed c0 s" "undisturbed c0 (s\<lparr>sy_keepalive := b\<rparr>) = undisturbed c0 s"
  "undisturbed c0 (s\<lparr>sy_ticks := n\<rparr>) = undisturbed c0 s" "undisturbed c0 (s\<lparr>sy_asked := m\<rparr>) = undisturbed c0 s"
  "undisturbed c0 (s\<lparr>sy_stage := st\<rparr>) = undisturbed c0 s" "undisturbed c0 (s\<lparr>sy_server := sv\<rparr>) = undisturbed c0 s"
  by (simp_all add: undisturbed_def)

lemma undisturbed_start_load:
  assumes "undisturbed c0 s" "i < length (sy_reqs s)"
  shows "undisturbed c0 (start_load X server E name i info file_index xres file_id s)"
proof (cases "sr_fetch X file_index xres file_id (sys_rpc s)")
  case (Pair r rpc)
  from sr_fetch_config [of "sys_rpc s" X file_index xres file_id] have "same_config (rs_client (sys_rpc s)) (rs_client rpc)" by (simp add: Pair)
  from undisturbed_put [OF assms(1) this] assms show ?thesis
    by (auto simp: start_load_def Pair intro!: undisturbed_handler undisturbed_settle undisturbed_abandon split: option.split prod.split)
qed

lemma undisturbed_handle:
  assumes "undisturbed c0 s" "i < length (sy_reqs s)"
  shows "undisturbed c0 (handle_request X server E threads name i s)"
proof -
  let ?lv = "sy_reqs s ! i"
  obtain res cm cmds where a: "app X E server (lv_tcp ?lv) (sy_server s) (rs_client (sys_rpc s)) threads (lv_request ?lv) (sys_cm s) = (res, cm, cmds)"
    by (metis surj_pair)
  have "\<not> is_vaild_rpc_server (rq_addr (lv_request ?lv)) (rs_client (sys_rpc s))"
    using assms by (simp add: undisturbed_def list_all_length stranger_def is_vaild_rpc_server_def same_client_def Let_def)
  then have cmds: "cmds = []"
    using a run_route_effects [of X E "rs_client (sys_rpc s)" threads "lv_request ?lv" "match_route (sv_metrics (sy_server s)) (rq_path (lv_request ?lv))" "sys_cm s"]
    by (auto simp: app_def split: if_splits prod.splits hath_result.splits)
  have "undisturbed c0 (put_client (sys_rpc s) cm s)" by (rule undisturbed_put [OF assms(1)]) simp
  with undisturbed_start_load [OF this] assms(2) show ?thesis
    by (cases res) (simp_all add: handle_request_def a cmds Let_def undisturbed_settle)
qed

lemma undisturbed_step:
  assumes "undisturbed c0 s" "\<And>tcp version query rq. e = Incoming tcp version query rq \<Longrightarrow> \<not> is_vaild_rpc_server (rq_addr rq) (rs_client (cl_rpc c0))"
  shows "undisturbed c0 (sys_step X C a server e s)"
proof (cases e)
  case (Incoming tcp version query rq)
  with assms show ?thesis
    by (auto simp: sys_step_def incoming_def undisturbed_def conn_step_def conn_call_def try_send_def stranger_def)
next
  case (Resume i)
  have "\<And>cmd r. i < length (sy_reqs s) \<Longrightarrow> lv_state (sy_reqs s ! i) \<noteq> AwaitRoom cmd r"
    using assms(1) by (simp add: undisturbed_def list_all_length stranger_def)
  with assms(1) show ?thesis by (auto simp: Resume sys_step_def resume_handler_def Let_def undisturbed_settle split: handler.split)
next
  case (TakeCommand now)
  have "undisturbed c0 (s\<lparr>sy_client := client_step X C a (now, Command Overload) (sy_client s), sy_conn := conn_step conn_event.Recv (sy_conn s)\<rparr>)"
    using assms(1) notify_overload_config [of "sys_rpc s" X] set_drop_subset [of 1 "cs_channel (sy_conn s)"]
    by (auto simp: undisturbed_def client_step_def handle_command_def same_client_def same_config_def Let_def conn_step_def)
  moreover have "c = Overload" if "cs_channel (sy_conn s) = c # cs" for c cs using assms(1) that by (simp add: undisturbed_def)
  ultimately show ?thesis using assms(1) by (auto simp: TakeCommand sys_step_def take_command_def split: list.split)
next
  case RetryReload
  with assms(1) show ?thesis by (simp add: sys_step_def retry_reload_def undisturbed_def same_client_def Let_def)
next
  case (GalleryEnds ok)
  with assms(1) show ?thesis by (simp add: sys_step_def client_step_def undisturbed_def same_client_def Let_def)
next
  case (Tick E)
  have "undisturbed c0 (put_client (ka_rpc (keepalive_tick X (extern.truncate X) E
      \<lparr>ka_counter = sy_ticks s, ka_rpc = sys_rpc s, ka_cm = sys_cm s, ka_stopped = False, ka_shutdowns = sy_asked s\<rparr>)) cm s)" for cm
    by (rule undisturbed_put [OF assms(1) keepalive_tick_rpc(1) [OF refl]])
  with assms(1) show ?thesis by (simp add: Tick sys_step_def tick_def Let_def)
next
  case (StopSignal cause)
  have "same_client c0 (stop_client X (sy_client s))"
    using assms(1) send_action_config [of X "''client_stop''" None "upd_client (\<lambda>c. c\<lparr>running := False\<rparr>) (sys_rpc s)"]
    by (cases "send_action X ''client_stop'' None (upd_client (\<lambda>c. c\<lparr>running := False\<rparr>) (sys_rpc s))")
      (auto simp: undisturbed_def stop_client_def rpc_shutdown_def same_client_def same_config_def Let_def)
  with assms(1) show ?thesis by (simp add: StopSignal sys_step_def begin_shutdown_def undisturbed_def)
next
  case (ShutDown E)
  with assms(1) show ?thesis by (simp add: sys_step_def finish_shutdown_def undisturbed_def same_client_def Let_def)
qed (use assms(1) in \<open>auto simp: sys_step_def undisturbed_handle time_out_def undisturbed_settle undisturbed_abandon end_load_def end_check_def run_cleaner_def
      Let_def intro!: undisturbed_put split: option.split\<close>)

section \<open>Runs\<close>

text \<open>Every step of a run happens under the given conditions.\<close>

fun along :: "('e \<Rightarrow> 's \<Rightarrow> bool) \<Rightarrow> ('e \<Rightarrow> 's \<Rightarrow> 's) \<Rightarrow> 'e list \<Rightarrow> 's \<Rightarrow> bool" where
  "along P f [] s = True"
| "along P f (e # es) s = (P e s \<and> along P f es (f e s))"

lemma along_fold: "along P f es s \<Longrightarrow> (\<And>e s. I s \<Longrightarrow> P e s \<Longrightarrow> I (f e s)) \<Longrightarrow> I s \<Longrightarrow> I (fold f es s)"
  by (induction es arbitrary: s) auto

interpretation operating: stateful "\<lambda>s. \<exists>ru. s = system_start ru" "\<lambda>s s'. \<exists>X C a server e. s' = sys_step (X :: app_ext) C a server e s" traffic_inv
  by unfold_locales (auto simp: traffic_start traffic_step)

text \<open>What a reader hands out of an authentic store.\<close>

lemma good_reader:
  assumes "good_store X cm" "plain_info info" "get_file X E info offset cm = (res, cm')" "res = Full (ReaderStream r) \<or> res = Partial (ReaderStream r)"
  shows "\<exists>d n. x_sha1 X d = fi_hash info \<and> length d = unat (fi_size info) \<and> (offset = None \<longrightarrow> n = 0) \<and>
    prefix (fst (run_body reader_poll es r)) (drop n d)"
  using assms(2-4)
proof (rule get_file_streams)
  fix d
  assume d: "contents X cm (stored_info info) = Some d" "length d = unat (fi_size info)"
    and reader: "\<And>r'. ReaderStream r = ReaderStream r' \<Longrightarrow> reader_ok r' \<and> (\<exists>n. reader_rest r' = drop n d \<and> (offset = None \<longrightarrow> n = 0))"
  have "x_sha1 X d = fi_hash info" using assms(1) d(1) by (auto simp: good_store_def stored_info_def split: if_splits)
  moreover obtain n where n: "reader_ok r" "reader_rest r = drop n d" "offset = None \<longrightarrow> n = 0" using reader [OF refl] by blast
  moreover have "prefix (fst (run_body reader_poll es r)) (reader_rest r)"
    using fr.run_body_sound [of r es] n(1) by (cases "run_body reader_poll es r") (fastforce simp: prefix_def)
  ultimately show ?thesis using d(2) by auto
qed

lemma phase_match_views:
  "phase_match p l h \<Longrightarrow> (p \<noteq> req_phase.Gone) = (l = Calling \<or> l = Sending) \<and> (h = Answered \<longleftrightarrow> l \<noteq> Calling)"
  by (cases p) (auto simp: phase_match_def)

lemma along_list_all: "along (\<lambda>e _. P e) f es s = list_all P es"
  by (induction es arbitrary: s) auto

lemma filter_agree: "list_all2 (\<lambda>x y. P x = Q y) xs ys \<Longrightarrow> length (filter P xs) = length (filter Q ys)"
  by (induction rule: list_all2_induct) auto

text \<open>The command loop of a client that has just started is idle, and the origin check is as the options say.\<close>

lemma update_settings_check:
  "set_disable_ip_check (rpc_settings (update_settings X pick m c)) = set_disable_ip_check (rpc_settings c)"
  by (simp add: update_settings_def settings_update_def Let_def split: option.split)

lemma login_check:
  assumes "login X pick st = (r, st')"
  shows "set_disable_ip_check (rpc_settings (rs_client st')) = set_disable_ip_check (rpc_settings (rs_client st))"
proof -
  obtain v st1 where cs: "check_stat X st = (v, st1)" by (metis surj_pair)
  obtain w st2 where sa: "send_action X ''client_login'' None st1 = (w, st2)" by (metis surj_pair)
  have "same_config (rs_client st) (rs_client st1)" "same_config (rs_client st1) (rs_client st2)"
    using check_stat_spec [of st X] cs send_action_config [OF sa] by simp_all
  with assms show ?thesis
    by (auto simp: login_def cs sa Let_def same_config_def update_settings_check split: sum.splits if_splits option.splits)
qed

lemma announce_check:
  assumes "announce X pick X' E st cm = Inr (st', cm')"
  shows "set_disable_ip_check (rpc_settings (rs_client st')) = set_disable_ip_check (rpc_settings (rs_client st))"
proof -
  obtain w st1 where sa: "send_action X ''client_start'' None st = (w, st1)" by (metis surj_pair)
  let ?st = "upd_client (\<lambda>c. c\<lparr>running := True\<rparr>) st1"
  obtain v st2 where cs: "send_action X ''client_settings'' None ?st = (v, st2)" by (metis surj_pair)
  have "set_disable_ip_check (rpc_settings (rs_client (refresh_settings X pick ?st))) = set_disable_ip_check (rpc_settings (rs_client st1))"
    using send_action_config [OF cs] by (auto simp: refresh_settings_def cs same_config_def update_settings_check split: sum.split)
  moreover have "same_config (rs_client (refresh_settings X pick ?st)) (rs_client (snd (get_purgelist X 259200 (refresh_settings X pick ?st))))"
    by (rule get_purgelist_config)
  ultimately show ?thesis
    using assms send_action_config [OF sa]
    by (auto simp: announce_def connect_check_def sa same_config_def split: prod.splits sum.splits option.splits if_splits)
qed

lemma booted_idle:
  assumes "boot X C X' a B d = Booted ru"
  shows "cl_downloader (ru_client ru) = NoDownloader" "cl_reloads (ru_client ru) = []"
    and "set_disable_ip_check (rpc_settings (rs_client (cl_rpc (ru_client ru)))) = ar_disable_ip_origin_check a"
proof -
  from assms obtain ident key d' where p: "prepare a B d = Inr ((ident, key), d')" by (cases "prepare a B d") (auto simp: boot_def)
  let ?st = "\<lparr>rs_client = rpc_new ident key (ar_disable_ip_origin_check a) (ar_max_connection a) (ar_rpc_server_ip a),
      rs_net = bo_net B, rs_sent = []\<rparr>"
  obtain r st where sl: "start_login X (xc_pick C) ?st = (r, st)" by (metis surj_pair)
  obtain r' where "login X (xc_pick C) ?st = (r', st)" using start_login_state [OF sl] by blast
  from login_check [OF this] have st: "set_disable_ip_check (rpc_settings (rs_client st)) = ar_disable_ip_origin_check a" by (simp add: rpc_new_def)
  from assms obtain i s f cm where "open_client X C X' a B i s f cm st = Booted ru"
    by (auto simp: boot_def p sl Let_def split: sum.splits start_outcome.splits)
  then obtain cert st1 st' cm' certs where gc: "get_cert X (xc_parse C) st = (Some cert, st1)"
    and an: "announce X (xc_pick C) X' (bo_io B) st1 cm = Inr (st', cm')" and ru: "ru_client ru = command_state a B s st' cm' certs"
    by (auto simp: open_client_def split: prod.splits option.splits server_start.splits sum.splits)
  show "cl_downloader (ru_client ru) = NoDownloader" "cl_reloads (ru_client ru) = []" by (simp_all add: ru command_state_def)
  show "set_disable_ip_check (rpc_settings (rs_client (cl_rpc (ru_client ru)))) = ar_disable_ip_origin_check a"
    using announce_check [OF an] get_cert_config [OF gc] st by (simp add: ru command_state_def)
qed

section \<open>Properties\<close>



text \<open>
  C14.  The three views of the traffic agree: in every state of the running client the counter that decides about overload is the number of requests
  the log shows as being handled or sent, the log has numbered every request once, a request is answered exactly when the log has its
  response, and at most one command waits.
\<close>

theorem run_counts_requests:
  fixes X :: "('a) app_ext_scheme" and C :: "'k client_ext" and ru :: "'k running" and a server es
  defines "s \<equiv> fold (sys_step X C a server) es (system_start ru)"
  shows "cs_counter (sy_conn s) =
      of_nat (length (filter (\<lambda>r. lr_phase r = Calling \<or> lr_phase r = Sending) (rl_requests (sy_log s)))) \<and>
    rl_sent (sy_log s) = of_nat (length (sy_reqs s)) \<and>
    list_all2 (\<lambda>lv r. lv_state lv = Answered \<longleftrightarrow> lr_phase r \<noteq> Calling) (sy_reqs s) (rl_requests (sy_log s)) \<and>
    length (cs_channel (sy_conn s)) \<le> 1"
proof -
  have "traffic_inv s" unfolding s_def by (rule fold_inv [where I = traffic_inv]) (simp_all add: traffic_step traffic_start)
  then have inv: "conn_inv (sy_conn s)" "log_inv (sy_log s)" "coupled s" by (simp_all add: traffic_inv_def)
  have "list_all2 (\<lambda>p r. (p \<noteq> req_phase.Gone) = (lr_phase r = Calling \<or> lr_phase r = Sending)) (cs_requests (sy_conn s)) (rl_requests (sy_log s))"
    using inv(3) by (auto simp: coupled_def list_all2_conv_all_nth dest: phase_match_views)
  then have "live_requests (sy_conn s) = length (filter (\<lambda>r. lr_phase r = Calling \<or> lr_phase r = Sending) (rl_requests (sy_log s)))"
    unfolding live_requests_def by (rule filter_agree)
  moreover have "list_all2 (\<lambda>lv r. lv_state lv = Answered \<longleftrightarrow> lr_phase r \<noteq> Calling) (sy_reqs s) (rl_requests (sy_log s))"
    using inv(3) by (auto simp: coupled_def list_all2_conv_all_nth dest: phase_match_views)
  ultimately show ?thesis using inv by (simp add: conn_inv_def log_inv_def coupled_def)
qed

text \<open>
  C15.  Only the coordinating server steers the client: with the origin check on, as long as no request comes from an address in the list of its servers, no
  sequence of events changes the settings, the server list, the credentials, the certificate, the log options or starts a gallery download, whatever the
  requests contain.
\<close>

theorem strangers_change_nothing:
  assumes "boot X C X' a B d = Booted ru" "\<not> ar_disable_ip_origin_check a"
    and "\<forall>e \<in> set es. case e of Incoming tcp version query rq \<Rightarrow> rq_addr rq \<notin> set (rpc_servers (rs_client (cl_rpc (ru_client ru)))) | _ \<Rightarrow> True"
    and "s = fold (sys_step X C a server) es (system_start ru)"
  shows "rpc_settings (rs_client (sys_rpc s)) = rpc_settings (rs_client (cl_rpc (ru_client ru))) \<and>
    rpc_servers (rs_client (sys_rpc s)) = rpc_servers (rs_client (cl_rpc (ru_client ru))) \<and>
    client_key (rs_client (sys_rpc s)) = client_key (rs_client (cl_rpc (ru_client ru))) \<and>
    client_id (rs_client (sys_rpc s)) = client_id (rs_client (cl_rpc (ru_client ru))) \<and>
    cl_certs (sy_client s) = cl_certs (ru_client ru) \<and> cl_logging (sy_client s) = cl_logging (ru_client ru) \<and>
    cl_downloader (sy_client s) = NoDownloader \<and> set (cs_channel (sy_conn s)) \<subseteq> {Overload}"
proof -
  let ?c = "ru_client ru"
  note idle = booted_idle [OF assms(1)]
  let ?alien = "\<lambda>e. \<forall>tcp version query rq. e = Incoming tcp version query rq \<longrightarrow> \<not> is_vaild_rpc_server (rq_addr rq) (rs_client (cl_rpc ?c))"
  have "list_all ?alien es" using assms(2,3) idle(3) by (fastforce simp: is_vaild_rpc_server_def list_all_iff)
  then have run: "along (\<lambda>e _. ?alien e) (sys_step X C a server) es (system_start ru)" by (simp only: along_list_all)
  have "undisturbed ?c (system_start ru)"
    using idle by (simp add: undisturbed_def system_start_def same_client_def Let_def conn_new_def)
  then have "undisturbed ?c s"
    unfolding assms(4) by (rule along_fold [where I = "undisturbed ?c", OF run, rotated]) (blast intro: undisturbed_step)
  then show ?thesis by (simp add: undisturbed_def same_client_def Let_def)
qed

text \<open>
  C16.  The coordinating server hears of the end exactly once: while the client operates it sends no \<^verbatim>\<open>client_stop\<close>; a shutdown sends
  it at once, with at most five further requests for retries; after that no keep-alive and no purge-list request goes out, however long the remaining tasks still run, and
  dropping the RPC client at the end adds nothing.
\<close>

theorem stop_told_once:
  assumes "boot X C X' a B d = Booted ru" "s = fold (sys_step X C a server) es (system_start ru)"
  shows "\<exists>sent. rs_sent (sys_rpc s) = rs_sent (cl_rpc (ru_client ru)) @ sent \<and>
    (if sy_stage s = Operating then ''client_stop'' \<notin> rq_act ` set sent \<and> running (rs_client (sys_rpc s))
     else \<exists>before q stops after. sent = before @ q # stops @ after \<and> ''client_stop'' \<notin> rq_act ` set before \<and> rq_act q = ''client_stop'' \<and>
       rq_act ` set stops \<subseteq> {''client_stop'', ''server_stat''} \<and> length stops \<le> 5 \<and>
       rq_act ` set after \<subseteq> {''server_stat'', ''overload'', ''client_settings'', ''srfetch'', ''get_cert''} \<and>
       rpc_drop X (sys_rpc s) = Some (sys_rpc s))"
proof -
  have "running (rs_client (cl_rpc (ru_client ru)))"
    using boot_announced_last [of B X C X' a d] assms(1) by (simp add: announced_last_def)
  then have "told (system_start ru) (system_start ru)" by (simp add: told_def system_start_def)
  then have told: "told (system_start ru) s" unfolding assms(2) by (rule fold_inv [where I = "told (system_start ru)", rotated]) (rule told_step)
  have start: "sys_rpc (system_start ru) = cl_rpc (ru_client ru)" by (simp add: system_start_def)
  have quiet: "''client_stop'' \<notin> alive" by (simp add: alive_def late_def)
  show ?thesis
  proof (cases "sy_stage s = Operating")
    case True
    with told start quiet show ?thesis by (auto simp: told_def sends_def)
  next
    case False
    with told start obtain st1 st2 q stops where r: "\<not> running (rs_client (sys_rpc s))" and st: "sends alive (cl_rpc (ru_client ru)) st1"
      "rs_sent st2 = rs_sent st1 @ q # stops" "rq_act q = ''client_stop''" "rq_act ` set stops \<subseteq> {''client_stop'', ''server_stat''}" "length stops \<le> 5"
      "sends late st2 (sys_rpc s)" by (auto simp: told_def)
    from st(1,6) obtain before after where "rs_sent st1 = rs_sent (cl_rpc (ru_client ru)) @ before" "rq_act ` set before \<subseteq> alive"
      "rs_sent (sys_rpc s) = rs_sent st2 @ after" "rq_act ` set after \<subseteq> late" by (auto simp: sends_def)
    moreover have "rpc_drop X (sys_rpc s) = Some (sys_rpc s)" using r by (simp add: rpc_drop_def)
    ultimately have "rs_sent (sys_rpc s) = rs_sent (cl_rpc (ru_client ru)) @ (before @ q # stops @ after) \<and> ''client_stop'' \<notin> rq_act ` set before \<and>
        rq_act ` set after \<subseteq> late \<and> rpc_drop X (sys_rpc s) = Some (sys_rpc s)"
      using st(2) quiet by auto
    with False st(3,4,5) show ?thesis unfolding late_def by (simp only: if_False) blast
  qed
qed

section \<open>An encoded slash\<close>

text \<open>
  Why links are taken to be plain: the type part of a file id may hold anything, and the parameter of the route is percent-decoded.  An id with an
  encoded slash parses, and its path lies below the directory of its range and not in it, where neither a scan nor the
  cleaner nor the books know it as a cached file.
\<close>

theorem encoded_slash_leaves_range:
  assumes "external X" "length h = 20" "info = \<lparr>fi_hash = h, fi_size = n, fi_xres = 0, fi_yres = 0, fi_mime_type = Other ''a/b''\<rparr>"
  shows "from_file_id (x_dec X) (file_name (x_enc X) info) = Some info \<and>
    to_path (x_enc X) info dir = range_dir dir (static_range (x_enc X) info) @ ''/'' @ x_enc X h @ ''-'' @ show_nat (unat n) @ ''-a/b'' \<and>
    entry_range X dir (to_path (x_enc X) info dir) = None"
proof -
  have wf: "wf_info info" using assms(2) by (simp add: assms(3) wf_info_def proper_type_def file_type_from_def)
  have codec: "hex_codec (x_enc X) (x_dec X)" using assms(1) by (rule external.axioms)
  have id: "from_file_id (x_dec X) (file_name (x_enc X) info) = Some info"
    using hex_codec.file_name_roundtrip [OF codec wf] by (simp add: assms(3) stored_info_def)
  have path: "to_path (x_enc X) info dir = range_dir dir (static_range (x_enc X) info) @ ''/'' @ x_enc X h @ ''-'' @ show_nat (unat n) @ ''-a/b''"
    using hex_codec.to_path_dir [OF codec wf] by (simp add: assms(3) file_name_def)
  have "basename (d @ CHR ''/'' # ''b'') = ''b''" for d by (rule basename_append) simp
  from this [of "range_dir dir (static_range (x_enc X) info) @ ''/'' @ x_enc X h @ ''-'' @ show_nat (unat n) @ ''-a''"]
  have "basename (to_path (x_enc X) info dir) = ''b''" by (simp add: path)
  moreover have "from_file_id (x_dec X) ''b'' = None"
    by (auto simp: from_file_id_def next_u32_def bind_eq_None_conv Let_def)
  ultimately show ?thesis using id path by (simp add: entry_range_def)
qed

section \<open>Sample runs\<close>

text \<open>A request that is handled, a tick, and a shutdown.\<close>

definition sample_visit :: "string \<Rightarrow> http_request" where
  "sample_visit addr = \<lparr>rq_method = ''GET'', rq_path = ''/h/x/y/z'', rq_addr = addr,
     rq_headers = \<lparr>hh_if_none_match = None, hh_range = None, hh_if_range = None\<rparr>\<rparr>"

definition sample_run :: "string \<Rightarrow> sys_event list" where
  "sample_run addr = [Tick sample_env, Incoming True ''HTTP/1.1'' None (sample_visit addr), Handle 0 sample_env [] ''x'', Clean sample_env [],
     TakeCommand 0, StopSignal CtrlC, ShutDown sample_env]"

abbreviation sample_step :: "sys_event \<Rightarrow> unit system \<Rightarrow> unit system" where
  "sample_step \<equiv> sys_step sample_app_ext boot_ext sample_args ''s''"

lemma sample_visit_plain: "plain_link sample_app_ext m (sample_visit addr)"
  by (simp add: plain_link_def sample_visit_def match_route_def)

lemma sample_tick: "sy_stage (sample_step (Tick E) s) = sy_stage s" "sy_reqs (sample_step (Tick E) s) = sy_reqs s"
  by (simp_all add: sys_step_def tick_def Let_def)

lemma sample_run_proper:
  assumes "sy_reqs s = []" "sy_stage s = Operating" "sy_ticks s = 0"
  shows "along (\<lambda>e s. proper sample_app_ext e s \<and> steady sample_app_ext (real_size sample_env) e s) sample_step (sample_run addr) s"
proof -
  let ?s = "sample_step (Incoming True ''HTTP/1.1'' None (sample_visit addr)) (sample_step (Tick sample_env) s)"
  have "sy_reqs ?s = [\<lparr>lv_tcp = True, lv_request = sample_visit addr, lv_state = Handling\<rparr>]"
    using assms by (simp add: sys_step_def incoming_def tick_def Let_def)
  then have "proper sample_app_ext (Handle 0 sample_env [] ''x'') ?s"
    by (simp add: proper_def sample_visit_plain)
  moreover have "steady_env (real_size sample_env) sample_env"
    by (simp add: steady_env_def)
  moreover have "tick_list sample_app_ext s = None" using assms(3) by (simp add: tick_list_def purge_due_def)
  ultimately show ?thesis by (simp add: sample_run_def proper_def steady_def)
qed

lemma along_mono: "along P f es s \<Longrightarrow> (\<And>e s. P e s \<Longrightarrow> Q e s) \<Longrightarrow> along Q f es s"
  by (induction es arbitrary: s) auto

lemma system_start_simps [simp]:
  "sy_reqs (system_start ru) = []" "sy_stage (system_start ru) = Operating" "sy_ticks (system_start ru) = 0"
  "sy_loads (system_start ru) = []" "sy_checks (system_start ru) = []" "sy_client (system_start ru) = ru_client ru"
  by (simp_all add: system_start_def)



theorem strangers_change_nothing_witness:
  "\<exists>ru addr. boot sample_app_ext boot_ext sample_ext sample_args sample_boot [] = Booted ru \<and>
     rpc_settings (rs_client (sys_rpc (fold sample_step (sample_run addr) (system_start ru)))) = rpc_settings (rs_client (cl_rpc (ru_client ru)))"
proof (rule boot_sample)
  fix ru
  assume b: "boot sample_app_ext boot_ext sample_ext sample_args sample_boot [] = Booted ru"
  obtain addr where "addr \<notin> set (rpc_servers (rs_client (cl_rpc (ru_client ru))))"
    using ex_new_if_finite [OF infinite_UNIV_listI finite_set] by blast
  then have "\<forall>e \<in> set (sample_run addr). case e of Incoming tcp version query rq \<Rightarrow> rq_addr rq \<notin> set (rpc_servers (rs_client (cl_rpc (ru_client ru)))) | _ \<Rightarrow> True"
    by (simp add: sample_run_def sample_visit_def)
  from strangers_change_nothing [OF b _ this refl] b show ?thesis by auto
qed

theorem stop_told_once_witness:
  "\<exists>ru before q after. boot sample_app_ext boot_ext sample_ext sample_args sample_boot [] = Booted ru \<and>
     rs_sent (sys_rpc (fold sample_step [Tick sample_env, StopSignal CtrlC] (system_start ru))) =
       rs_sent (cl_rpc (ru_client ru)) @ before @ q # after \<and> ''client_stop'' \<notin> rq_act ` set before \<and> rq_act q = ''client_stop''"
proof (rule boot_sample)
  fix ru
  assume b: "boot sample_app_ext boot_ext sample_ext sample_args sample_boot [] = Booted ru"
  define s where "s = fold sample_step [Tick sample_env, StopSignal CtrlC] (system_start ru)"
  have "sy_stage (sample_step (Tick sample_env) (system_start ru)) = Operating" by (simp add: sample_tick)
  then have stage: "sy_stage s \<noteq> Operating"
    by (simp add: s_def sys_step_def [of _ _ _ _ "StopSignal CtrlC"] wait_shutdown_signal_def begin_shutdown_def)
  from stop_told_once [OF b s_def] stage obtain sent before q stops after where
    "rs_sent (sys_rpc s) = rs_sent (cl_rpc (ru_client ru)) @ sent" "sent = before @ q # stops @ after"
    "''client_stop'' \<notin> rq_act ` set before" "rq_act q = ''client_stop''"
    by (simp only: if_False) (elim exE conjE, rule that, assumption+)
  with b show ?thesis unfolding s_def by blast
qed

end
