(* ===== verification/DateHeader.thy ===== *)
theory DateHeader
  imports Server
begin

text \<open>
  \<^verbatim>\<open>server/date_header.rs\<close>: the buffer behind the cached date.  \<^verbatim>\<open>Server\<close> has the cache as a value and the time of its next update; here is the
  array of 29 bytes that \<^verbatim>\<open>write!\<close> fills piece by piece, with the panics of the slice and of \<^verbatim>\<open>expect\<close> as \<open>None\<close>.  It refines the cache
  (\<open>date_buffer_refines\<close>).
\<close>

section \<open>The buffer\<close>

definition DATE_VALUE_LENGTH :: nat where
  "DATE_VALUE_LENGTH = 29"

record date_buffer =
  db_bytes :: bytes
  db_pos :: nat
  db_value :: bytes
  db_next :: int

text \<open>\<^verbatim>\<open>copy_from_slice\<close> into a range that is not inside the array panics.\<close>

definition write_str :: "bytes \<Rightarrow> date_buffer \<Rightarrow> date_buffer option" where
  "write_str s c =
     (let len = length s in
      if db_pos c + len \<le> length (db_bytes c)
      then Some (c\<lparr>db_bytes := take (db_pos c) (db_bytes c) @ s @ drop (db_pos c + len) (db_bytes c), db_pos := db_pos c + len\<rparr>)
      else None)"

text \<open>\<^verbatim>\<open>write!\<close> calls \<^verbatim>\<open>write_str\<close> for each piece the formatting of the date produces.\<close>

fun write_pieces :: "bytes list \<Rightarrow> date_buffer \<Rightarrow> date_buffer option" where
  "write_pieces [] c = Some c"
| "write_pieces (s # ss) c = (case write_str s c of None \<Rightarrow> None | Some c \<Rightarrow> write_pieces ss c)"

text \<open>\<open>valid\<close> says which bytes \<^verbatim>\<open>HeaderValue::from_bytes\<close> accepts, \<open>debug\<close> whether \<^verbatim>\<open>debug_assert!\<close> is compiled in.\<close>

definition render_http2 :: "(bytes \<Rightarrow> bool) \<Rightarrow> date_buffer \<Rightarrow> date_buffer option" where
  "render_http2 valid c = (if valid (db_bytes c) then Some (c\<lparr>db_value := db_bytes c\<rparr>) else None)"

definition date_render :: "bool \<Rightarrow> (bytes \<Rightarrow> bool) \<Rightarrow> (int \<Rightarrow> bytes list) \<Rightarrow> int \<Rightarrow> date_buffer \<Rightarrow> date_buffer option" where
  "date_render debug valid pieces now c =
     (case write_pieces (pieces now) (c\<lparr>db_pos := 0\<rparr>) of
        None \<Rightarrow> None
      | Some c \<Rightarrow> if debug \<and> db_pos c \<noteq> DATE_VALUE_LENGTH then None else render_http2 valid c)"

definition buffer_update :: "bool \<Rightarrow> (bytes \<Rightarrow> bool) \<Rightarrow> (int \<Rightarrow> bytes list) \<Rightarrow> int \<Rightarrow> date_buffer \<Rightarrow> date_buffer option" where
  "buffer_update debug valid pieces now c =
     (let nanos = (if 0 \<le> now then now mod 1000000000 else 0) in
      case date_render debug valid pieces now c of
        None \<Rightarrow> None
      | Some c \<Rightarrow> Some (c\<lparr>db_next := now + 1000000000 - nanos\<rparr>))"

definition buffer_new :: "bool \<Rightarrow> (bytes \<Rightarrow> bool) \<Rightarrow> (int \<Rightarrow> bytes list) \<Rightarrow> int \<Rightarrow> date_buffer option" where
  "buffer_new debug valid pieces now =
     buffer_update debug valid pieces now \<lparr>db_bytes = replicate DATE_VALUE_LENGTH 0, db_pos = 0, db_value = [], db_next = now\<rparr>"

definition buffer_check :: "bool \<Rightarrow> (bytes \<Rightarrow> bool) \<Rightarrow> (int \<Rightarrow> bytes list) \<Rightarrow> int \<Rightarrow> date_buffer \<Rightarrow> date_buffer option" where
  "buffer_check debug valid pieces now c = (if now > db_next c then buffer_update debug valid pieces now c else Some c)"

fun buffer_checks :: "bool \<Rightarrow> (bytes \<Rightarrow> bool) \<Rightarrow> (int \<Rightarrow> bytes list) \<Rightarrow> int list \<Rightarrow> date_buffer \<Rightarrow> date_buffer option" where
  "buffer_checks debug valid pieces [] c = Some c"
| "buffer_checks debug valid pieces (t # ts) c =
     (case buffer_check debug valid pieces t c of None \<Rightarrow> None | Some c \<Rightarrow> buffer_checks debug valid pieces ts c)"

section \<open>What is written\<close>

text \<open>The pieces end up side by side; what lies behind them stays.\<close>

lemma write_pieces_spec:
  assumes "db_pos c + length (concat ss) \<le> length (db_bytes c)"
  shows "write_pieces ss c = Some (c\<lparr>db_bytes := take (db_pos c) (db_bytes c) @ concat ss @ drop (db_pos c + length (concat ss)) (db_bytes c),
    db_pos := db_pos c + length (concat ss)\<rparr>)"
  using assms
proof (induction ss arbitrary: c)
  case (Cons s ss)
  let ?c = "c\<lparr>db_bytes := take (db_pos c) (db_bytes c) @ s @ drop (db_pos c + length s) (db_bytes c), db_pos := db_pos c + length s\<rparr>"
  have "write_str s c = Some ?c" using Cons.prems by (simp add: write_str_def Let_def)
  moreover have "write_pieces ss ?c = Some (?c\<lparr>db_bytes := take (db_pos ?c) (db_bytes ?c) @ concat ss @ drop (db_pos ?c + length (concat ss)) (db_bytes ?c),
      db_pos := db_pos ?c + length (concat ss)\<rparr>)"
    using Cons.prems by (intro Cons.IH) simp
  ultimately show ?case using Cons.prems by (simp add: ac_simps)
qed simp

lemma write_pieces_overflow: "db_pos c + length (concat ss) > length (db_bytes c) \<Longrightarrow> db_pos c \<le> length (db_bytes c) \<Longrightarrow> write_pieces ss c = None"
  by (induction ss arbitrary: c) (auto simp: write_str_def Let_def)

text \<open>The relation between the buffer and the cache.\<close>

definition date_match :: "date_buffer \<Rightarrow> cached_date \<Rightarrow> bool" where
  "date_match c a \<longleftrightarrow> length (db_bytes c) = DATE_VALUE_LENGTH \<and> db_value c = as_bytes (cd_value a) \<and> db_next c = cd_next a"

definition renders :: "(bytes \<Rightarrow> bool) \<Rightarrow> (int \<Rightarrow> bytes list) \<Rightarrow> (int \<Rightarrow> string) \<Rightarrow> bool" where
  "renders valid pieces render \<longleftrightarrow>
     (\<forall>t. concat (pieces t) = as_bytes (render t) \<and> length (as_bytes (render t)) = DATE_VALUE_LENGTH \<and> valid (as_bytes (render t)))"

lemma buffer_update_match:
  assumes "renders valid pieces render" "length (db_bytes c) = DATE_VALUE_LENGTH"
  shows "\<exists>c'. buffer_update debug valid pieces now c = Some c' \<and> date_match c' (date_update render now)"
proof -
  have p: "concat (pieces now) = as_bytes (render now)" "length (as_bytes (render now)) = DATE_VALUE_LENGTH" "valid (as_bytes (render now))"
    using assms(1) by (simp_all add: renders_def)
  with write_pieces_spec [of "c\<lparr>db_pos := 0\<rparr>" "pieces now"] assms(2)
  have "write_pieces (pieces now) (c\<lparr>db_pos := 0\<rparr>) = Some (c\<lparr>db_bytes := as_bytes (render now), db_pos := DATE_VALUE_LENGTH\<rparr>)" by simp
  with p show ?thesis
    by (simp add: buffer_update_def date_render_def render_http2_def date_match_def date_update_def Let_def)
qed

lemma buffer_check_match:
  assumes "renders valid pieces render" "date_match c a"
  shows "\<exists>c'. buffer_check debug valid pieces now c = Some c' \<and> date_match c' (date_check render now a)"
  using assms buffer_update_match [OF assms(1), of c debug now] by (auto simp: buffer_check_def date_check_def date_match_def)

section \<open>Properties\<close>

text \<open>
  When the formatted dates have the announced length and are valid header values, the buffer never panics, and after any number of
  checks, at any times, its header value and the time of its next update are those of the cache.
\<close>

theorem date_buffer_refines:
  assumes "renders valid pieces render"
  shows "\<exists>c0 c. buffer_new debug valid pieces t0 = Some c0 \<and> buffer_checks debug valid pieces ts c0 = Some c \<and>
    db_value c = as_bytes (cd_value (date_checks render ts (date_update render t0))) \<and>
    db_next c = cd_next (date_checks render ts (date_update render t0))"
proof -
  have "\<exists>c'. buffer_checks debug valid pieces ts c = Some c' \<and> date_match c' (date_checks render ts a)" if "date_match c a" for c a
    using that
  proof (induction ts arbitrary: c a)
    case (Cons t ts)
    from buffer_check_match [OF assms Cons.prems, of debug t] obtain c' where
      c': "buffer_check debug valid pieces t c = Some c'" "date_match c' (date_check render t a)" by blast
    from Cons.IH [OF c'(2)] c'(1) show ?case by simp
  qed simp
  moreover obtain c0 where "buffer_new debug valid pieces t0 = Some c0" "date_match c0 (date_update render t0)"
    using buffer_update_match [OF assms, of "\<lparr>db_bytes = replicate DATE_VALUE_LENGTH 0, db_pos = 0, db_value = [], db_next = t0\<rparr>" debug t0]
    unfolding buffer_new_def by auto
  ultimately show ?thesis by (fastforce simp: date_match_def)
qed

text \<open>
  The buffer relies on the length: a shorter date keeps the end of the previous one in a release build, and is a panic in a debug
  build; a longer one is a panic in both.
\<close>

theorem date_of_wrong_length:
  assumes "length (db_bytes c) = DATE_VALUE_LENGTH" "n = length (concat (pieces now))"
  shows "(n < DATE_VALUE_LENGTH \<longrightarrow> date_render True valid pieces now c = None \<and>
      (valid (concat (pieces now) @ drop n (db_bytes c)) \<longrightarrow>
        (\<exists>c'. date_render False valid pieces now c = Some c' \<and> db_value c' = concat (pieces now) @ drop n (db_bytes c)))) \<and>
    (DATE_VALUE_LENGTH < n \<longrightarrow> date_render debug valid pieces now c = None)"
  using assms write_pieces_spec [of "c\<lparr>db_pos := 0\<rparr>" "pieces now"] write_pieces_overflow [of "c\<lparr>db_pos := 0\<rparr>" "pieces now"]
  by (auto simp: date_render_def render_http2_def)

end
