(* ===== verification/H3Quinn.thy ===== *)
theory H3Quinn
  imports Prelude
begin

text \<open>
  \<^verbatim>\<open>src/server/h3_quinn.rs\<close>: the adapter that presents the streams of \<^verbatim>\<open>quinn\<close> to the crate \<^verbatim>\<open>h3\<close>.  The answers of
  \<^verbatim>\<open>quinn\<close> are arguments of the calls; the bytes it accepted are a field of the stream.  Shown: what is handed
  to a send stream is written once and in order, and when the end of a stream is reported as an error.
\<close>

section \<open>Errors\<close>

datatype conn_error =
  VersionMismatch | TransportError string | ConnectionClosed string | ApplicationClosed u64 | ConnReset | TimedOut | LocallyClosed | CidsExhausted

datatype read_error = ReadReset u64 | ReadLost conn_error | ReadClosed | IllegalOrderedRead | ReadZeroRttRejected

datatype write_error = Stopped u64 | WriteLost conn_error | WriteClosed | WriteZeroRttRejected

datatype stopped_error = StoppedLost conn_error | StoppedZeroRttRejected

text \<open>What the adapter reports; the error in \<^verbatim>\<open>Unknown\<close> is boxed, here it is one of four kinds.\<close>

datatype unknown_error = UnknownRead read_error | UnknownWrite write_error | UnknownStopped stopped_error | ClosedStream

datatype connection_error_incoming = ApplicationClose u64 | Timeout | InternalError string | Undefined conn_error

datatype stream_error_incoming = ConnectionErrorIncoming connection_error_incoming | StreamTerminated u64 | Unknown unknown_error

definition convert_connection_error :: "conn_error \<Rightarrow> connection_error_incoming" where
  "convert_connection_error e =
     (case e of ApplicationClosed code \<Rightarrow> ApplicationClose code | TimedOut \<Rightarrow> Timeout | _ \<Rightarrow> Undefined e)"

text \<open>\<^const>\<open>None\<close> is the panic on an unordered read.\<close>

definition convert_read_error_to_stream_error :: "read_error \<Rightarrow> stream_error_incoming option" where
  "convert_read_error_to_stream_error e =
     (case e of
        ReadReset code \<Rightarrow> Some (StreamTerminated code)
      | ReadLost c \<Rightarrow> Some (ConnectionErrorIncoming (convert_connection_error c))
      | IllegalOrderedRead \<Rightarrow> None
      | _ \<Rightarrow> Some (Unknown (UnknownRead e)))"

definition convert_write_error_to_stream_error :: "write_error \<Rightarrow> stream_error_incoming" where
  "convert_write_error_to_stream_error e =
     (case e of
        Stopped code \<Rightarrow> StreamTerminated code
      | WriteLost c \<Rightarrow> ConnectionErrorIncoming (convert_connection_error c)
      | _ \<Rightarrow> Unknown (UnknownWrite e))"

datatype 'a poll = Pending | Ready 'a | Panic

text \<open>A variable-length integer of QUIC has 62 bits.\<close>

definition varint_from_u64 :: "u64 \<Rightarrow> u64 option" where
  "varint_from_u64 x = (if x < 2 ^ 62 then Some x else None)"

section \<open>SendStream\<close>

text \<open>\<open>ss_stream\<close> are the bytes that \<^verbatim>\<open>quinn\<close> has accepted, \<open>ss_resets\<close> the codes it was reset with.  The future of
  \<^verbatim>\<open>stopped\<close> is absent, pending (\<^term>\<open>Some False\<close>) or completed (\<^term>\<open>Some True\<close>); polling a completed one panics.\<close>

record send_stream =
  ss_stream :: bytes
  ss_writing :: "bytes option"
  ss_stopped :: "bool option"
  ss_resets :: "u64 list"

definition send_new :: send_stream where
  "send_new = \<lparr>ss_stream = [], ss_writing = None, ss_stopped = None, ss_resets = []\<rparr>"

text \<open>An answer of \<^verbatim>\<open>poll_write\<close>.  The slice \<^verbatim>\<open>data.chunk()\<close> it is given is a prefix of the remaining data and it takes a
  prefix of that, so the number \<open>n\<close> counts from the start of the remaining data.\<close>

datatype write_answer = WPending | WErr write_error | Wrote nat

text \<open>The loop of \<^verbatim>\<open>poll_ready\<close>: the result, the data that remain, and what the stream has accepted.  The answers of one
  poll end with the first that is pending.\<close>

fun write_all :: "write_answer list \<Rightarrow> bytes \<Rightarrow> bytes \<Rightarrow> (stream_error_incoming + unit) poll \<times> bytes \<times> bytes" where
  "write_all as [] out = (Ready (Inr ()), [], out)"
| "write_all [] data out = (Pending, data, out)"
| "write_all (WPending # as) data out = (Pending, data, out)"
| "write_all (WErr e # as) data out = (Ready (Inl (convert_write_error_to_stream_error e)), data, out)"
| "write_all (Wrote n # as) data out = write_all as (drop n data) (out @ take n data)"

definition poll_ready :: "write_answer list \<Rightarrow> send_stream \<Rightarrow> (stream_error_incoming + unit) poll \<times> send_stream" where
  "poll_ready as st =
     (case ss_writing st of
        None \<Rightarrow> (Ready (Inr ()), st)
      | Some data \<Rightarrow>
          (case write_all as data (ss_stream st) of
             (Ready (Inr u), _, out) \<Rightarrow> (Ready (Inr u), st\<lparr>ss_stream := out, ss_writing := None\<rparr>)
           | (r, rest, out) \<Rightarrow> (r, st\<lparr>ss_stream := out, ss_writing := Some rest\<rparr>)))"

text \<open>\<open>fin\<close> is whether \<^verbatim>\<open>finish\<close> succeeds, \<open>ans\<close> the answer of polling the future of \<^verbatim>\<open>stopped\<close>.\<close>

definition poll_finish :: "bool \<Rightarrow> (stopped_error + u64 option) option \<Rightarrow> send_stream \<Rightarrow> (stream_error_incoming + unit) poll \<times> send_stream" where
  "poll_finish fin ans st =
     (if ss_stopped st = Some True then (Panic, st)
      else (case ans of
              None \<Rightarrow> (Pending, st\<lparr>ss_stopped := Some False\<rparr>)
            | Some (Inl e) \<Rightarrow> (Ready (Inl (Unknown (UnknownStopped e))), st\<lparr>ss_stopped := Some True\<rparr>)
            | Some (Inr code) \<Rightarrow>
                (Ready (if fin then Inr () else Inl (Unknown ClosedStream)), st\<lparr>ss_stopped := None\<rparr>)))"

definition send_reset :: "u64 \<Rightarrow> send_stream \<Rightarrow> send_stream" where
  "send_reset code st = st\<lparr>ss_resets := ss_resets st @ [case varint_from_u64 code of Some c \<Rightarrow> c | None \<Rightarrow> 2 ^ 62 - 1]\<rparr>"

definition send_data :: "bytes \<Rightarrow> send_stream \<Rightarrow> (stream_error_incoming + unit) \<times> send_stream" where
  "send_data data st =
     (if ss_writing st \<noteq> None
      then (Inl (ConnectionErrorIncoming (InternalError ''internal error in the http stack'')), st)
      else (Inr (), st\<lparr>ss_writing := Some data\<rparr>))"

text \<open>\<^verbatim>\<open>poll_send\<close> writes from a buffer of the caller, and returns the number of bytes by which it advanced that.\<close>

definition poll_send :: "bytes \<Rightarrow> write_answer \<Rightarrow> send_stream \<Rightarrow> (stream_error_incoming + nat) poll \<times> send_stream" where
  "poll_send buf ans st =
     (if ss_writing st \<noteq> None then (Panic, st)
      else (case ans of
              WPending \<Rightarrow> (Pending, st)
            | WErr e \<Rightarrow> (Ready (Inl (convert_write_error_to_stream_error e)), st)
            | Wrote n \<Rightarrow> (Ready (Inr (min n (length buf))), st\<lparr>ss_stream := ss_stream st @ take n buf\<rparr>)))"

section \<open>RecvStream\<close>

text \<open>The stream is in its field, or was moved into the future that reads a chunk.\<close>

record recv_stream = rs_present :: bool

definition recv_new :: recv_stream where
  "recv_new = \<lparr>rs_present = True\<rparr>"

definition poll_data :: "(read_error + bytes option) option \<Rightarrow> recv_stream \<Rightarrow> (stream_error_incoming + bytes option) poll \<times> recv_stream" where
  "poll_data ans st =
     (case ans of
        None \<Rightarrow> (Pending, st\<lparr>rs_present := False\<rparr>)
      | Some r \<Rightarrow>
          ((case r of
              Inr chunk \<Rightarrow> Ready (Inr chunk)
            | Inl e \<Rightarrow> (case convert_read_error_to_stream_error e of None \<Rightarrow> Panic | Some e \<Rightarrow> Ready (Inl e))),
           st\<lparr>rs_present := True\<rparr>))"

text \<open>The code a peer is asked to stop with; \<^const>\<open>None\<close> is a panic.\<close>

definition stop_sending :: "u64 \<Rightarrow> recv_stream \<Rightarrow> u64 option" where
  "stop_sending code st = (if rs_present st then varint_from_u64 code else None)"

definition recv_id :: "u64 \<Rightarrow> recv_stream \<Rightarrow> u64 option" where
  "recv_id stream_id st = (if rs_present st then varint_from_u64 stream_id else None)"

section \<open>BidiStream\<close>

record bidi_stream =
  bs_send :: send_stream
  bs_recv :: recv_stream

definition bidi_split :: "bidi_stream \<Rightarrow> send_stream \<times> recv_stream" where
  "bidi_split b = (bs_send b, bs_recv b)"

definition bidi_poll_data :: "(read_error + bytes option) option \<Rightarrow> bidi_stream \<Rightarrow> (stream_error_incoming + bytes option) poll \<times> bidi_stream" where
  "bidi_poll_data ans b = (case poll_data ans (bs_recv b) of (r, s) \<Rightarrow> (r, b\<lparr>bs_recv := s\<rparr>))"

definition bidi_poll_ready :: "write_answer list \<Rightarrow> bidi_stream \<Rightarrow> (stream_error_incoming + unit) poll \<times> bidi_stream" where
  "bidi_poll_ready as b = (case poll_ready as (bs_send b) of (r, s) \<Rightarrow> (r, b\<lparr>bs_send := s\<rparr>))"

definition bidi_poll_finish :: "bool \<Rightarrow> (stopped_error + u64 option) option \<Rightarrow> bidi_stream \<Rightarrow> (stream_error_incoming + unit) poll \<times> bidi_stream" where
  "bidi_poll_finish fin ans b = (case poll_finish fin ans (bs_send b) of (r, s) \<Rightarrow> (r, b\<lparr>bs_send := s\<rparr>))"

definition bidi_send_data :: "bytes \<Rightarrow> bidi_stream \<Rightarrow> (stream_error_incoming + unit) \<times> bidi_stream" where
  "bidi_send_data data b = (case send_data data (bs_send b) of (r, s) \<Rightarrow> (r, b\<lparr>bs_send := s\<rparr>))"

section \<open>Connection and OpenStreams\<close>

text \<open>The opening streams are created on first use.  A \<^verbatim>\<open>Connection\<close> has the fields of an \<^verbatim>\<open>OpenStreams\<close>, and its streams
  of incoming streams never end.\<close>

record open_streams =
  os_opening_bi :: bool
  os_opening_uni :: bool

definition opener :: "open_streams \<Rightarrow> open_streams" where
  "opener c = \<lparr>os_opening_bi = False, os_opening_uni = False\<rparr>"

definition poll_accept_bidi :: "(conn_error + unit) option \<Rightarrow> (connection_error_incoming + bidi_stream) poll" where
  "poll_accept_bidi ans =
     (case ans of
        None \<Rightarrow> Pending
      | Some (Inl e) \<Rightarrow> Ready (Inl (convert_connection_error e))
      | Some (Inr _) \<Rightarrow> Ready (Inr \<lparr>bs_send = send_new, bs_recv = recv_new\<rparr>))"

definition poll_accept_recv :: "(conn_error + unit) option \<Rightarrow> (connection_error_incoming + recv_stream) poll" where
  "poll_accept_recv ans =
     (case ans of
        None \<Rightarrow> Pending
      | Some (Inl e) \<Rightarrow> Ready (Inl (convert_connection_error e))
      | Some (Inr _) \<Rightarrow> Ready (Inr recv_new))"

definition poll_open_bidi :: "(conn_error + unit) option \<Rightarrow> open_streams \<Rightarrow> (stream_error_incoming + bidi_stream) poll \<times> open_streams" where
  "poll_open_bidi ans c =
     (case ans of
        None \<Rightarrow> Pending
      | Some (Inl e) \<Rightarrow> Ready (Inl (ConnectionErrorIncoming (convert_connection_error e)))
      | Some (Inr _) \<Rightarrow> Ready (Inr \<lparr>bs_send = send_new, bs_recv = recv_new\<rparr>),
      c\<lparr>os_opening_bi := True\<rparr>)"

definition poll_open_send :: "(conn_error + unit) option \<Rightarrow> open_streams \<Rightarrow> (stream_error_incoming + send_stream) poll \<times> open_streams" where
  "poll_open_send ans c =
     (case ans of
        None \<Rightarrow> Pending
      | Some (Inl e) \<Rightarrow> Ready (Inl (ConnectionErrorIncoming (convert_connection_error e)))
      | Some (Inr _) \<Rightarrow> Ready (Inr send_new),
      c\<lparr>os_opening_uni := True\<rparr>)"

text \<open>The code a connection is closed with; \<^const>\<open>None\<close> is a panic.\<close>

definition conn_close :: "u64 \<Rightarrow> u64 option" where
  "conn_close code = varint_from_u64 code"

section \<open>Properties\<close>

datatype send_event =
  SendData bytes | PollReady "write_answer list" | PollSend bytes write_answer
| PollFinish bool "(stopped_error + u64 option) option" | ResetStream u64

definition send_step :: "send_event \<Rightarrow> send_stream \<Rightarrow> send_stream" where
  "send_step e st =
     (case e of
        SendData d \<Rightarrow> snd (send_data d st)
      | PollReady as \<Rightarrow> snd (poll_ready as st)
      | PollSend buf a \<Rightarrow> snd (poll_send buf a st)
      | PollFinish fin a \<Rightarrow> snd (poll_finish fin a st)
      | ResetStream code \<Rightarrow> send_reset code st)"

text \<open>What a caller knows to have handed over: the data of a successful \<^verbatim>\<open>send_data\<close>, and as many bytes as
  \<^verbatim>\<open>poll_send\<close> reports.\<close>

definition accepted_bytes :: "send_event \<Rightarrow> send_stream \<Rightarrow> bytes" where
  "accepted_bytes e st =
     (case e of
        SendData d \<Rightarrow> (case fst (send_data d st) of Inr _ \<Rightarrow> d | Inl _ \<Rightarrow> [])
      | PollSend buf a \<Rightarrow> (case fst (poll_send buf a st) of Ready (Inr n) \<Rightarrow> take n buf | _ \<Rightarrow> [])
      | _ \<Rightarrow> [])"

fun handed :: "send_event list \<Rightarrow> send_stream \<Rightarrow> bytes" where
  "handed [] st = []"
| "handed (e # es) st = accepted_bytes e st @ handed es (send_step e st)"

definition queued :: "send_stream \<Rightarrow> bytes" where
  "queued st = ss_stream st @ (case ss_writing st of Some d \<Rightarrow> d | None \<Rightarrow> [])"

lemma write_all_conserves:
  "write_all as data out = (r, rest, out') \<Longrightarrow> out' @ rest = out @ data \<and> (r = Ready (Inr ()) \<longrightarrow> rest = [])"
  by (induction as data out rule: write_all.induct) auto

lemma poll_ready_conserves:
  "poll_ready as st = (r, st') \<Longrightarrow> queued st' = queued st \<and> (r = Ready (Inr ()) \<longrightarrow> ss_writing st' = None)"
  by (auto simp: poll_ready_def queued_def split: option.splits prod.splits poll.splits sum.splits dest: write_all_conserves)

lemma send_step_queues: "queued (send_step e st) = queued st @ accepted_bytes e st"
proof (cases e)
  case (PollReady as)
  obtain r st' where r: "poll_ready as st = (r, st')" by fastforce
  from poll_ready_conserves [OF r] PollReady r show ?thesis by (simp add: send_step_def accepted_bytes_def)
next
  case (PollSend buf a)
  then show ?thesis
    by (cases a) (auto simp: send_step_def accepted_bytes_def poll_send_def queued_def min_def)
qed (auto simp: send_step_def accepted_bytes_def send_data_def poll_finish_def send_reset_def queued_def split: option.split sum.split)

lemma send_run_queues: "queued (fold send_step es st) = queued st @ handed es st"
  by (induction es arbitrary: st) (simp_all add: send_step_queues)

text \<open>
  C40.  A send stream loses, repeats and reorders nothing: whatever calls were made before, with whatever
  partial writes and errors, when the stream is ready the peer's side was given exactly the bytes that were handed over, in
  their order.
\<close>

theorem h3_send_in_order:
  assumes "poll_ready as (fold send_step es send_new) = (Ready (Inr ()), st)"
  shows "ss_stream st = handed es send_new"
proof -
  from poll_ready_conserves [OF assms] have "queued st = queued (fold send_step es send_new)" "ss_writing st = None" by auto
  then show ?thesis by (simp add: send_run_queues) (simp add: queued_def send_new_def)
qed

theorem h3_send_in_order_witness:
  "ss_stream (snd (poll_ready [Wrote 1] (fold send_step [SendData [1, 2, 3], PollReady [Wrote 2, WPending], SendData [9]] send_new))) = [1, 2, 3]"
proof -
  let ?es = "[SendData [1, 2, 3], PollReady [Wrote 2, WPending], SendData [9]]"
  note d = send_step_def send_data_def poll_ready_def send_new_def accepted_bytes_def
  have "poll_ready [Wrote 1] (fold send_step ?es send_new) =
      (Ready (Inr ()), snd (poll_ready [Wrote 1] (fold send_step ?es send_new)))" by (simp add: d)
  from h3_send_in_order [OF this] show ?thesis by (simp add: d)
qed

text \<open>A stream becomes ready when its writes make progress: one answer for each byte is enough.\<close>

lemma write_all_ready:
  assumes "\<forall>a \<in> set as. \<exists>n. a = Wrote (Suc n)" "length data \<le> length as"
  shows "write_all as data out = (Ready (Inr ()), [], out @ data)"
  using assms by (induction as data out rule: write_all.induct) auto

theorem h3_send_becomes_ready:
  assumes "\<forall>a \<in> set as. \<exists>n. a = Wrote (Suc n)" "ss_writing st = Some data" "length data \<le> length as"
  shows "poll_ready as st = (Ready (Inr ()), st\<lparr>ss_stream := ss_stream st @ data, ss_writing := None\<rparr>)"
  using assms by (simp add: poll_ready_def write_all_ready)

subsection \<open>Finishing\<close>

text \<open>\<^verbatim>\<open>finish().await\<close>: poll until the answer is ready.  An element is the answer of \<^verbatim>\<open>finish\<close> with that of the
  future.\<close>

fun await_finish :: "(bool \<times> (stopped_error + u64 option) option) list \<Rightarrow> send_stream \<Rightarrow> (stream_error_incoming + unit) poll" where
  "await_finish [] st = Pending"
| "await_finish ((fin, ans) # rest) st =
     (case poll_finish fin ans st of (Pending, st) \<Rightarrow> await_finish rest st | (r, st) \<Rightarrow> r)"

text \<open>\<^verbatim>\<open>finish\<close> of \<^verbatim>\<open>quinn\<close> succeeds once: it fails when it was called before.\<close>

definition finish_once :: "(bool \<times> 'a) list \<Rightarrow> bool" where
  "finish_once calls \<longleftrightarrow> (\<forall>i < length calls. fst (calls ! i) = (i = 0))"

lemma await_finish_waits:
  "ss_stopped st \<noteq> Some True \<Longrightarrow> \<forall>c \<in> set waits. snd c = None \<Longrightarrow>
   await_finish (waits @ [(fin, Some (Inr code))]) st = Ready (if fin then Inr () else Inl (Unknown ClosedStream))"
  by (induction waits arbitrary: st) (auto simp: poll_finish_def)

text \<open>
  The end of a stream is reported as an error whenever the peer's acknowledgement has to be waited for: each poll
  calls \<^verbatim>\<open>finish\<close> again, and only the result of the last call counts.
\<close>

theorem h3_finish_fails_after_wait:
  assumes "finish_once (waits @ [(fin, Some (Inr code))])" "\<forall>c \<in> set waits. snd c = None" "ss_stopped st = None"
  shows "await_finish (waits @ [(fin, Some (Inr code))]) st = Ready (if waits = [] then Inr () else Inl (Unknown ClosedStream))"
proof -
  from assms(1) have "fin = (waits = [])" by (auto simp: finish_once_def nth_append dest: spec [of _ "length waits"])
  with await_finish_waits [of st waits fin code] assms(2,3) show ?thesis by simp
qed

theorem h3_finish_fails_after_wait_witness:
  "await_finish [(True, None), (False, Some (Inr None))] send_new = Ready (Inl (Unknown ClosedStream))"
proof -
  have "finish_once ([(True, None)] @ [(False, Some (Inr None :: stopped_error + u64 option))])"
    by (auto simp: finish_once_def less_Suc_eq)
  from h3_finish_fails_after_wait [OF this, of send_new] show ?thesis by (simp add: send_new_def)
qed

text \<open>While a read is pending the stream cannot be stopped or asked for its identity: both panic.\<close>

theorem h3_pending_read_blocks_stop:
  "stop_sending code (snd (poll_data None st)) = None \<and> recv_id i (snd (poll_data None st)) = None"
  by (simp add: poll_data_def stop_sending_def recv_id_def)

end
