(* ===== verification/H3Loop.thy ===== *)
theory H3Loop
  imports Server
begin

text \<open>
  \<^verbatim>\<open>src/server/mod.rs\<close>, \<^verbatim>\<open>accept_loop_h3\<close>: connections are accepted without a check, the requests on all of them pass
  one flood control, and a blocked one makes its connection announce its end.  After a shutdown the connections take no more
  requests, and a connection ends when its requests have.
\<close>

section \<open>The loop and its connections\<close>

text \<open>A connection: the address it came from, whether it still takes requests, how many are running, and the values it sent in
  \<^verbatim>\<open>GOAWAY\<close> frames.\<close>

record h3_conn =
  hc_addr :: ip_addr
  hc_open :: bool
  hc_running :: nat
  hc_goaway :: "nat list"

record h3_loop =
  hl_flood :: "flood_control option"
  hl_stopped :: bool
  hl_conns :: "h3_conn list"
  hl_served :: "(ip_addr \<times> nat \<times> nat) list"

definition h3_start :: "nat option \<Rightarrow> h3_loop" where
  "h3_start flood = \<lparr>hl_flood = map_option flood_new flood, hl_stopped = False, hl_conns = [], hl_served = []\<rparr>"

text \<open>A new connection whose handshakes succeeded; the address is unmapped first.\<close>

definition h3_accept :: "ip_addr \<Rightarrow> h3_loop \<Rightarrow> h3_loop" where
  "h3_accept addr st =
     (if hl_stopped st then st
      else st\<lparr>hl_conns := hl_conns st @ [\<lparr>hc_addr = to_canonical addr, hc_open = True, hc_running = 0, hc_goaway = []\<rparr>]\<rparr>)"

definition set_conn :: "nat \<Rightarrow> (h3_conn \<Rightarrow> h3_conn) \<Rightarrow> h3_loop \<Rightarrow> h3_loop" where
  "set_conn i f st = st\<lparr>hl_conns := (hl_conns st)[i := f (hl_conns st ! i)]\<rparr>"

text \<open>A request: a task runs in either case, a blocked one only resets the stream.\<close>

definition h3_take :: "nat \<Rightarrow> nat \<Rightarrow> nat \<Rightarrow> h3_loop \<Rightarrow> h3_loop" where
  "h3_take i now later st =
     (if i < length (hl_conns st) \<and> hc_open (hl_conns st ! i)
      then (case h3_request now later (hc_addr (hl_conns st ! i)) (hl_flood st) of
              (code, flood) \<Rightarrow>
                let st = set_conn i (\<lambda>c. c\<lparr>hc_running := hc_running c + 1, hc_goaway := hc_goaway c @ (if code = None then [] else [0])\<rparr>)
                      (st\<lparr>hl_flood := flood\<rparr>)
                in if code = None then st\<lparr>hl_served := hl_served st @ [(hc_addr (hl_conns st ! i), now, later)]\<rparr> else st)
      else st)"

text \<open>The end of a request, of a connection whose peer closed it, and the two steps of a shutdown: the loop stops, and a
  connection sees it.\<close>

datatype h3_event = H3Accept ip_addr | H3Request nat nat nat | H3Done nat | H3Closed nat | H3Stop | H3Notice nat

definition h3_step :: "h3_event \<Rightarrow> h3_loop \<Rightarrow> h3_loop" where
  "h3_step e st =
     (case e of
        H3Accept addr \<Rightarrow> h3_accept addr st
      | H3Request i now later \<Rightarrow> h3_take i now later st
      | H3Done i \<Rightarrow> if i < length (hl_conns st) then set_conn i (\<lambda>c. c\<lparr>hc_running := hc_running c - 1\<rparr>) st else st
      | H3Closed i \<Rightarrow> if i < length (hl_conns st) then set_conn i (\<lambda>c. c\<lparr>hc_open := False\<rparr>) st else st
      | H3Stop \<Rightarrow> st\<lparr>hl_stopped := True\<rparr>
      | H3Notice i \<Rightarrow>
          if i < length (hl_conns st) \<and> hl_stopped st \<and> hc_open (hl_conns st ! i)
          then set_conn i (\<lambda>c. c\<lparr>hc_open := False, hc_goaway := hc_goaway c @ [1]\<rparr>) st else st)"

section \<open>Properties\<close>

text \<open>The requests that reach the flood control, in their order.\<close>

definition taken :: "h3_event \<Rightarrow> h3_loop \<Rightarrow> (ip_addr \<times> nat \<times> nat) list" where
  "taken e st =
     (case e of
        H3Request i now later \<Rightarrow>
          if i < length (hl_conns st) \<and> hc_open (hl_conns st ! i) then [(hc_addr (hl_conns st ! i), now, later)] else []
      | _ \<Rightarrow> [])"

fun requests_of :: "h3_event list \<Rightarrow> h3_loop \<Rightarrow> (ip_addr \<times> nat \<times> nat) list" where
  "requests_of [] st = []"
| "requests_of (e # es) st = taken e st @ requests_of es (h3_step e st)"

lemma to_canonical_idem [simp]: "to_canonical (to_canonical a) = to_canonical a"
  by (auto simp: to_canonical_def split: ip_addr.split)

definition canonical_conns :: "h3_loop \<Rightarrow> bool" where
  "canonical_conns st \<longleftrightarrow> (\<forall>c \<in> set (hl_conns st). to_canonical (hc_addr c) = hc_addr c)"

lemma canonical_set_conn:
  "canonical_conns st \<Longrightarrow> i < length (hl_conns st) \<Longrightarrow> (\<And>c. hc_addr (f c) = hc_addr c) \<Longrightarrow> canonical_conns (set_conn i f st)"
  using set_update_subset_insert [of "hl_conns st" i "f (hl_conns st ! i)"] nth_mem [of i "hl_conns st"]
  by (fastforce simp: canonical_conns_def set_conn_def)

lemma set_conn_frame [simp]:
  "hl_flood (set_conn i f st) = hl_flood st" "hl_served (set_conn i f st) = hl_served st" "hl_stopped (set_conn i f st) = hl_stopped st"
  by (simp_all add: set_conn_def)

lemma canonical_step: "canonical_conns st \<Longrightarrow> canonical_conns (h3_step e st)"
proof (cases e)
  case (H3Request i now later)
  assume c: "canonical_conns st"
  have "canonical_conns (s\<lparr>hl_served := x\<rparr>) = canonical_conns s" "canonical_conns (s\<lparr>hl_flood := y\<rparr>) = canonical_conns s" for s x y
    by (simp_all add: canonical_conns_def)
  with c H3Request show ?thesis
    by (auto simp: h3_step_def h3_take_def Let_def split: prod.split intro!: canonical_set_conn)
next
  case (H3Accept addr)
  moreover assume "canonical_conns st"
  ultimately show ?thesis by (auto simp: h3_step_def h3_accept_def canonical_conns_def)
next
  case H3Stop
  moreover assume "canonical_conns st"
  ultimately show ?thesis by (simp add: h3_step_def canonical_conns_def)
qed (auto simp: h3_step_def intro!: canonical_set_conn)

lemma h3_step_quiet:
  "\<forall>i now later. e \<noteq> H3Request i now later \<Longrightarrow> hl_flood (h3_step e st) = hl_flood st \<and> hl_served (h3_step e st) = hl_served st"
  by (cases e) (auto simp: h3_step_def h3_accept_def)

lemma h3_served_flood:
  "hl_flood st = Some fc \<Longrightarrow> canonical_conns st \<Longrightarrow>
   hl_served (fold h3_step es st) =
     hl_served st @ map fst (filter (\<lambda>p. \<not> snd p) (zip (requests_of es st) (fst (flood_run (requests_of es st) fc))))"
proof (induction es arbitrary: st fc)
  case (Cons e es)
  note c = canonical_step [OF Cons.prems(2), of e]
  show ?case
  proof (cases "taken e st")
    case Nil
    then have "hl_flood (h3_step e st) = Some fc" "hl_served (h3_step e st) = hl_served st"
      using h3_step_quiet [of e st] Cons.prems(1)
      by (cases e; auto simp: taken_def h3_step_def h3_take_def split: if_splits)+
    with Cons.IH [OF this(1) c] Nil show ?thesis by simp
  next
    case (Cons r rs)
    then obtain i now later where e: "e = H3Request i now later" "i < length (hl_conns st)" "hc_open (hl_conns st ! i)"
      and r: "r = (hc_addr (hl_conns st ! i), now, later)" "rs = []"
      by (auto simp: taken_def split: h3_event.splits if_splits)
    let ?a = "hc_addr (hl_conns st ! i)"
    obtain b fc' where hit: "flood_hit now later ?a fc = (b, fc')" by fastforce
    have "to_canonical ?a = ?a" using Cons.prems(2) e(2) by (simp add: canonical_conns_def)
    then have "h3_request now later ?a (Some fc) = (if b then Some H3_EXCESSIVE_LOAD else None, Some fc')"
      by (simp add: h3_request_def hit)
    then have st: "hl_flood (h3_step e st) = Some fc'" "hl_served (h3_step e st) = hl_served st @ (if b then [] else [r])"
      using Cons.prems(1) e r(1) by (auto simp: h3_step_def h3_take_def Let_def set_conn_def nth_list_update)
    from Cons.IH [OF st(1) c] st(2) Cons r hit show ?thesis by (simp add: split_beta Let_def)
  qed
qed simp


text \<open>Requests change neither the addresses of the connections nor whether they are open.\<close>

lemma h3_take_conns:
  "length (hl_conns (h3_take i now later st)) = length (hl_conns st)"
  "j < length (hl_conns st) \<Longrightarrow> hc_addr (hl_conns (h3_take i now later st) ! j) = hc_addr (hl_conns st ! j)"
  "j < length (hl_conns st) \<Longrightarrow> hc_open (hl_conns (h3_take i now later st) ! j) = hc_open (hl_conns st ! j)"
  by (auto simp: h3_take_def set_conn_def Let_def nth_list_update split: prod.split)

lemma requests_of_requests:
  "\<forall>(i, now, later) \<in> set rs. i < length (hl_conns st) \<and> hc_open (hl_conns st ! i) \<Longrightarrow>
   requests_of (map (\<lambda>(i, now, later). H3Request i now later) rs) st = map (\<lambda>(i, now, later). (hc_addr (hl_conns st ! i), now, later)) rs"
proof (induction rs arbitrary: st)
  case (Cons r rs)
  obtain i now later where r: "r = (i, now, later)" by (metis surj_pair)
  have "\<forall>(j, _, _) \<in> set rs. j < length (hl_conns (h3_take i now later st)) \<and> hc_open (hl_conns (h3_take i now later st) ! j)"
    using Cons.prems by (auto simp: h3_take_conns)
  from Cons.IH [OF this] Cons.prems show ?case by (auto simp: r taken_def h3_step_def h3_take_conns)
qed simp


end
