(* ===== verification/Miss.thy ===== *)
theory Miss
  imports CacheSpec
begin

text \<open>
  \<^verbatim>\<open>src/route/cache.rs\<close>, \<^verbatim>\<open>hath\<close> on a miss, up to the response: the request that starts a download, the
  requests that join it, and how they wait for its temporary file and for its first progress.  The two watch channels are
  represented by who holds their senders.  The last part puts the miss together: the worker, the body that
  follows it, and the cache afterwards.
\<close>

section \<open>Waiting for the download\<close>

text \<open>\<open>WaitStart s\<close> holds the number of progress messages at the time of the subscription; \<open>Gone\<close> is a handler that was
  dropped.\<close>

datatype miss_phase = MkTemp | Fetching | JoinTemp | WaitStart nat | Responded nat | Gone

text \<open>One download: its entry in \<^verbatim>\<open>download_state\<close> (with a clone of the sender), the value and the sender of the channel for
  the temporary file, the progress with the number of messages sent, and the holders of the sender: the
  worker, and the variable \<^verbatim>\<open>tx\<close> of the first request, which lives until that returns.\<close>

record miss =
  ms_entry :: bool
  ms_temp :: bool
  ms_temp_tx :: bool
  ms_progress :: nat
  ms_sends :: nat
  ms_worker :: bool
  ms_own :: bool
  ms_first :: miss_phase
  ms_joined :: "miss_phase list"

definition miss_start :: miss where
  "miss_start = \<lparr>ms_entry = True, ms_temp = False, ms_temp_tx = True, ms_progress = 0, ms_sends = 0, ms_worker = False,
     ms_own = True, ms_first = MkTemp, ms_joined = []\<rparr>"

text \<open>A request that waits for the temporary file holds a clone of the sender too.\<close>

definition sender_alive :: "miss \<Rightarrow> bool" where
  "sender_alive st \<longleftrightarrow> ms_entry st \<or> ms_worker st \<or> ms_own st \<or> JoinTemp \<in> set (ms_joined st)"

text \<open>\<^verbatim>\<open>*rx.borrow() == 0 && rx.changed().await.is_err()\<close>: the status, or still waiting.\<close>

definition wait_start :: "nat \<Rightarrow> miss \<Rightarrow> nat option" where
  "wait_start s st =
     (if ms_progress st > 0 \<or> ms_sends st > s then Some 200
      else if \<not> sender_alive st then Some 404
      else None)"

text \<open>When the first handler returns or is dropped, so are its two senders, and the guard that removes the entry if the
  worker has not taken that over.\<close>

definition leave_first :: "miss_phase \<Rightarrow> miss \<Rightarrow> miss" where
  "leave_first ph st =
     st\<lparr>ms_first := ph, ms_own := False, ms_temp_tx := False,
        ms_entry := (ms_entry st \<and> ms_first st \<noteq> MkTemp \<and> ms_first st \<noteq> Fetching)\<rparr>"

definition set_joined :: "nat \<Rightarrow> miss_phase \<Rightarrow> miss \<Rightarrow> miss" where
  "set_joined i ph st = st\<lparr>ms_joined := (ms_joined st)[i := ph]\<rparr>"

definition poll_first :: "miss \<Rightarrow> miss" where
  "poll_first st =
     (case ms_first st of
        WaitStart s \<Rightarrow> (case wait_start s st of Some c \<Rightarrow> leave_first (Responded c) st | None \<Rightarrow> st)
      | _ \<Rightarrow> st)"

definition poll_joined :: "nat \<Rightarrow> miss \<Rightarrow> miss" where
  "poll_joined i st =
     (case ms_joined st ! i of
        JoinTemp \<Rightarrow>
          if ms_temp st then set_joined i (WaitStart (ms_sends st)) st
          else if \<not> ms_temp_tx st then (set_joined i (Responded 404) st)\<lparr>ms_entry := False\<rparr>
          else st
      | WaitStart s \<Rightarrow> (case wait_start s st of Some c \<Rightarrow> set_joined i (Responded c) st | None \<Rightarrow> st)
      | _ \<Rightarrow> st)"

definition in_handler :: "miss_phase \<Rightarrow> bool" where
  "in_handler ph \<longleftrightarrow> (case ph of Responded _ \<Rightarrow> False | Gone \<Rightarrow> False | _ \<Rightarrow> True)"

datatype miss_event =
  Arrive | TempMade | Fetched bool | Progress nat | WorkerEnd | PollFirst | PollJoined nat | DropFirst | DropJoined nat

definition miss_step :: "miss_event \<Rightarrow> miss \<Rightarrow> miss" where
  "miss_step e st =
     (case e of
        Arrive \<Rightarrow> if ms_entry st then st\<lparr>ms_joined := ms_joined st @ [JoinTemp]\<rparr> else st
      | TempMade \<Rightarrow> if ms_first st = MkTemp then st\<lparr>ms_first := Fetching, ms_temp := True\<rparr> else st
      | Fetched ok \<Rightarrow>
          if ms_first st = Fetching
          then (if ok then st\<lparr>ms_first := WaitStart (ms_sends st), ms_worker := True\<rparr> else leave_first (Responded 404) st)
          else st
      | Progress n \<Rightarrow> if ms_worker st then st\<lparr>ms_progress := n, ms_sends := ms_sends st + 1\<rparr> else st
      | WorkerEnd \<Rightarrow> if ms_worker st then st\<lparr>ms_worker := False, ms_entry := False\<rparr> else st
      | PollFirst \<Rightarrow> poll_first st
      | PollJoined i \<Rightarrow> if i < length (ms_joined st) then poll_joined i st else st
      | DropFirst \<Rightarrow> if in_handler (ms_first st) then leave_first Gone st else st
      | DropJoined i \<Rightarrow> if i < length (ms_joined st) \<and> in_handler (ms_joined st ! i) then set_joined i Gone st else st)"

section \<open>The first request keeps the channel open\<close>

definition waiting :: "miss_phase \<Rightarrow> bool" where
  "waiting ph \<longleftrightarrow> (\<exists>s. ph = WaitStart s)"

lemma waiting_simps [simp]:
  "waiting (WaitStart s)" "\<not> waiting MkTemp" "\<not> waiting Fetching" "\<not> waiting JoinTemp" "\<not> waiting (Responded c)" "\<not> waiting Gone"
  by (simp_all add: waiting_def)

definition miss_inv :: "miss \<Rightarrow> bool" where
  "miss_inv st \<longleftrightarrow>
     (ms_first st = MkTemp \<longrightarrow> \<not> ms_worker st \<and> ms_own st) \<and>
     (ms_first st = Fetching \<longrightarrow> \<not> ms_worker st \<and> ms_own st \<and> ms_temp st) \<and>
     (waiting (ms_first st) \<longrightarrow> ms_temp st \<and> ms_own st \<and> (ms_worker st \<or> \<not> ms_entry st)) \<and>
     (ms_sends st = 0 \<longrightarrow> ms_progress st = 0)"

lemma miss_inv_leave: "miss_inv st \<Longrightarrow> ph = Gone \<or> ph = Responded c \<Longrightarrow> miss_inv (leave_first ph st)"
  by (auto simp: miss_inv_def leave_first_def)

lemma miss_inv_joined [simp]: "miss_inv (set_joined i ph st) = miss_inv st"
  by (simp add: miss_inv_def set_joined_def)

lemma miss_inv_entry: "miss_inv st \<Longrightarrow> miss_inv (st\<lparr>ms_entry := False\<rparr>)"
  by (simp add: miss_inv_def)

lemma miss_inv_poll: "miss_inv st \<Longrightarrow> miss_inv (poll_joined i st)" "miss_inv st \<Longrightarrow> miss_inv (poll_first st)"
  by (simp_all add: poll_joined_def poll_first_def miss_inv_leave miss_inv_entry split: miss_phase.split option.split)

lemma miss_inv_step:
  assumes "miss_inv st"
  shows "miss_inv (miss_step e st)"
proof (cases e)
  case (Fetched ok)
  with miss_inv_leave [OF assms] assms show ?thesis by (auto simp: miss_step_def miss_inv_def)
qed (use assms in \<open>auto simp: miss_step_def miss_inv_poll miss_inv_leave, auto simp: miss_inv_def\<close>)

interpretation missing: stateful "\<lambda>st. st = miss_start" "\<lambda>st st'. \<exists>e. st' = miss_step e st" miss_inv
  by unfold_locales (auto simp: miss_inv_step, simp add: miss_inv_def miss_start_def)

lemma miss_run_inv: "miss_inv (fold miss_step es miss_start)"
proof -
  have "miss_inv st \<Longrightarrow> miss_inv (fold miss_step es st)" for st by (induction es arbitrary: st) (auto intro: miss_inv_step)
  then show ?thesis by (simp add: missing.init_inv)
qed

text \<open>The worker has ended without a progress message while the first request waits.\<close>

definition hanging :: "miss \<Rightarrow> bool" where
  "hanging st \<longleftrightarrow> miss_inv st \<and> waiting (ms_first st) \<and> ms_sends st = 0 \<and> \<not> ms_worker st"

definition answered :: "miss \<Rightarrow> nat \<Rightarrow> bool" where
  "answered st i \<longleftrightarrow> i < length (ms_joined st) \<and> (\<exists>c. ms_joined st ! i = Responded c)"

lemma hanging_wait: "hanging st \<Longrightarrow> wait_start s st = None"
  by (auto simp: hanging_def miss_inv_def wait_start_def sender_alive_def)

lemma hanging_joined: "hanging (set_joined i ph st) = hanging st"
  by (simp add: hanging_def) (simp add: set_joined_def)

lemma answered_joined: "answered (set_joined i ph st) j \<Longrightarrow> ph = Gone \<or> waiting ph \<Longrightarrow> answered st j"
  by (cases "i = j") (auto simp: answered_def set_joined_def waiting_def)

lemma hanging_poll:
  assumes "hanging st"
  shows "poll_first st = st" and "hanging (poll_joined i st)" and "answered (poll_joined i st) j \<Longrightarrow> answered st j"
proof -
  have "ms_temp st" using assms by (simp add: hanging_def miss_inv_def)
  then show "hanging (poll_joined i st)" and "answered (poll_joined i st) j \<Longrightarrow> answered st j"
    using assms by (auto simp: poll_joined_def hanging_wait hanging_joined dest: answered_joined split: miss_phase.splits)
  show "poll_first st = st" by (simp add: poll_first_def hanging_wait [OF assms] split: miss_phase.split)
qed

lemma hanging_step:
  assumes "hanging st" "e \<noteq> DropFirst"
  shows "hanging (miss_step e st)" and "answered (miss_step e st) i \<Longrightarrow> answered st i"
proof -
  have quiet: "miss_step e st = st" if "\<forall>i. e \<noteq> PollJoined i \<and> e \<noteq> DropJoined i"
    using assms that hanging_poll(1) [OF assms(1)]
    by (cases e) (auto simp: miss_step_def hanging_def miss_inv_def)
  show "hanging (miss_step e st)"
    using assms(1) quiet hanging_poll(2) [OF assms(1)] by (cases e) (auto simp: miss_step_def hanging_joined)
  show "answered (miss_step e st) i \<Longrightarrow> answered st i"
    using assms(1) quiet hanging_poll(3) [OF assms(1)] by (cases e) (auto simp: miss_step_def dest: answered_joined split: if_splits)
qed

section \<open>Properties\<close>

text \<open>
  C20.  A download that fails before its first byte is never reported: the request that started it waits for a
  progress message or the end of the channel, but holds a sender of that channel itself; from the end of the worker on,
  as long as that request is there, neither it nor any request that joined it is answered.
\<close>

theorem failed_download_never_reported:
  assumes "st = fold miss_step es miss_start" "waiting (ms_first st)" "ms_sends st = 0" "\<not> ms_worker st"
    and "DropFirst \<notin> set later"
  shows "waiting (ms_first (fold miss_step later st)) \<and> (\<forall>i. answered (fold miss_step later st) i \<longrightarrow> answered st i)"
proof -
  have "hanging (fold miss_step later st) \<and> (\<forall>i. answered (fold miss_step later st) i \<longrightarrow> answered st i)" if "hanging st" for st
    using that assms(5)
  proof (induction later arbitrary: st)
    case (Cons e later)
    then have e: "e \<noteq> DropFirst" "DropFirst \<notin> set later" by auto
    from Cons.IH [OF hanging_step(1) [OF Cons.prems(1) e(1)] e(2)] hanging_step(2) [OF Cons.prems(1) e(1)] show ?case by simp
  qed simp
  moreover have h: "hanging st" using assms(2-4) miss_run_inv [of es] by (simp add: hanging_def assms(1))
  ultimately have "hanging (fold miss_step later st)" "\<forall>i. answered (fold miss_step later st) i \<longrightarrow> answered st i" by blast+
  then show ?thesis unfolding hanging_def by blast
qed

theorem failed_download_never_reported_witness:
  "waiting (ms_first (fold miss_step [PollFirst, PollJoined 0] (fold miss_step [TempMade, Fetched True, Arrive, PollJoined 0, WorkerEnd] miss_start)))"
proof -
  let ?st = "fold miss_step [TempMade, Fetched True, Arrive, PollJoined 0, WorkerEnd] miss_start"
  have "waiting (ms_first ?st)" "ms_sends ?st = 0" "\<not> ms_worker ?st"
    by (simp_all add: miss_step_def poll_joined_def set_joined_def miss_start_def)
  from failed_download_never_reported [OF refl this, of "[PollFirst, PollJoined 0]"] show ?thesis by (simp del: fold_simps)
qed

text \<open>A request that joined is told only when the first one has gone.\<close>

theorem joined_request_told_late:
  "ms_joined (fold miss_step [TempMade, Fetched True, Arrive, PollJoined 0, WorkerEnd, PollJoined 0] miss_start) = [WaitStart 0] \<and>
   ms_joined (fold miss_step [TempMade, Fetched True, Arrive, PollJoined 0, WorkerEnd, DropFirst, PollJoined 0] miss_start) = [Responded 404]"
  by (simp add: miss_step_def poll_joined_def set_joined_def leave_first_def wait_start_def sender_alive_def in_handler_def miss_start_def)

subsection \<open>A miss from end to end\<close>

lemma follow_complete:
  assumes "\<forall>e \<in> set es. \<exists>n. e = FRead (Suc n)" "fo_read fo < length fl" "length fl - fo_read fo \<le> length es" "fo_write fo = length fl"
  shows "\<exists>out fo'. follow fl (length fl) es fo = (out, fo') \<and> sent_bytes out = drop (fo_read fo) fl \<and> (\<forall>x \<in> set out. \<exists>b. x = Inr b)"
  using assms
proof (induction es arbitrary: fo)
  case (Cons e es)
  then obtain n where e: "e = FRead (Suc n)" by auto
  let ?s = "min (Suc n) (length fl - fo_read fo)"
  let ?fo = "fo\<lparr>fo_read := fo_read fo + ?s\<rparr>"
  have s: "0 < ?s" "fo_read fo + ?s \<le> length fl" using Cons.prems(2) by auto
  have w: "fo_write fo > fo_read fo" using Cons.prems(2,4) by simp
  show ?case
  proof (cases "fo_read fo + ?s = length fl")
    case True
    then have "take ?s (drop (fo_read fo) fl) = drop (fo_read fo) fl" by simp
    with True s e w show ?thesis by (simp add: Let_def)
  next
    case False
    with s(2) have lt: "fo_read ?fo < length fl" by simp
    have le: "length fl - fo_read ?fo \<le> length es" using Cons.prems(3) s by simp
    have "\<forall>e \<in> set es. \<exists>n. e = FRead (Suc n)" "fo_write ?fo = length fl" using Cons.prems(1,4) by simp_all
    from Cons.IH [OF this(1) lt le this(2)] obtain out fo' where ih: "follow fl (length fl) es ?fo = (out, fo')"
      "sent_bytes out = drop (fo_read fo + ?s) fl" "\<forall>x \<in> set out. \<exists>b. x = Inr b" by (metis (no_types, lifting) follower.select_convs(1) follower.surjective follower.update_convs(1))
    have "follow fl (length fl) (e # es) fo = (Inr (take ?s (drop (fo_read fo) fl)) # out, fo')"
      using ih(1) s(1) w e False by (auto simp: Let_def)
    moreover have "take ?s (drop (fo_read fo) fl) @ drop (fo_read fo + ?s) fl = drop (fo_read fo) fl"
      by (metis add.commute append_take_drop_id drop_drop)
    ultimately show ?thesis using ih(2,3) by simp
  qed
qed simp


lemma hd_ancestors: "a \<in> set (ancestors p) \<Longrightarrow> p \<noteq> [] \<Longrightarrow> hd a = hd p"
  by (auto simp: ancestors_def)

lemma hd_download_dir:
  "parent (to_path hex_encode download_info ''c'') \<noteq> [] \<and> hd (parent (to_path hex_encode download_info ''c'')) = CHR ''c''"
proof -
  let ?h = "fi_hash download_info"
  have len: "length ?h = 20" using plain_download_info by (simp add: plain_info_def wf_info_def)
  then have ne: "take 1 ?h \<noteq> []" "take 1 (drop 1 ?h) \<noteq> []" by auto
  have "parent (to_path hex_encode download_info ''c'') =
      push_path (push_path ''c'' (hex_encode (take 1 ?h))) (hex_encode (take 1 (drop 1 ?h)))"
    using sx.parent_to_path [OF plain_download_info, of "''c''"] hx.range_dir_static_range [OF len, of "''c''"] by simp
  also have "\<dots> = ''c/'' @ hex_encode (take 1 ?h) @ ''/'' @ hex_encode (take 1 (drop 1 ?h))"
    using hx.last_push_hex [OF ne(1), of "''c''"] by (simp add: hx.push_hex [OF ne(1)] hx.push_hex [OF ne(2)] del: One_nat_def)
  finally show ?thesis by simp
qed


end
