(* ===== verification/Coalesce.thy ===== *)
theory Coalesce
  imports Prelude
begin

text \<open>
  \<^verbatim>\<open>src/route/cache.rs\<close>, requests for a file that is being downloaded: the first one enters the file into
  \<^verbatim>\<open>download_state\<close> and starts the worker, the others find the entry and follow the same temporary
  file.  The worker moves the temporary file into the cache only when nobody is subscribed to its
  progress any more.  The state is that of one file; the steps of the requests and of the worker
  interleave.
\<close>

section \<open>Model\<close>

text \<open>A request that found the entry holds a clone of the sender, subscribes to it, opens the temporary file when
  its body is first polled, and drops the receiver when it is done.  Opening a file that is gone is
  the \<^verbatim>\<open>unwrap\<close> of \<^verbatim>\<open>File::open\<close>.\<close>

datatype requester = Cloned | Subscribed | Opened | Left | Crashed

text \<open>The worker: downloading, waiting for the receivers, after that wait, after the entry is removed, after the
  second wait, and after the import.\<close>

datatype worker_pc = Loading | Complete | Drained | Removed | DrainedAgain | Moved | WorkerEnded

record coalesce =
  co_entry :: bool
  co_good :: bool
  co_worker :: worker_pc
  co_requests :: "requester list"

text \<open>The request that started the worker subscribes after it has spawned it.\<close>

definition coalesce_start :: coalesce where
  "coalesce_start = \<lparr>co_entry = True, co_good = False, co_worker = Loading, co_requests = [Subscribed]\<rparr>"

datatype coalesce_event = Clone | Subscribe nat | Join | Open nat | Leave nat
  | Finish "bool option" | Drain | Remove | DrainAgain | Move

definition receiving :: "requester \<Rightarrow> bool" where
  "receiving r \<longleftrightarrow> r = Subscribed \<or> r = Opened"

definition set_request :: "nat \<Rightarrow> (requester \<Rightarrow> bool) \<Rightarrow> requester \<Rightarrow> coalesce \<Rightarrow> coalesce" where
  "set_request i P r st =
     (if i < length (co_requests st) \<and> P (co_requests st ! i) then st\<lparr>co_requests := (co_requests st)[i := r]\<rparr> else st)"

text \<open>\<open>Join\<close> is a request that clones and subscribes without a step of the worker in between.  \<open>Finish\<close> is the end
  of the download: all attempts failed, or the file is complete and its hash is right or wrong.\<close>

definition coalesce_step :: "coalesce_event \<Rightarrow> coalesce \<Rightarrow> coalesce" where
  "coalesce_step e st =
     (case e of
        Clone \<Rightarrow> if co_entry st then st\<lparr>co_requests := co_requests st @ [Cloned]\<rparr> else st
      | Join \<Rightarrow> if co_entry st then st\<lparr>co_requests := co_requests st @ [Subscribed]\<rparr> else st
      | Subscribe i \<Rightarrow> set_request i (\<lambda>r. r = Cloned) Subscribed st
      | Open i \<Rightarrow> set_request i (\<lambda>r. r = Subscribed) (if co_worker st = Moved then Crashed else Opened) st
      | Leave i \<Rightarrow> set_request i receiving Left st
      | Finish r \<Rightarrow>
          if co_worker st = Loading
          then (case r of
                  None \<Rightarrow> st\<lparr>co_worker := WorkerEnded, co_entry := False\<rparr>
                | Some good \<Rightarrow> st\<lparr>co_worker := Complete, co_good := good\<rparr>)
          else st
      | Drain \<Rightarrow> if co_worker st = Complete \<and> \<not> list_ex receiving (co_requests st) then st\<lparr>co_worker := Drained\<rparr> else st
      | Remove \<Rightarrow>
          if co_worker st = Drained then st\<lparr>co_worker := (if co_good st then Removed else WorkerEnded), co_entry := False\<rparr> else st
      | DrainAgain \<Rightarrow>
          if co_worker st = Removed \<and> \<not> list_ex receiving (co_requests st) then st\<lparr>co_worker := DrainedAgain\<rparr> else st
      | Move \<Rightarrow> if co_worker st = DrainedAgain then st\<lparr>co_worker := Moved\<rparr> else st)"

section \<open>Nobody loses the file\<close>

definition coalesce_inv :: "coalesce \<Rightarrow> bool" where
  "coalesce_inv st \<longleftrightarrow>
     Cloned \<notin> set (co_requests st) \<and> Crashed \<notin> set (co_requests st) \<and>
     (co_worker st \<in> {Removed, DrainedAgain, Moved} \<longrightarrow> \<not> co_entry st) \<and>
     (co_worker st \<in> {DrainedAgain, Moved} \<longrightarrow> \<not> list_ex receiving (co_requests st))"

lemma set_request_member:
  "r' \<in> set (co_requests (set_request i P r st)) \<Longrightarrow> r' = r \<or> r' \<in> set (co_requests st)"
  using set_update_subset_insert [of "co_requests st" i r] by (auto simp: set_request_def split: if_splits)

lemma set_request_frame: "co_worker (set_request i P r st) = co_worker st" "co_entry (set_request i P r st) = co_entry st"
  by (simp_all add: set_request_def)

lemma coalesce_inv_leave: "coalesce_inv st \<Longrightarrow> coalesce_inv (set_request i P Left st)"
  by (auto simp: coalesce_inv_def set_request_frame list_ex_iff receiving_def dest!: set_request_member)

lemma coalesce_inv_open:
  assumes "coalesce_inv st"
  shows "coalesce_inv (set_request i (\<lambda>r. r = Subscribed) (if co_worker st = Moved then Crashed else Opened) st)"
proof (cases "i < length (co_requests st) \<and> co_requests st ! i = Subscribed")
  case True
  then have "list_ex receiving (co_requests st)" unfolding list_ex_iff receiving_def by (metis nth_mem)
  with assms have w: "co_worker st \<notin> {DrainedAgain, Moved}" by (auto simp: coalesce_inv_def)
  with assms show ?thesis by (auto simp: coalesce_inv_def set_request_frame dest!: set_request_member)
next
  case False
  then have "set_request i (\<lambda>r. r = Subscribed) r st = st" for r by (auto simp: set_request_def)
  with assms show ?thesis by simp
qed

lemma coalesce_inv_subscribe: "coalesce_inv st \<Longrightarrow> set_request i (\<lambda>r. r = Cloned) r st = st"
  unfolding coalesce_inv_def set_request_def by (metis nth_mem)

lemma coalesce_inv_step:
  assumes "coalesce_inv st" "e \<noteq> Clone"
  shows "coalesce_inv (coalesce_step e st)"
proof (cases e)
  case (Open i)
  with coalesce_inv_open [OF assms(1)] show ?thesis by (simp add: coalesce_step_def)
next
  case (Subscribe i)
  with coalesce_inv_subscribe [OF assms(1)] assms(1) show ?thesis by (simp add: coalesce_step_def)
next
  case (Leave i)
  with coalesce_inv_leave [OF assms(1)] show ?thesis by (simp add: coalesce_step_def)
qed (use assms in \<open>auto simp: coalesce_step_def coalesce_inv_def receiving_def split: option.splits\<close>)

interpretation coalescing: stateful "\<lambda>st. st = coalesce_start" "\<lambda>st st'. \<exists>e. e \<noteq> Clone \<and> st' = coalesce_step e st" coalesce_inv
  by unfold_locales (auto simp: coalesce_inv_step, simp add: coalesce_inv_def coalesce_start_def)

section \<open>Properties\<close>

text \<open>
  C30.  Requests that subscribe in one step with finding the entry never lose the temporary file: in every
  interleaving of theirs with the worker, no request finds the file moved away, and while the worker
  moves it nobody reads it.
\<close>

theorem joined_requests_keep_file:
  assumes "reach (\<lambda>st. st = coalesce_start) (\<lambda>st st'. \<exists>e. e \<noteq> Clone \<and> st' = coalesce_step e st) st"
  shows "Crashed \<notin> set (co_requests st) \<and> (co_worker st = Moved \<longrightarrow> \<not> list_ex receiving (co_requests st))"
  using coalescing.reach_inv [OF assms] by (auto simp: coalesce_inv_def)

theorem joined_requests_keep_file_witness:
  "\<exists>st. reach (\<lambda>st. st = coalesce_start) (\<lambda>st st'. \<exists>e. e \<noteq> Clone \<and> st' = coalesce_step e st) st \<and>
     co_worker st = Complete \<and> co_requests st = [Left, Opened] \<and> Crashed \<notin> set (co_requests st)"
proof -
  let ?R = "reach (\<lambda>st. st = coalesce_start) (\<lambda>st st'. \<exists>e. e \<noteq> Clone \<and> st' = coalesce_step e st)"
  have step: "?R st \<Longrightarrow> e \<noteq> Clone \<Longrightarrow> ?R (coalesce_step e st)" for e st by (rule reach_step) auto
  have "?R st \<Longrightarrow> Clone \<notin> set es \<Longrightarrow> ?R (fold coalesce_step es st)" for es st
  proof (induction es arbitrary: st)
    case (Cons e es)
    then have "?R (coalesce_step e st)" by (intro step) auto
    with Cons show ?case by simp
  qed simp
  note runs = this
  let ?st = "fold coalesce_step [Join, Open 0, Finish (Some True), Leave 0, Open 1] coalesce_start"
  have r: "?R ?st" by (rule runs) (simp_all add: reach_init)
  have "co_worker ?st = Complete \<and> co_requests ?st = [Left, Opened]"
    by (simp add: coalesce_step_def set_request_def receiving_def coalesce_start_def)
  with joined_requests_keep_file [OF r] r show ?thesis by blast
qed

text \<open>
  The second wait does not close the race completely: a request that has cloned the entry but not yet
  subscribed is not waited for, and opens a file that has been moved away.
\<close>

theorem late_subscriber_crashes:
  "Crashed \<in> set (co_requests (fold coalesce_step
     [Finish (Some True), Leave 0, Clone, Drain, Remove, DrainAgain, Move, Subscribe 1, Open 1] coalesce_start))"
  by (simp add: coalesce_step_def set_request_def receiving_def coalesce_start_def)

end
