(* ===== verification/Logging.thy ===== *)
theory Logging
  imports LogFiles
begin

text \<open>
  \<^verbatim>\<open>src/logger.rs\<close>, the handle \<^verbatim>\<open>Logger\<close> around the worker of \<open>LogFiles\<close>: its start, the setters of its configuration, its
  shutdown, and the buffer in front of the log of the standard output.  Shown: a shutdown waits until every message is
  written, the one that follows when the handle is dropped does nothing more, and what a crash can lose.
\<close>

section \<open>Logger\<close>

record logger =
  lg_worker :: log_worker
  lg_handle :: bool

text \<open>\<^verbatim>\<open>set_boxed_logger\<close> fails when the process has a logger already.\<close>

definition logger_init :: "bool \<Rightarrow> log_worker \<Rightarrow> logger option" where
  "logger_init installed w = (if installed then None else Some \<lparr>lg_worker = w, lg_handle = True\<rparr>)"

definition set_write_info :: "bool \<Rightarrow> logger_config \<Rightarrow> logger_config" where
  "set_write_info enabled c = c\<lparr>write_info := enabled\<rparr>"

definition set_flush :: "bool \<Rightarrow> logger_config \<Rightarrow> logger_config" where
  "set_flush enabled c = c\<lparr>flush_each := enabled\<rparr>"

definition set_console_level :: "u8 \<Rightarrow> logger_config \<Rightarrow> logger_config" where
  "set_console_level l c = c\<lparr>console_level := l\<rparr>"

text \<open>The worker takes message after message; the rotations say what the disk answers.\<close>

definition drain :: "rotation list \<Rightarrow> log_worker \<Rightarrow> log_worker" where
  "drain rs w = fold (\<lambda>r. log_step (Recv r)) rs w"

text \<open>\<^verbatim>\<open>Logger::shutdown\<close>: a last message, the notification, and the wait for the worker if nobody has waited yet.  The worker
  may handle messages before it sees the notification, which changes nothing, since no message comes in.\<close>

definition logger_shutdown :: "rotation list \<Rightarrow> logger \<Rightarrow> logger" where
  "logger_shutdown rs lg =
     (let w = log_step Shutdown (log_send Info ''Shutdown logger...'' (lg_worker lg)) in
      if lg_handle lg then \<lparr>lg_worker = drain rs w, lg_handle = False\<rparr> else lg\<lparr>lg_worker := w\<rparr>)"

text \<open>\<^verbatim>\<open>Drop for Logger\<close>.\<close>

definition drop_logger :: "rotation list \<Rightarrow> logger \<Rightarrow> logger" where
  "drop_logger rs lg = logger_shutdown rs lg"

section \<open>The buffer\<close>

text \<open>The writer of the standard output log: what has reached the file, and what waits in the buffer.\<close>

record out_writer =
  ow_file :: string
  ow_buffer :: string

text \<open>\<^verbatim>\<open>BufWriter\<close> writes the buffer out when it is full; \<open>spill\<close> says how much of it goes to the file with this call.\<close>

definition out_write :: "nat \<Rightarrow> string \<Rightarrow> out_writer \<Rightarrow> out_writer" where
  "out_write spill msg wr =
     (let b = ow_buffer wr @ msg in \<lparr>ow_file = ow_file wr @ take spill b, ow_buffer = drop spill b\<rparr>)"

definition out_flush :: "out_writer \<Rightarrow> out_writer" where
  "out_flush wr = \<lparr>ow_file = ow_file wr @ ow_buffer wr, ow_buffer = []\<rparr>"

text \<open>A message at the level of information or below, the notification to flush, and the end of the worker.\<close>

datatype out_event = OutMessage nat string | OutFlush

definition out_step :: "logger_config \<Rightarrow> out_event \<Rightarrow> out_writer \<Rightarrow> out_writer" where
  "out_step c e wr =
     (case e of
        OutMessage spill m \<Rightarrow>
          if write_info c
          then let wr = out_write spill (m @ [LF]) wr in if flush_each c then out_flush wr else wr
          else wr
      | OutFlush \<Rightarrow> out_flush wr)"

fun out_text :: "logger_config \<Rightarrow> out_event list \<Rightarrow> string" where
  "out_text c [] = []"
| "out_text c (OutMessage _ m # es) = (if write_info c then m @ [LF] else []) @ out_text c es"
| "out_text c (OutFlush # es) = out_text c es"

section \<open>Draining\<close>

lemma handle_message_simps [simp]:
  "lw_queue (handle_message r m w) = lw_queue w" "lw_closed (handle_message r m w) = lw_closed w"
  by (simp_all add: handle_message_def Let_def split: option.split)

lemma log_step_ended [simp]: "lw_ended w \<Longrightarrow> log_step (Recv r) w = w"
  by (simp add: log_step_def)

lemma drain_ended [simp]: "lw_ended w \<Longrightarrow> drain rs w = w"
  by (induction rs) (simp_all add: drain_def)

lemma drain_ends:
  assumes "lw_closed w" "length (lw_queue w) < length rs"
  shows "lw_ended (drain rs w)"
  using assms
proof (induction rs arbitrary: w)
  case (Cons r rs)
  show ?case
  proof (cases "lw_ended w")
    case False
    show ?thesis
    proof (cases "lw_queue w")
      case Nil
      with False Cons.prems have "lw_ended (log_step (Recv r) w)" by (simp add: log_step_def)
      then have "drain rs (log_step (Recv r) w) = log_step (Recv r) w" by simp
      with \<open>lw_ended (log_step (Recv r) w)\<close> show ?thesis by (simp add: drain_def)
    next
      case (Cons m ms)
      let ?w = "handle_message r m (w\<lparr>lw_queue := ms\<rparr>)"
      have "log_step (Recv r) w = ?w" using False Cons by (simp add: log_step_def)
      moreover have "lw_ended (drain rs ?w)" using Cons.prems Cons by (intro Cons.IH) simp_all
      ultimately show ?thesis by (simp add: drain_def)
    qed
  qed simp
qed simp

text \<open>The lines a queue adds to the two files.\<close>

definition err_lines :: "log_message list \<Rightarrow> string list" where
  "err_lines ms = map lm_text (filter (\<lambda>m. level_num (lm_level m) \<le> level_num Warn) ms)"

definition out_lines :: "logger_config \<Rightarrow> log_message list \<Rightarrow> string list" where
  "out_lines c ms = (if write_info c then map lm_text (filter (\<lambda>m. level_num (lm_level m) > level_num Warn) ms) else [])"

lemma handle_message_written:
  assumes "log_kept we (lw_err w)" "log_kept wo (lw_out w)" "rotation_ok r" "w' = handle_message r m w"
  shows "log_kept (we @ err_lines [m]) (lw_err w') \<and> log_kept (wo @ out_lines (lw_config w) [m]) (lw_out w') \<and>
    lw_ended w' = lw_ended w \<and> lw_config w' = lw_config w"
proof -
  obtain fe where fe: "write_line r (lm_text m) (lw_err w) = Some fe" "log_kept (we @ [lm_text m]) fe"
    using log_kept_write [OF assms(1,3)] by blast
  obtain fo where fo: "write_line r (lm_text m) (lw_out w) = Some fo" "log_kept (wo @ [lm_text m]) fo"
    using log_kept_write [OF assms(2,3)] by blast
  show ?thesis using assms(1,2,4) fe fo by (simp add: handle_message_def Let_def err_lines_def out_lines_def)
qed

lemma drain_written:
  assumes "lw_closed w" "\<not> lw_ended w" "length (lw_queue w) < length rs" "\<forall>r \<in> set rs. rotation_ok r"
    and "log_kept we (lw_err w)" "log_kept wo (lw_out w)"
  shows "lw_queue (drain rs w) = [] \<and> log_kept (we @ err_lines (lw_queue w)) (lw_err (drain rs w)) \<and>
    log_kept (wo @ out_lines (lw_config w) (lw_queue w)) (lw_out (drain rs w))"
  using assms
proof (induction rs arbitrary: w we wo)
  case (Cons r rs)
  show ?case
  proof (cases "lw_queue w")
    case Nil
    then have "log_step (Recv r) w = w\<lparr>lw_ended := True\<rparr>" using Cons.prems(1,2) by (simp add: log_step_def)
    then have "drain (r # rs) w = w\<lparr>lw_ended := True\<rparr>" using drain_ended [of "w\<lparr>lw_ended := True\<rparr>" rs] by (simp add: drain_def)
    with Nil Cons.prems(5,6) show ?thesis by (simp add: err_lines_def out_lines_def)
  next
    case q: (Cons m ms)
    let ?w = "handle_message r m (w\<lparr>lw_queue := ms\<rparr>)"
    have "drain (r # rs) w = drain rs ?w" using Cons.prems(2) q by (simp add: drain_def log_step_def)
    moreover have h: "log_kept (we @ err_lines [m]) (lw_err ?w) \<and> log_kept (wo @ out_lines (lw_config w) [m]) (lw_out ?w) \<and>
        lw_ended ?w = lw_ended w \<and> lw_config ?w = lw_config w"
      using handle_message_written [of we "w\<lparr>lw_queue := ms\<rparr>" wo r ?w m] Cons.prems(4-6) by simp
    ultimately show ?thesis
      using Cons.IH [of ?w "we @ err_lines [m]" "wo @ out_lines (lw_config w) [m]"] Cons.prems q
      by (simp add: err_lines_def out_lines_def split: if_splits)
  qed
qed simp

lemma out_write_text: "ow_file (out_write spill m wr) @ ow_buffer (out_write spill m wr) = ow_file wr @ ow_buffer wr @ m"
  by (simp add: out_write_def Let_def del: take_append drop_append)

lemma out_step_text: "ow_file (out_step c e wr) @ ow_buffer (out_step c e wr) = ow_file wr @ ow_buffer wr @ out_text c [e]"
proof (cases e)
  case (OutMessage spill m)
  then show ?thesis using out_write_text [of spill "m @ [LF]" wr] by (simp add: out_step_def out_flush_def Let_def)
qed (simp add: out_step_def out_flush_def)

section \<open>Properties\<close>

text \<open>
  C28.  A shutdown of the logger waits until everything is written: when the disk works, the worker ends once it was given as
  many turns as there are messages and two more, its queue is then empty, and the two log files have been given every message
  that was waiting and the message of the shutdown; dropping the handle afterwards changes nothing.
\<close>

theorem logger_shutdown_drains:
  assumes "lg_handle lg" "w = lg_worker lg" "\<not> lw_ended w" "\<not> lw_closed w" "length (lw_queue w) + 1 < length rs" "\<forall>r \<in> set rs. rotation_ok r"
    and "log_kept we (lw_err w)" "log_kept wo (lw_out w)" "w' = lg_worker (logger_shutdown rs lg)"
  shows "lw_ended w' \<and> lw_queue w' = [] \<and> log_kept (we @ err_lines (lw_queue w)) (lw_err w') \<and>
    log_kept (wo @ out_lines (lw_config w) (lw_queue w @ [\<lparr>lm_level = Info, lm_text = ''Shutdown logger...''\<rparr>])) (lw_out w') \<and>
    drop_logger rs' (logger_shutdown rs lg) = logger_shutdown rs lg"
proof -
  let ?m = "\<lparr>lm_level = Info, lm_text = ''Shutdown logger...''\<rparr>"
  let ?w = "w\<lparr>lw_queue := lw_queue w @ [?m], lw_closed := True\<rparr>"
  have sent: "log_step Shutdown (log_send Info ''Shutdown logger...'' w) = ?w" using assms(3,4) by (simp add: log_step_def log_send_def)
  then have sd: "logger_shutdown rs lg = \<lparr>lg_worker = drain rs ?w, lg_handle = False\<rparr>"
    using assms(1,2) by (simp add: logger_shutdown_def)
  have ended: "lw_ended (drain rs ?w)" using assms(5) by (intro drain_ends) simp_all
  have "drop_logger rs' \<lparr>lg_worker = v, lg_handle = False\<rparr> = \<lparr>lg_worker = v, lg_handle = False\<rparr>" if "lw_ended v" for v
    using that by (simp add: drop_logger_def logger_shutdown_def log_step_def log_send_def)
  then have "drop_logger rs' (logger_shutdown rs lg) = logger_shutdown rs lg" unfolding sd using ended by blast
  moreover have "err_lines (lw_queue w @ [?m]) = err_lines (lw_queue w)" by (simp add: err_lines_def)
  moreover have "lw_queue (drain rs ?w) = [] \<and> log_kept (we @ err_lines (lw_queue ?w)) (lw_err (drain rs ?w)) \<and>
      log_kept (wo @ out_lines (lw_config ?w) (lw_queue ?w)) (lw_out (drain rs ?w))"
    by (rule drain_written) (use assms(3,5-8) in simp_all)
  moreover have "w' = drain rs ?w" by (simp add: assms(9) sd)
  ultimately show ?thesis using ended by simp
qed

definition log_idle :: "log_message list \<Rightarrow> log_worker" where
  "log_idle ms = (log_start \<lparr>rot_exists = False, rot_renamed = True, rot_created = True\<rparr> \<lparr>rot_exists = False, rot_renamed = True, rot_created = True\<rparr>
     ([], []) ([], []))\<lparr>lw_queue := ms\<rparr>"

theorem logger_shutdown_drains_witness:
  "let lg = \<lparr>lg_worker = log_idle [\<lparr>lm_level = Error, lm_text = ''e''\<rparr>], lg_handle = True\<rparr>;
       rs = replicate 3 \<lparr>rot_exists = True, rot_renamed = True, rot_created = True\<rparr>
   in lw_ended (lg_worker (logger_shutdown rs lg)) \<and> log_kept [''e''] (lw_err (lg_worker (logger_shutdown rs lg)))"
proof -
  let ?w = "log_idle [\<lparr>lm_level = Error, lm_text = ''e''\<rparr>]" and ?rs = "replicate 3 \<lparr>rot_exists = True, rot_renamed = True, rot_created = True\<rparr>"
  let ?lg = "\<lparr>lg_worker = ?w, lg_handle = True\<rparr>"
  have w: "\<not> lw_ended ?w" "\<not> lw_closed ?w" "lw_queue ?w = [\<lparr>lm_level = Error, lm_text = ''e''\<rparr>]" "lw_err ?w = \<lparr>lf_count = 0, lf_cur = [], lf_old = []\<rparr>"
    "lw_out ?w = \<lparr>lf_count = 0, lf_cur = [], lf_old = []\<rparr>"
    by (simp_all add: log_idle_def log_start_def rotate_log_def)
  then have "log_kept [] (lw_err ?w)" "log_kept [] (lw_out ?w)" by (simp_all add: log_kept_def)
  moreover have "\<forall>r \<in> set ?rs. rotation_ok r" by (simp add: rotation_ok_def)
  moreover have "length (lw_queue ?w) + 1 < length ?rs" by (simp add: w)
  moreover have "lg_handle ?lg" "?w = lg_worker ?lg" by simp_all
  ultimately have "lw_ended (lg_worker (logger_shutdown ?rs ?lg)) \<and> log_kept ([] @ err_lines (lw_queue ?w)) (lw_err (lg_worker (logger_shutdown ?rs ?lg)))"
    using logger_shutdown_drains [of ?lg ?w ?rs "[]" "[]"] w(1,2) by blast
  moreover have "err_lines (lw_queue ?w) = [''e'']" by (simp add: w err_lines_def)
  ultimately show ?thesis by (simp only: Let_def append_Nil)
qed

text \<open>
  What a crash can lose of the standard output log is what was written since the last flush: the file holds a prefix
  of the text, all of it right after a flush, and with \<^verbatim>\<open>--flush-log\<close> at every moment.
\<close>

theorem crash_loses_only_unflushed:
  assumes "wr = fold (out_step c) es \<lparr>ow_file = [], ow_buffer = []\<rparr>"
  shows "ow_file wr @ ow_buffer wr = out_text c es \<and> (flush_each c \<longrightarrow> ow_file wr = out_text c es) \<and>
    (es \<noteq> [] \<and> last es = OutFlush \<longrightarrow> ow_file wr = out_text c es)"
proof -
  have all: "ow_file (fold (out_step c) es wr) @ ow_buffer (fold (out_step c) es wr) = ow_file wr @ ow_buffer wr @ out_text c es" for es wr
  proof (induction es arbitrary: wr)
    case (Cons e es)
    have "out_text c (e # es) = out_text c [e] @ out_text c es" by (cases e) simp_all
    with Cons.IH [of "out_step c e wr"] out_step_text [of c e wr] show ?case by simp
  qed simp
  have each: "ow_buffer (fold (out_step c) es wr) = []" if "flush_each c" "ow_buffer wr = []" for es wr
    using that(2)
  proof (induction es arbitrary: wr)
    case (Cons e es)
    have "ow_buffer (out_step c e wr) = []" using Cons.prems that(1) by (cases e) (auto simp: out_step_def out_flush_def Let_def)
    from Cons.IH [OF this] show ?case by simp
  qed simp
  have last: "ow_buffer (fold (out_step c) es wr) = []" if "es \<noteq> []" "last es = OutFlush" for es wr
    using that by (cases es rule: rev_cases) (simp_all add: out_step_def out_flush_def)
  show ?thesis using all [of es "\<lparr>ow_file = [], ow_buffer = []\<rparr>"] each [of "\<lparr>ow_file = [], ow_buffer = []\<rparr>" es] last [of es] by (auto simp: assms)
qed

end
