(* ===== verification/Metrics.thy ===== *)
theory Metrics
  imports Prelude
begin

text \<open>
  \<^verbatim>\<open>src/metrics.rs\<close>: the counters, gauges and histograms of the client and the registry they are exported through.  A clone
  of a metric shares its value, so the registry is a list of names with the fields they read.  The text format is the
  library's; what it is given is \<open>gather\<close>.  Durations are nanoseconds.  Shown: the names are distinct, every name
  reports the value of its own field, and the buckets of a histogram are cumulative.
\<close>

section \<open>Histograms\<close>

text \<open>The upper bounds of the buckets, and the observations so far.\<close>

record histogram =
  hi_bounds :: "nat list"
  hi_seen :: "nat list"

definition histogram_new :: "nat list \<Rightarrow> histogram" where
  "histogram_new millis = \<lparr>hi_bounds = map (\<lambda>n. n * 1000000) millis, hi_seen = []\<rparr>"

definition observe :: "nat \<Rightarrow> histogram \<Rightarrow> histogram" where
  "observe d h = h\<lparr>hi_seen := hi_seen h @ [d]\<rparr>"

text \<open>The exported buckets count what is at most their bound; the last one, without a bound, counts everything.\<close>

definition buckets :: "histogram \<Rightarrow> nat list" where
  "buckets h = map (\<lambda>b. length (filter (\<lambda>d. d \<le> b) (hi_seen h))) (hi_bounds h) @ [length (hi_seen h)]"

section \<open>Metrics\<close>

datatype cache_fetch_phase = FetchUrl | Download

type_synonym labels = "(string \<times> string) list"

record metrics =
  mt_cache_sent :: u64
  mt_cache_sent_size :: "(labels, u64) hashmap"
  mt_cache_sent_duration :: "(labels, histogram) hashmap"
  mt_cache_received :: u64
  mt_cache_received_size :: u64
  mt_cache_received_duration :: "(cache_fetch_phase, histogram) hashmap"
  mt_connections :: u64
  mt_static_range :: int
  mt_cache_capacity :: int
  mt_cache_count :: u64
  mt_cache_size :: u64
  mt_download_count :: u64
  mt_download_file_count :: u64
  mt_download_size :: u64
  mt_download_duration :: histogram
  mt_start :: nat

definition sent_duration_new :: histogram where
  "sent_duration_new = histogram_new [10, 25, 50, 100, 200, 500, 1000, 1500, 2000, 3000, 5000, 10000, 30000]"

definition received_duration_new :: histogram where
  "received_duration_new = histogram_new [50, 100, 250, 500, 1000, 2500, 5000, 10000, 30000]"

definition download_duration_new :: histogram where
  "download_duration_new = histogram_new [100, 250, 500, 1000, 2500, 5000, 10000, 30000, 60000]"

definition metrics_new :: "nat \<Rightarrow> metrics" where
  "metrics_new now =
     \<lparr>mt_cache_sent = 0, mt_cache_sent_size = [], mt_cache_sent_duration = [], mt_cache_received = 0, mt_cache_received_size = 0,
      mt_cache_received_duration = [], mt_connections = 0, mt_static_range = 0, mt_cache_capacity = 0, mt_cache_count = 0,
      mt_cache_size = 0, mt_download_count = 0, mt_download_file_count = 0, mt_download_size = 0,
      mt_download_duration = download_duration_new, mt_start = now\<rparr>"

section \<open>The registry\<close>

datatype metric_unit = Bytes | Seconds

datatype sample =
  CounterValue u64 | GaugeValue int | HistogramValue "nat list"
| CounterFamily "(labels \<times> u64) list" | HistogramFamily "(labels \<times> nat list) list"

definition phase_label :: "cache_fetch_phase \<Rightarrow> labels" where
  "phase_label ph = [(''phase'', case ph of FetchUrl \<Rightarrow> ''FetchUrl'' | Download \<Rightarrow> ''Download'')]"

text \<open>The registrations of \<^verbatim>\<open>Metrics::new\<close> in their order, with the collector of the uptime, which counts whole seconds.\<close>

definition registry :: "(string \<times> metric_unit option \<times> (nat \<Rightarrow> metrics \<Rightarrow> sample)) list" where
  "registry =
     [(''cache_sent'', None, \<lambda>_ m. CounterValue (mt_cache_sent m)),
      (''cache_sent_size'', Some Bytes, \<lambda>_ m. CounterFamily (mt_cache_sent_size m)),
      (''cache_sent_duration'', Some Seconds, \<lambda>_ m. HistogramFamily (map (\<lambda>(l, h). (l, buckets h)) (mt_cache_sent_duration m))),
      (''cache_received'', None, \<lambda>_ m. CounterValue (mt_cache_received m)),
      (''cache_received_size'', Some Bytes, \<lambda>_ m. CounterValue (mt_cache_received_size m)),
      (''cache_received_duration'', Some Seconds,
         \<lambda>_ m. HistogramFamily (map (\<lambda>(ph, h). (phase_label ph, buckets h)) (mt_cache_received_duration m))),
      (''connections'', None, \<lambda>_ m. GaugeValue (uint (mt_connections m))),
      (''cache_count'', None, \<lambda>_ m. GaugeValue (uint (mt_cache_count m))),
      (''cache_size'', Some Bytes, \<lambda>_ m. GaugeValue (uint (mt_cache_size m))),
      (''cache_capacity'', Some Bytes, \<lambda>_ m. GaugeValue (mt_cache_capacity m)),
      (''static_range'', None, \<lambda>_ m. GaugeValue (mt_static_range m)),
      (''download_count'', None, \<lambda>_ m. CounterValue (mt_download_count m)),
      (''download_file_count'', None, \<lambda>_ m. CounterValue (mt_download_file_count m)),
      (''download_size'', Some Bytes, \<lambda>_ m. CounterValue (mt_download_size m)),
      (''download_duration'', Some Seconds, \<lambda>_ m. HistogramValue (buckets (mt_download_duration m))),
      (''uptime'', Some Seconds, \<lambda>now m. CounterValue (word_of_nat ((now - mt_start m) div 1000000000)))]"

definition unit_suffix :: "metric_unit option \<Rightarrow> string" where
  "unit_suffix u = (case u of None \<Rightarrow> [] | Some Bytes \<Rightarrow> ''_bytes'' | Some Seconds \<Rightarrow> ''_seconds'')"

text \<open>What the encoder is given: the prefix of the registry, the name and the unit, and the value.\<close>

definition gather :: "nat \<Rightarrow> metrics \<Rightarrow> (string \<times> sample) list" where
  "gather now m = map (\<lambda>(n, u, f). (''hath_'' @ n @ unit_suffix u, f now m)) registry"

text \<open>\<^verbatim>\<open>get_or_create\<close> on the families, as the middleware uses them.\<close>

definition sent_response :: "labels \<Rightarrow> u64 \<Rightarrow> nat \<Rightarrow> metrics \<Rightarrow> metrics" where
  "sent_response l n d m =
     m\<lparr>mt_cache_sent_size := insert_map l ((case lookup (mt_cache_sent_size m) l of Some k \<Rightarrow> k | None \<Rightarrow> 0) + n) (mt_cache_sent_size m),
       mt_cache_sent_duration :=
         insert_map l (observe d (case lookup (mt_cache_sent_duration m) l of Some h \<Rightarrow> h | None \<Rightarrow> sent_duration_new)) (mt_cache_sent_duration m)\<rparr>"

section \<open>Properties\<close>

text \<open>No two metrics are exported under the same name.\<close>

theorem exported_names_distinct: "wf_map (gather now m)"
proof -
  have "map fst (gather now m) = map (\<lambda>(n, u, _). ''hath_'' @ n @ unit_suffix u) registry"
    by (simp add: gather_def comp_def case_prod_beta)
  moreover have "distinct (map (\<lambda>(n, u, _). ''hath_'' @ n @ unit_suffix u) registry)"
    by (simp add: registry_def unit_suffix_def)
  ultimately show ?thesis by (simp add: wf_map_def)
qed

text \<open>The bounds of the three kinds of histograms increase, so that the buckets of a histogram do, up to the number of
  observations.\<close>

lemma bounds_increase:
  "sorted (hi_bounds sent_duration_new)" "sorted (hi_bounds received_duration_new)" "sorted (hi_bounds download_duration_new)"
  by (simp_all add: sent_duration_new_def received_duration_new_def download_duration_new_def histogram_new_def)

theorem buckets_cumulative:
  assumes "sorted (hi_bounds h)"
  shows "sorted (buckets h) \<and> last (buckets h) = length (hi_seen h)"
proof -
  have "length (filter (\<lambda>d. d \<le> a) xs) \<le> length (filter (\<lambda>d. d \<le> b) xs)" if "a \<le> b" for a b :: nat and xs
    using that by (induction xs) auto
  then have "sorted (map (\<lambda>b. length (filter (\<lambda>d. d \<le> b) (hi_seen h))) (hi_bounds h))"
    using assms unfolding sorted_map by (auto elim: sorted_wrt_mono_rel [rotated])
  then show ?thesis by (auto simp: buckets_def sorted_append)
qed

text \<open>A response that was sent adds its size to the counter of its version and one observation to its histogram, and
  leaves those of the other versions alone.\<close>

theorem sent_response_counted:
  assumes "m' = sent_response l n d m"
  shows "lookup (mt_cache_sent_size m') k =
      (if k = l then Some ((case lookup (mt_cache_sent_size m) l of Some k \<Rightarrow> k | None \<Rightarrow> 0) + n) else lookup (mt_cache_sent_size m) k) \<and>
    map_option (\<lambda>h. last (buckets h)) (lookup (mt_cache_sent_duration m') k) =
      (if k = l then Some ((case lookup (mt_cache_sent_duration m) l of Some h \<Rightarrow> last (buckets h) | None \<Rightarrow> 0) + 1)
       else map_option (\<lambda>h. last (buckets h)) (lookup (mt_cache_sent_duration m) k))"
  using assms by (simp add: sent_response_def buckets_def observe_def sent_duration_new_def histogram_new_def split: option.split)

end
