(* ===== verification/Spec2Isabelle.thy ===== *)
theory Spec2Isabelle
  imports SystemRun DateHeader H3Quinn H3Loop Miss Coalesce Logging Metrics
begin

text \<open>
  A verification of the client \<^verbatim>\<open>hath-rust\<close>, a node of a distributed image cache written in Rust.

  \<^bold>\<open>The program.\<close>  A coordinating server assigns the client a part of a collection of image files.
  The client keeps them under \<^verbatim>\<open>cache_dir\<close>, in directories named after the first two bytes of their
  SHA-1 (a \<^emph>\<open>static range\<close>), and serves them over HTTPS and HTTP/3 to holders of signed links.
  \<^verbatim>\<open>main.rs\<close> reads the credentials, logs in, builds the objects and runs the loop of the commands
  that handlers send it; \<^verbatim>\<open>rpc.rs\<close> talks to the coordinating server with signed requests;
  \<^verbatim>\<open>server/\<close> accepts connections behind a flood control; \<^verbatim>\<open>middleware/\<close> counts and logs the requests;
  \<^verbatim>\<open>route/\<close> answers them: a cached file comes out of \<^verbatim>\<open>cache_manager.rs\<close> through
  \<^verbatim>\<open>file_reader.rs\<close>, a file that is missing is downloaded, verified and imported while the requests that wait for
  it follow the temporary file; \<^verbatim>\<open>gallery_downloader.rs\<close> downloads whole galleries on command, and
  \<^verbatim>\<open>logger.rs\<close> writes the log files.

  \<^bold>\<open>Theories and sources.\<close>  The definitions carry the names of the source wherever the logic allows it.
  \<^item> \<open>Prelude\<close>: the integers \<open>u8\<close> to \<open>u64\<close> as words, signed 64-bit arithmetic with its overflow, the parts of
    \<^verbatim>\<open>core::str\<close> the client uses (\<open>split_on\<close>, \<open>splitn\<close>, \<open>lines\<close>, decimal numerals), hash maps as association
    lists, reachability and the locale \<open>stateful\<close> (an invariant of a step relation).
  \<^item> \<open>Hex\<close>: the interface of \<^verbatim>\<open>const_hex\<close> and of SHA-1 (locales \<open>hex_codec\<close>, \<open>external\<close>);
    \<^verbatim>\<open>util.rs\<close>, \<open>string_to_hash\<close>.
  \<^item> \<open>CacheFile\<close>: \<^verbatim>\<open>cache_manager.rs\<close>, \<open>file_type\<close> and \<open>cache_file_info\<close> (parsing, printing, paths).
  \<^item> \<open>FloodControl\<close>, \<open>Body\<close>: \<^verbatim>\<open>server/util.rs\<close>, \<open>flood_hit\<close> (\<^verbatim>\<open>FloodControl::hit\<close>) and
    \<open>truncate_poll\<close> (\<^verbatim>\<open>TruncateBody::poll_frame\<close>).
  \<^item> \<open>FileReader\<close>: \<^verbatim>\<open>file_reader.rs\<close>, the reader with its task on the blocking pool.
  \<^item> \<open>Disk\<close>: the calls of \<^verbatim>\<open>std::fs\<close> and \<^verbatim>\<open>tokio::fs\<close> on an explicit disk, each of which may fail.
  \<^item> \<open>CacheStore\<close>, \<open>CacheCleaner\<close>, \<open>CacheGet\<close>, \<open>CacheScan\<close>, \<open>CacheLife\<close>: \<^verbatim>\<open>cache_manager.rs\<close>: the books of
    the cache and what changes them (\<open>remove_cache\<close>, \<open>import_cache\<close>, \<open>mark_recently_accessed\<close>, settings), the
    cleaner (\<open>check_cache_usage\<close>), \<open>get_file\<close> with the verifying task, the start-up (\<open>cm_new\<close>, \<open>scan_cache\<close>), and the
    step relation \<open>cm_step\<close> over all of them.
  \<^item> \<open>CacheSpec\<close>: what the cache promises, a map from identities to contents (\<open>contents\<close>), and the steps of a client that
    imports only its own downloads (\<open>node_step\<close>).  \<open>CacheStart\<close>: the state a start with a verifying scan leaves behind.
  \<^item> \<open>Rpc\<close>: \<^verbatim>\<open>rpc.rs\<close> and \<^verbatim>\<open>error.rs\<close>, every request with its retries, server changes and clock correction.
  \<^item> \<open>Route\<close>: \<^verbatim>\<open>route/mod.rs\<close>, \<^verbatim>\<open>speed_test.rs\<close>, \<^verbatim>\<open>server_command.rs\<close> and the hit path of
    \<^verbatim>\<open>cache.rs\<close> (\<open>hath\<close>, \<open>servercmd\<close>, \<open>speedtest\<close>).
  \<^item> \<open>Download\<close>, \<open>Coalesce\<close>: \<^verbatim>\<open>route/cache.rs\<close>, a miss: the worker (\<open>dl_attempts\<close>, \<open>finish_download\<close>), the body that
    follows the temporary file (\<open>follow\<close>), and the entry through which later requests join it.  \<open>Miss\<close>: the channels on which the
    requests wait for the first byte (\<open>miss_step\<close>), and a miss from end to end.
  \<^item> \<open>Gallery\<close>, \<open>GalleryRun\<close>: \<^verbatim>\<open>gallery_downloader.rs\<close>: the parser of the metadata, and the rounds of
    concurrent downloads (\<open>gallery_step\<close>, \<open>run_galleries\<close>).
  \<^item> \<open>LogFiles\<close>, \<open>Logging\<close>: \<^verbatim>\<open>logger.rs\<close>, the worker with its queue and its rotated files; the handle with its shutdown
    and the buffer of the standard output log.
  \<^item> \<open>Metrics\<close>: \<^verbatim>\<open>metrics.rs\<close>, the counters, gauges and histograms and what the endpoint exports of them.
  \<^item> \<open>Middleware\<close>: \<^verbatim>\<open>middleware/\<close>, the connection counter, the counting body and the default headers.
  \<^item> \<open>RequestLog\<close>: \<^verbatim>\<open>middleware/logger.rs\<close>, the requests in flight, their lines in the log and the traffic counters.
  \<^item> \<open>Server\<close>: \<^verbatim>\<open>server/mod.rs\<close>, \<^verbatim>\<open>cert.rs\<close>, \<^verbatim>\<open>date_header.rs\<close>: the accept loop, the certificate
    store, the cached date and the answers over HTTP/3.  \<open>DateHeader\<close>: the buffer behind the cached date, which refines it.
  \<^item> \<open>Connections\<close>: \<^verbatim>\<open>server/mod.rs\<close>: \<open>server_new\<close> with its options, a connection under its timeouts (\<open>tcp_end\<close>),
    a request over HTTP/3 (\<open>h3_request_end\<close>) and the graceful end (\<open>drain_end\<close>), with times in milliseconds.
  \<^item> \<open>App\<close>: the router of \<^verbatim>\<open>route/mod.rs\<close> with the layers around it (\<open>match_route\<close>, \<open>run_route\<close>, \<open>app\<close>).
  \<^item> \<open>H3Quinn\<close>: \<^verbatim>\<open>server/h3_quinn.rs\<close>, the adapter between \<^verbatim>\<open>h3\<close> and \<^verbatim>\<open>quinn\<close>.  \<open>H3Loop\<close>: \<^verbatim>\<open>accept_loop_h3\<close> of
    \<^verbatim>\<open>server/mod.rs\<close>.
  \<^item> \<open>Client\<close>: \<^verbatim>\<open>main.rs\<close>: arguments, credentials, the command loop, the keep-alive task, login and
    shutdown.  \<open>Startup\<close>: \<^verbatim>\<open>main\<close> up to normal operation (\<open>boot\<close>), where all parts are put together, and \<^verbatim>\<open>create_dirs\<close> and
    \<^verbatim>\<open>ssl_provider\<close> of \<^verbatim>\<open>util.rs\<close>.
  \<^item> \<open>System\<close>: the client in operation as one transition system (\<open>sys_step\<close>): the tasks of \<^verbatim>\<open>main\<close>, the requests in their layers, the
    downloads and verifying tasks, the signals and the shutdown over the shared state of \<^verbatim>\<open>AppState\<close>.  \<open>SystemRun\<close>: what holds in all its runs.

  \<^bold>\<open>State and effects.\<close>  A struct is a record, an enum a datatype, and a fallible call returns an
  option or a sum.  A method takes the record and returns it changed.  What the program waits for is an
  argument: the failures and the clock of a call are an \<open>io_env\<close>, the answers of the network a list of
  exchanges, and an asynchronous component is a function of one event, so that a list of events is an
  interleaving; theorems hold for every list.

  \<^bold>\<open>Loops and fuel.\<close>  A loop that depends on answers of the outside consumes them from a list, and \<open>None\<close> (or the status
  of a loop that still runs) means that the list was too short: \<open>verify_loop\<close>, \<open>hash_loop\<close>, \<open>clean_loop\<close>,
  \<open>run_body\<close>.  That it ends is proved with the length that is enough, as in \<open>range_body_complete\<close>
  (one answer per byte and one for the end), \<open>cold_file_served_and_verified\<close> and
  \<open>download_resumes\<close>; that it does not end is proved for every length, as in
  \<open>cleaner_never_returns_on_barren_cache\<close> and \<open>verify_never_ends_on_truncated_file\<close>.
  All other definitions are total.

  \<^bold>\<open>Code outside the repository\<close> is a parameter: SHA-1 and the hexadecimal codec (\<open>extern\<close>, with the laws
  of the locale \<open>external\<close>: a digest has twenty bytes, decoding inverts encoding), URL and IPv6 parsing and the
  chosen random server (\<open>rpc_ext\<close>), header ranges (\<open>route_ext\<close>), the PKCS12 parser (\<open>pfx\<close>), the rendering of dates,
  the decoding of the saved state.  Every law has a model: \<open>hx\<close> interprets the codec by an executable one, \<open>sx\<close>
  the digest by a checksum, and the witnesses run on them.

  \<^bold>\<open>Interfaces.\<close>
  \<^item> \<open>stateful\<close>: an invariant kept by every step holds in every reachable state.  Interpreted by \<open>flood\<close> (flood control),
    \<open>life\<close> (cache manager), \<open>verified\<close> (cache manager after a verifying start), \<open>conns\<close> (connection counter), \<open>access\<close>
    (request log), \<open>coalescing\<close> (joined downloads), \<open>missing\<close> (requests that wait for a download), \<open>operating\<close> (the running client).
  \<^item> \<open>content_store\<close>: a store whose steps add only contents that are good for their key holds only such contents.
    Interpreted by \<open>node\<close> (a client with an empty cache) and \<open>verified_node\<close> (after a verifying start).
  \<^item> \<open>byte_body\<close> and \<open>live_body\<close>: what a body yields is a prefix of its content, and all of it when no poll fails.
    Interpreted by \<open>fr\<close> (file reader), \<open>ch\<close> (verifying channel), \<open>rnd\<close> (speed test).  The adaptors preserve them:
    \<open>truncated\<close> with \<open>frt\<close>, \<open>cht\<close> (range requests), \<open>logged\<close> with \<open>lfr\<close> (request log).

  \<^bold>\<open>What is shown.\<close>
  \<^item> Cache: the books equal the files on the disk after any sequence of operations; file identities survive
    printing and parsing and have distinct paths; the scan deletes no valid file; the cleaner removes the oldest files
    first; an unverified file is served while its hash is checked, and removed when it is wrong.  The manager refines a map from
    identities to contents; a client that imports only its downloads serves only authentic bytes, from an empty cache on
    and from any tidy one that a verifying start has scanned.
  \<^item> Start: the coordinating server hears of the client last, what runs afterwards is what login and options say, and
    the saved books survive a restart.
  \<^item> Operation: in every run of the whole client, with all its tasks interleaved, the files stay authentic, the books exact and the counter in step with
    the log; strangers cannot change what belongs to the coordinating server; and that server is told of the end once.  A step is what happens between two points
    where the code waits; a download appears as its start and its end, in between are \<open>Miss\<close>, \<open>Coalesce\<close> and \<open>follow\<close>.
  \<^item> Downloads: only a file of the announced length and hash is imported, a broken transfer resumes where it
    stopped, followers see a growing prefix, joined requests never lose the file, and \<open>downloaded_file_is_served\<close>
    below composes a miss with the hit after it.
  \<^item> Requests: \<open>hath\<close> sends exactly the requested range to holders of a fresh link, and \<open>servercmd\<close>
    acts only for a listed address with a fresh key; every response is well formed, with the length its body has.
  \<^item> Server: the flood control refines a leaky bucket per address, its counter never overflows, a block lasts a
    minute, and both accept loops inherit the limit, the one of HTTP/3 over all connections of an address; the connection counter equals the live requests, the traffic counters
    the bytes delivered.
  \<^item> Coordinating server: settings change only through an answer whose hash is right, the retries are bounded, and
    the clock correction is as accurate as the round trip.
  \<^item> Galleries: parsed paths stay inside the gallery, the file list is the authentic one, and a gallery reported as
    finished has every file, verified.
  \<^item> Logs, credentials, keep-alive, shutdown: nothing at error level is lost, a shutdown writes out all that waits, what the set-up writes is read back,
    overload reports are spaced, at most one connection is accepted after a shutdown, and the shutdown ends in time.
  \<^item> HTTP/3: a send stream passes on every byte once and in order.

  \<^bold>\<open>Behaviour that surprises\<close> is stated as a theorem too: the cleaner that runs forever on a cache with no file it can
  remove, the verifying loop on a truncated file, a scan that deletes a file it cannot read,
  \<open>--disable-logging\<close> undone by the login, a lost write that counts as done, an HTTP/3 stream whose end is
  reported as an error when it had to be waited for, a failed download that no request is told of, a misplaced file that
  keeps a verifying scan from finding a corrupted one, a file id with an encoded slash whose file nothing knows afterwards.

  \<^bold>\<open>Not modelled\<close>: the text format of the metrics (the gauges the cache works with are fields of its record, not of
  \<open>metrics\<close>), \<^verbatim>\<open>build.rs\<close>, the configuration of TLS, QUIC and the HTTP client, the Windows signals and tray icon:
  all of it is set-up of code outside the repository or text for its build.
\<close>

section \<open>From a miss to a hit\<close>

text \<open>
  A file downloaded on a miss is served afterwards: when the worker ends with a verified file and
  nothing fails, the next request for the same identity within a week finds it in the cache, and its
  stream delivers exactly the downloaded bytes, whose hash is the one of the identity.
\<close>

theorem downloaded_file_is_served:
  assumes "external X" "plain_info info" "io_ok E" "io_ok E'"
    and "r = dl_attempts sources X info 0 attempts (new_download proxy)" "r = Verified d"
    and "path = to_path (x_enc X) info (cache_dir cm)" "entry_range X (cache_dir cm) temp_path = None"
    and "lookup (disk cm) path \<noteq> Some Dir" "free_dir (parent path) (disk cm)" "temp_path \<notin> set (ancestors (parent path))"
    and "clock E' - one_week \<le> clock E" "\<forall>e \<in> set es. \<exists>n. e = TaskRead (Inr n)" "length d < length es"
  shows "\<exists>reader cm' b. get_file X E' info None (finish_download X E info temp_path r cm) = (Full (ReaderStream reader), cm') \<and>
    run_body reader_poll es reader = (d, Ended, b) \<and> x_sha1 X d = fi_hash info"
proof -
  let ?f = "\<lparr>f_data = d, f_mtime = clock E\<rparr>"
  let ?cm = "cm\<lparr>disk := insert_map temp_path (File ?f) (disk cm)\<rparr>"
  let ?cm' = "import_cache X E info temp_path ?cm"
  have fin: "finish_download X E info temp_path r cm = ?cm'" using assms(6) by (simp add: finish_download_def)
  from dl_attempts_verified [of "new_download proxy" sources X info 0 attempts d] assms(5,6)
  have d: "x_sha1 X d = fi_hash info" "length d = unat (fi_size info)" by (auto simp: new_download_def dl_ok_def)
  have "lookup (disk ?cm') path = Some (File ?f)"
  proof (rule import_stores_file [OF assms(1,2) _ assms(3)])
    show "lookup (disk ?cm) temp_path = Some (File ?f)" by simp
    show "free_dir (parent path) (disk ?cm)" using assms(10,11) by (auto simp: free_dir_def)
  qed (use assms(7-9) in auto)
  moreover have "cache_dir ?cm' = cache_dir cm"
    by (simp add: import_cache_def import_file_def remove_cache_def Let_def split: option.split)
  ultimately have "lookup (disk ?cm') (to_path (x_enc X) info (cache_dir ?cm')) = Some (File ?f)" using assms(7) by simp
  from recent_file_streamed [OF assms(4) this, of es None] d assms(12-14) fin show ?thesis by auto
qed

theorem downloaded_file_is_served_witness:
  "\<exists>reader cm' b. get_file sample_ext sample_env download_info None
       (finish_download sample_ext sample_env download_info ''t'' (dl_attempts 1 sample_ext download_info 0 resumed_attempts (new_download False))
          (sample_manager [] [])) = (Full (ReaderStream reader), cm') \<and>
     run_body reader_poll (replicate 5 (TaskRead (Inr 1))) reader = ([1, 2, 3, 4], Ended, b)"
proof -
  have cm: "cache_dir (sample_manager [] []) = ''c''" "disk (sample_manager [] []) = []" by (simp_all add: sample_manager_def)
  have "''t'' \<notin> set (ancestors (parent (to_path hex_encode download_info ''c'')))"
    using hd_ancestors [of "''t''"] hd_download_dir by fastforce
  with cm show ?thesis
    using downloaded_file_is_served [OF sx.external_axioms plain_download_info _ _ refl resumed_download refl,
        where cm = "sample_manager [] []" and temp_path = "''t''" and E = sample_env and E' = sample_env
        and es = "replicate 5 (TaskRead (Inr 1))"]
    by (auto simp: free_dir_def one_week_def)
qed

end
